(* ===== verification/Prelude.thy ===== *)
theory Prelude
  imports Main "HOL-Library.Word" "HOL-Library.Multiset" "HOL-Library.Sublist"
begin

text \<open>
  What every theory of the development shares: the machine types of the Go code, Go's error
  values with \<open>errors.Is\<close>, \<open>time.Time\<close> with \<open>Truncate\<close>, the two string tests of package
  \<open>strings\<close> the code calls, and the collections of facts the component proofs use.
\<close>

named_theorems go_defs \<open>definitions unfolded together in proofs about one call\<close>
named_theorems sum_cases \<open>case splits on results of fallible calls\<close>

unbundle bit_operations_syntax

section \<open>Machine types\<close>

text \<open>
  \<open>common.Address\<close> is \<open>[20]byte\<close>, \<open>common.Hash\<close> and \<open>[32]byte\<close> are 32 bytes, \<open>uint\<close> is 64 bits
  wide on the platforms the daemon is built for. A \<open>*big.Int\<close> is an \<open>int\<close>.
\<close>

type_synonym address = "160 word"
type_synonym hash = "256 word"
type_synonym u64 = "64 word"
type_synonym u32 = "32 word"

section \<open>Go errors\<close>

text \<open>
  \<open>Sentinel\<close> is a package-level error variable, which \<open>errors.Is\<close> recognises by identity;
  \<open>Opaque\<close> is any other error value, known by its text only; \<open>Wrap pre e post\<close> is the result of
  \<open>fmt.Errorf\<close> with the verb \<open>%w\<close> for \<open>e\<close> between the texts \<open>pre\<close> and \<open>post\<close>.
  A function returning a Go \<open>error\<close> returns \<open>go_error option\<close>, one returning a value and an
  error returns \<open>go_error + 'a\<close>.
\<close>

datatype go_error =
    Sentinel string
  | Opaque string
  | Wrap string go_error string

fun err_msg :: "go_error \<Rightarrow> string" where
  "err_msg (Sentinel m) = m"
| "err_msg (Opaque m) = m"
| "err_msg (Wrap pre e post) = pre @ err_msg e @ post"

fun errors_is :: "go_error \<Rightarrow> string \<Rightarrow> bool" where
  "errors_is (Sentinel m) t = (m = t)"
| "errors_is (Opaque m) t = False"
| "errors_is (Wrap pre e post) t = errors_is e t"

lemmas result_splits [sum_cases] = sum.splits option.splits if_splits prod.splits

lemma Inr_conv_cases: "(case r of Inl e \<Rightarrow> Inl (f e) | Inr x \<Rightarrow> Inr (g x)) = Inr y \<longleftrightarrow>
    (\<exists>x. r = Inr x \<and> y = g x)"
  by (cases r) auto

text \<open>
  The shape of Go's \<open>if err := f(); err != nil { return err }\<close>, and of a check made only when a
  value is present: when the whole sequence returns nil.
\<close>

lemma first_error_None [simp]:
  "(case r of None \<Rightarrow> k | Some e \<Rightarrow> Some e) = None \<longleftrightarrow> r = None \<and> k = None"
  by (cases r) auto

lemma optional_check_None [simp]:
  "(case l of None \<Rightarrow> None | Some x \<Rightarrow> f x) = None \<longleftrightarrow> (\<forall>x. l = Some x \<longrightarrow> f x = None)"
  by (cases l) auto

lemma required_check_None [simp]:
  "(case l of None \<Rightarrow> Some e | Some x \<Rightarrow> f x) = None \<longleftrightarrow> (\<exists>x. l = Some x \<and> f x = None)"
  by (cases l) auto

section \<open>Time\<close>

text \<open>
  A \<open>time.Time\<close> is its distance in nanoseconds from Go's zero time, January 1 of year 1, UTC.
  \<open>t.Truncate(d)\<close> rounds down to a multiple of \<open>d\<close> since the zero time, for times before it too.
\<close>

type_synonym time = int

definition second :: time where "second = 1000000000"
definition hour :: time where "hour = 3600 * second"
definition day :: time where "day = 24 * hour"

definition time_truncate :: "time \<Rightarrow> time \<Rightarrow> time" where
  "time_truncate d t = (if d \<le> 0 then t else t - t mod d)"

lemma hour_pos [simp]: "0 < hour" and day_pos [simp]: "0 < day"
  by (simp_all add: hour_def day_def second_def)

lemma time_truncate_le: "time_truncate d t \<le> t"
  by (simp add: time_truncate_def)

lemma time_truncate_gt: "0 < d \<Longrightarrow> t < time_truncate d t + d"
  using pos_mod_bound [of d t] by (simp add: time_truncate_def)

lemma time_truncate_mono:
  assumes "s \<le> t"
  shows "time_truncate d s \<le> time_truncate d t"
proof (cases "0 < d")
  case True
  have "d * (s div d) \<le> d * (t div d)"
    using True assms by (simp add: zdiv_mono1)
  with True show ?thesis
    by (simp add: time_truncate_def minus_mod_eq_mult_div)
qed (use assms in \<open>simp add: time_truncate_def\<close>)

lemma time_truncate_bucket:
  assumes "0 < d" "d dvd b" "b \<le> t" "t < b + d"
  shows "time_truncate d t = b"
proof -
  from \<open>d dvd b\<close> obtain k where b: "b = d * k" by (auto simp: dvd_def)
  have "t div d = k"
    using assms b by (intro int_div_pos_eq [where r = "t - d * k"]) (auto simp: algebra_simps)
  then show ?thesis
    using assms b by (simp add: time_truncate_def minus_mod_eq_mult_div)
qed

section \<open>Strings\<close>

text \<open>\<open>strings.Contains(s, sub)\<close>; \<open>strings.HasPrefix(s, p)\<close> is the library's \<open>prefix p s\<close>.\<close>

fun str_contains :: "string \<Rightarrow> string \<Rightarrow> bool" where
  "str_contains [] sub = (sub = [])"
| "str_contains (c # s) sub = (prefix sub (c # s) \<or> str_contains s sub)"

lemma str_contains_Cons_iff:
  "(\<exists>u v. c # s = u @ sub @ v) \<longleftrightarrow> prefix sub (c # s) \<or> (\<exists>u v. s = u @ sub @ v)"
  (is "?l \<longleftrightarrow> ?r")
proof
  assume ?l
  then obtain u v where uv: "c # s = u @ sub @ v" by blast
  then show ?r by (cases u) (auto simp: prefix_def)
next
  assume ?r
  then show ?l
  proof
    assume "prefix sub (c # s)"
    then obtain v where "c # s = [] @ sub @ v" by (auto simp: prefix_def)
    then show ?l by blast
  next
    assume "\<exists>u v. s = u @ sub @ v"
    then obtain u v where "c # s = (c # u) @ sub @ v" by auto
    then show ?l by blast
  qed
qed

lemma str_contains_iff: "str_contains s sub \<longleftrightarrow> (\<exists>u v. s = u @ sub @ v)"
  by (induction s) (simp_all add: str_contains_Cons_iff)

section \<open>Lists and sums\<close>

lemma sum_list_filter_mono:
  fixes f :: "'a \<Rightarrow> int"
  assumes "\<forall>x \<in> set xs. 0 \<le> f x" "\<And>x. x \<in> set xs \<Longrightarrow> P x \<Longrightarrow> Q x"
  shows "sum_list (map f (filter P xs)) \<le> sum_list (map f (filter Q xs))"
  using assms by (induction xs) auto

lemma sum_list_filter_nonneg:
  fixes f :: "'a \<Rightarrow> int"
  shows "\<forall>x \<in> set xs. 0 \<le> f x \<Longrightarrow> 0 \<le> sum_list (map f (filter P xs))"
  by (induction xs) auto

lemma sum_list_filter_empty:
  fixes f :: "'a \<Rightarrow> int"
  shows "(\<And>x. x \<in> set xs \<Longrightarrow> \<not> P x) \<Longrightarrow> sum_list (map f (filter P xs)) = 0"
  by (induction xs) auto

text \<open>Lists with distinct keys hold a key once.\<close>

lemma filter_at_most_once:
  "distinct (map f xs) \<Longrightarrow> length (filter (\<lambda>x. f x = y) xs) = (if y \<in> f ` set xs then 1 else 0)"
proof (induction xs)
  case (Cons x xs)
  then show ?case by (cases "f x = y") (simp_all add: eq_commute [of y])
qed simp

end
