(* ===== verification/Go_Num.thy ===== *)
theory Go_Num
  imports Prelude
begin

text \<open>
  The number texts of Go's standard library the code reads and writes: \<open>(*big.Int).String\<close> and
  \<open>(*big.Int).SetString(s, 10)\<close>, which the store uses for amounts and the configuration for
  limits, and \<open>strconv.ParseUint(s, 16, 64)\<close>, which the listener uses on node error messages.
\<close>

section \<open>Digits\<close>

definition digit_char :: "nat \<Rightarrow> char" where
  "digit_char d = ''0123456789abcdef'' ! d"

definition digit_val :: "char \<Rightarrow> nat option" where
  "digit_val c =
     (let k = of_char c :: nat in
      if 48 \<le> k \<and> k \<le> 57 then Some (k - 48)
      else if 97 \<le> k \<and> k \<le> 102 then Some (k - 87)
      else if 65 \<le> k \<and> k \<le> 70 then Some (k - 55)
      else None)"

fun nat_str :: "nat \<Rightarrow> nat \<Rightarrow> string" where
  "nat_str b n = (if b < 2 \<or> n < b then [digit_char n] else nat_str b (n div b) @ [digit_char (n mod b)])"

fun nat_val :: "nat \<Rightarrow> nat \<Rightarrow> string \<Rightarrow> nat option" where
  "nat_val b acc [] = Some acc"
| "nat_val b acc (c # cs) =
     (case digit_val c of
        None \<Rightarrow> None
      | Some d \<Rightarrow> if d < b then nat_val b (acc * b + d) cs else None)"

declare nat_str.simps [simp del]

lemma digit_val_char: "d < 16 \<Longrightarrow> digit_val (digit_char d) = Some d"
proof -
  assume "d < 16"
  then have "d = 0 \<or> d = 1 \<or> d = 2 \<or> d = 3 \<or> d = 4 \<or> d = 5 \<or> d = 6 \<or> d = 7 \<or>
      d = 8 \<or> d = 9 \<or> d = 10 \<or> d = 11 \<or> d = 12 \<or> d = 13 \<or> d = 14 \<or> d = 15"
    by arith
  then show ?thesis by (elim disjE) (simp_all add: digit_val_def digit_char_def)
qed

lemma nat_val_append:
  "nat_val b acc (xs @ ys) = (case nat_val b acc xs of None \<Rightarrow> None | Some a \<Rightarrow> nat_val b a ys)"
  by (induction xs arbitrary: acc) (auto split: option.splits)

lemma nat_val_str: "2 \<le> b \<Longrightarrow> b \<le> 16 \<Longrightarrow> nat_val b 0 (nat_str b n) = Some n"
proof (induction b n rule: nat_str.induct)
  case (1 b n)
  show ?case
  proof (cases "n < b")
    case True
    with 1 show ?thesis by (simp add: nat_str.simps [of b n] digit_val_char)
  next
    case False
    with 1 have "nat_val b 0 (nat_str b (n div b)) = Some (n div b)" by simp
    moreover have "n mod b < b" "n mod b < 16"
      using 1(2,3) mod_less_divisor [of b n] by linarith+
    ultimately show ?thesis
      using False "1.prems" by (simp add: nat_str.simps [of b n] nat_val_append digit_val_char)
  qed
qed

lemma nat_str_not_Nil [simp]: "nat_str b n \<noteq> []"
  by (simp add: nat_str.simps [of b n])

lemma digit_char_digit: "d < b \<Longrightarrow> b \<le> 16 \<Longrightarrow> digit_val (digit_char d) \<noteq> None"
  by (simp add: digit_val_char)

lemma set_nat_str: "2 \<le> b \<Longrightarrow> b \<le> 16 \<Longrightarrow> c \<in> set (nat_str b n) \<Longrightarrow> digit_val c \<noteq> None"
proof (induction b n rule: nat_str.induct)
  case (1 b n)
  have "n mod b < 16" if "\<not> n < b"
    using 1(2,3) mod_less_divisor [of b n] by linarith
  with 1 show ?case
    by (subst (asm) (2) nat_str.simps) (auto split: if_splits simp: digit_val_char)
qed

section \<open>Big integers in base ten\<close>

text \<open>
  \<open>SetString\<close> in base ten takes an optional sign and at least one digit, and fails unless it
  consumes the whole text; underscores are accepted in base 0 only.
\<close>

definition big_string :: "int \<Rightarrow> string" where
  "big_string i = (if i < 0 then CHR ''-'' # nat_str 10 (nat (- i)) else nat_str 10 (nat i))"

definition scan_nat :: "string \<Rightarrow> nat option" where
  "scan_nat s = (if s = [] then None else nat_val 10 0 s)"

definition set_string :: "string \<Rightarrow> int option" where
  "set_string s =
     (case s of
        [] \<Rightarrow> None
      | c # cs \<Rightarrow>
          if c = CHR ''-'' then map_option (\<lambda>n. - int n) (scan_nat cs)
          else if c = CHR ''+'' then map_option int (scan_nat cs)
          else map_option int (scan_nat s))"

lemma digit_not_sign: "digit_val c \<noteq> None \<Longrightarrow> c \<noteq> CHR ''-'' \<and> c \<noteq> CHR ''+''"
  by (auto simp: digit_val_def)

lemma set_string_big_string [simp]: "set_string (big_string i) = Some i"
proof (cases "i < 0")
  case True
  then show ?thesis
    by (simp add: big_string_def set_string_def scan_nat_def nat_val_str)
next
  case False
  obtain c cs where s: "nat_str 10 (nat i) = c # cs"
    by (cases "nat_str 10 (nat i)") auto
  then have "digit_val c \<noteq> None"
    using set_nat_str [of 10 c "nat i"] by simp
  then have "c \<noteq> CHR ''-''" "c \<noteq> CHR ''+''" using digit_not_sign by blast+
  moreover have "nat_val 10 0 (c # cs) = Some (nat i)"
    using nat_val_str [of 10 "nat i"] s by simp
  ultimately show ?thesis
    by (simp add: big_string_def set_string_def scan_nat_def False s del: nat_val.simps)
      (use False in simp)
qed

lemma big_string_inj: "big_string i = big_string j \<Longrightarrow> i = j"
  by (metis set_string_big_string option.inject)

section \<open>Hexadecimal \<open>uint64\<close>\<close>

definition parse_uint_hex :: "string \<Rightarrow> go_error + u64" where
  "parse_uint_hex s =
     (let fail = (\<lambda>why. Opaque (''strconv.ParseUint: parsing \"'' @ s @ ''\": '' @ why)) in
      if s = [] then Inl (fail ''invalid syntax'')
      else case nat_val 16 0 s of
             None \<Rightarrow> Inl (fail ''invalid syntax'')
           | Some n \<Rightarrow> if n < 2 ^ 64 then Inr (of_nat n) else Inl (fail ''value out of range''))"

definition hex_u64 :: "u64 \<Rightarrow> string" where
  "hex_u64 w = nat_str 16 (unat w)"

lemma parse_uint_hex_hex [simp]: "parse_uint_hex (hex_u64 w) = Inr w"
  using unsigned_less [of w, where 'a = nat]
  by (simp add: parse_uint_hex_def hex_u64_def nat_val_str Let_def)

lemma parse_uint_hex_overflow:
  "2 ^ 64 \<le> n \<Longrightarrow> \<exists>e. parse_uint_hex (nat_str 16 n) = Inl e"
  by (simp add: parse_uint_hex_def nat_val_str Let_def)

end
