(* ===== verification/Custody_Types.thy ===== *)
theory Custody_Types
  imports Go_Num
begin

text \<open>
  The data the components exchange (\<open>custody/types.go\<close>) and the interface
  \<open>custody.WithdrawalStore\<close> with its contract, as a locale. The functions of go-ethereum's package
  \<open>common\<close> that turn addresses and hashes into text are not under \<open>src/\<close>: they are the fields of
  the record \<open>geth\<close>, a parameter of every definition that prints or parses an address.
\<close>

section \<open>Events and withdrawals\<close>

record withdraw_started_event =
  ws_WithdrawalID :: hash
  ws_User :: address
  ws_Token :: address
  ws_Amount :: int
  ws_Nonce :: int
  ws_BlockNumber :: u64
  ws_TxHash :: hash
  ws_LogIndex :: u64

record withdraw_finalized_event =
  wf_WithdrawalID :: hash
  wf_Success :: bool
  wf_BlockNumber :: u64
  wf_TxHash :: hash
  wf_LogIndex :: u64

record deposited_event =
  dep_User :: address
  dep_Token :: address
  dep_Amount :: int
  dep_BlockNumber :: u64
  dep_TxHash :: hash
  dep_LogIndex :: u64

record withdrawal =
  wd_WithdrawalID :: hash
  wd_User :: address
  wd_Token :: address
  wd_Amount :: int
  wd_BlockNumber :: u64
  wd_TxHash :: hash
  wd_Timestamp :: time

section \<open>Addresses and hashes as text\<close>

record geth =
  addr_hex :: "address \<Rightarrow> string"
  hash_hex :: "hash \<Rightarrow> string"
  is_hex_address :: "string \<Rightarrow> bool"
  hex_to_address :: "string \<Rightarrow> address"

text \<open>
  What the code relies on: distinct values print as distinct texts, and the printed address is a
  hex address that parses back to itself.
\<close>

definition geth_ok :: "geth \<Rightarrow> bool" where
  "geth_ok G \<longleftrightarrow> inj (addr_hex G) \<and> inj (hash_hex G) \<and>
     (\<forall>a. is_hex_address G (addr_hex G a) \<and> hex_to_address G (addr_hex G a) = a)"

lemma addr_hex_eq: "geth_ok G \<Longrightarrow> addr_hex G a = addr_hex G b \<longleftrightarrow> a = b"
  and hash_hex_eq: "geth_ok G \<Longrightarrow> hash_hex G h = hash_hex G k \<longleftrightarrow> h = k"
  by (auto simp: geth_ok_def dest: injD)

text \<open>
  A concrete instance for the witnesses: plain hexadecimal, without the checksum capitals.
\<close>

definition hex_text :: "nat \<Rightarrow> string" where
  "hex_text n = ''0x'' @ nat_str 16 n"

definition plain_geth :: geth where
  "plain_geth =
     \<lparr>addr_hex = (\<lambda>a. hex_text (unat a)),
      hash_hex = (\<lambda>h. hex_text (unat h)),
      is_hex_address = (\<lambda>s. prefix ''0x'' s \<and> nat_val 16 0 (drop 2 s) \<noteq> None),
      hex_to_address = (\<lambda>s. case nat_val 16 0 (drop 2 s) of None \<Rightarrow> 0 | Some n \<Rightarrow> of_nat n)\<rparr>"

lemma nat_val_hex_text [simp]: "nat_val 16 0 (drop 2 (hex_text n)) = Some n"
  by (simp add: hex_text_def nat_val_str)

lemma hex_text_inj: "hex_text m = hex_text n \<Longrightarrow> m = n"
  by (metis nat_val_hex_text option.inject)

lemma plain_geth_ok [simp]: "geth_ok plain_geth"
  by (auto simp: geth_ok_def plain_geth_def word_unat_eq_iff intro!: injI dest!: hex_text_inj)
    (simp add: hex_text_def)

section \<open>The interface \<open>WithdrawalStore\<close>\<close>

text \<open>
  The Go interface value is a record of its three methods; a method that writes returns its error
  and the new state. \<open>p\<close> is what an implementation depends on beside its state.
\<close>

record 's withdrawal_store =
  Save :: "withdrawal \<Rightarrow> 's \<Rightarrow> go_error option \<times> 's"
  GetTotalWithdrawn :: "address \<Rightarrow> time \<Rightarrow> 's \<Rightarrow> go_error + int"
  GetTotalWithdrawnByUser :: "address \<Rightarrow> address \<Rightarrow> time \<Rightarrow> 's \<Rightarrow> go_error + int"

definition counts :: "withdrawal \<Rightarrow> address option \<Rightarrow> address \<Rightarrow> time \<Rightarrow> bool" where
  "counts w u tok since \<longleftrightarrow>
     (case u of None \<Rightarrow> True | Some a \<Rightarrow> wd_User w = a) \<and> wd_Token w = tok \<and> since \<le> wd_Timestamp w"

locale withdrawal_store =
  fixes impl :: "'p \<Rightarrow> 's withdrawal_store"
    and lawful :: "'p \<Rightarrow> bool"
    and inv :: "'s \<Rightarrow> bool"
    and spent :: "'p \<Rightarrow> address option \<Rightarrow> address \<Rightarrow> time \<Rightarrow> 's \<Rightarrow> int"
  assumes total: "lawful p \<Longrightarrow> inv s \<Longrightarrow> GetTotalWithdrawn (impl p) tok since s = Inr n \<Longrightarrow>
      n = spent p None tok since s"
    and total_by_user: "lawful p \<Longrightarrow> inv s \<Longrightarrow>
      GetTotalWithdrawnByUser (impl p) usr tok since s = Inr n \<Longrightarrow> n = spent p (Some usr) tok since s"
    and save_error: "lawful p \<Longrightarrow> Save (impl p) w s = (Some e, s') \<Longrightarrow> s' = s"
    and save_inv: "lawful p \<Longrightarrow> inv s \<Longrightarrow> 0 \<le> wd_Amount w \<Longrightarrow> Save (impl p) w s = (None, s') \<Longrightarrow>
      inv s'"
    and save_spent: "lawful p \<Longrightarrow> inv s \<Longrightarrow> Save (impl p) w s = (None, s') \<Longrightarrow>
      spent p u tok since s' =
        spent p u tok since s + (if counts w u tok since then wd_Amount w else 0)"
    and spent_nonneg: "inv s \<Longrightarrow> 0 \<le> spent p u tok since s"
    and spent_antimono: "inv s \<Longrightarrow> since \<le> since' \<Longrightarrow>
      spent p u tok since' s \<le> spent p u tok since s"
begin

lemma save_cases:
  assumes "lawful p" "inv s" "0 \<le> wd_Amount w" "Save (impl p) w s = (r, s')"
  shows "inv s'"
proof (cases r)
  case None
  with assms show ?thesis by (auto intro: save_inv)
next
  case (Some e)
  with assms have "s' = s" by (auto intro: save_error)
  with assms(2) show ?thesis by simp
qed

lemma spent_save_le:
  assumes "lawful p" "inv s" "0 \<le> wd_Amount w" "Save (impl p) w s = (r, s')"
  shows "spent p u tok since s' \<le> spent p u tok since s + wd_Amount w"
proof (cases r)
  case None
  with assms show ?thesis by (simp add: save_spent)
next
  case (Some e)
  with assms have "s' = s" by (auto intro: save_error)
  with assms(3) show ?thesis by simp
qed

end

end
