(* ===== verification/Store.thy ===== *)
theory Store
  imports Custody_Types Go_Num
begin

text \<open>
  \<open>internal/store/adapter.go\<close>: the three tables, the adapter's operations on them and the proof
  that the adapter keeps the contract of \<open>custody.WithdrawalStore\<close>. The statements the adapter hands
  to gorm (a create, a query with its where clause, an upsert, a transaction) are executed by code
  outside \<open>src/\<close>: the record \<open>gorm\<close> holds the functions that execute them, and \<open>gorm_ok\<close> is the
  documented behaviour of a database that may fail on any statement but never answers wrongly.
\<close>

section \<open>Tables\<close>

text \<open>
  The columns the source declares. The embedded \<open>gorm.Model\<close> of \<open>WithdrawalModel\<close> (row id, creation
  and update times, soft-delete mark) is the library's own and never read by the code.
\<close>

record withdrawal_model =
  wm_WithdrawalID :: string
  wm_User :: string
  wm_Token :: string
  wm_Amount :: string
  wm_BlockNumber :: u64
  wm_TxHash :: string
  wm_Timestamp :: time

record block_cursor_model =
  bc_StreamName :: string
  bc_BlockNumber :: u64
  bc_LogIndex :: u64
  bc_UpdatedAt :: time

record withdraw_event_model =
  we_ID :: u64
  we_WithdrawalID :: string
  we_UserAddress :: string
  we_TokenAddress :: string
  we_Amount :: string
  we_Decision :: string
  we_Reason :: string
  we_BlockNumber :: u64
  we_TxHash :: string
  we_LogIndex :: u64
  we_CreatedAt :: time

record db =
  withdrawals :: "withdrawal_model list"
  cursors :: "block_cursor_model list"
  events :: "withdraw_event_model list"

section \<open>The database engine\<close>

text \<open>
  \<open>TokenSince tok t\<close> is \<open>Where("token = ? AND timestamp >= ?", tok, t)\<close> and \<open>UserTokenSince\<close> adds
  the condition on the user. \<open>Find\<close> returns its rows in no promised order.
\<close>

datatype query =
    TokenSince string time
  | UserTokenSince string string time

fun matches :: "query \<Rightarrow> withdrawal_model \<Rightarrow> bool" where
  "matches (TokenSince tok t) m = (wm_Token m = tok \<and> t \<le> wm_Timestamp m)"
| "matches (UserTokenSince u tok t) m =
     (wm_User m = u \<and> wm_Token m = tok \<and> t \<le> wm_Timestamp m)"

lemma matches_fun:
  "matches (TokenSince tok t) = (\<lambda>m. wm_Token m = tok \<and> t \<le> wm_Timestamp m)"
  "matches (UserTokenSince u tok t) =
     (\<lambda>m. wm_User m = u \<and> wm_Token m = tok \<and> t \<le> wm_Timestamp m)"
  by (rule ext, simp)+

record gorm =
  auto_migrate :: "db \<Rightarrow> go_error option \<times> db"
  create_withdrawal :: "withdrawal_model \<Rightarrow> db \<Rightarrow> go_error option \<times> db"
  find_withdrawals :: "query \<Rightarrow> db \<Rightarrow> go_error + withdrawal_model list"
  first_cursor :: "string \<Rightarrow> db \<Rightarrow> go_error + block_cursor_model"
  create_event :: "withdraw_event_model \<Rightarrow> db \<Rightarrow> go_error option \<times> db"
  upsert_cursor_row :: "block_cursor_model \<Rightarrow> db \<Rightarrow> go_error option \<times> db"
  count_events :: "string \<Rightarrow> db \<Rightarrow> go_error + nat"
  transaction :: "(db \<Rightarrow> go_error option \<times> db) \<Rightarrow> db \<Rightarrow> go_error option \<times> db"

definition ErrRecordNotFound :: string where
  "ErrRecordNotFound = ''record not found''"

text \<open>
  What the statements do when they succeed. \<open>t\<close> and \<open>i\<close> are the times and ids gorm fills in. The
  unique index on the withdrawal id makes a plain create fail and a create with
  \<open>OnConflict{DoNothing: true}\<close> insert nothing.
\<close>

definition insert_event ::
    "u64 \<Rightarrow> time \<Rightarrow> withdraw_event_model \<Rightarrow> withdraw_event_model list \<Rightarrow> withdraw_event_model list" where
  "insert_event i t ev evs =
     (if we_WithdrawalID ev \<in> we_WithdrawalID ` set evs then evs
      else evs @ [ev\<lparr>we_ID := i, we_CreatedAt := t\<rparr>])"

definition put_cursor ::
    "time \<Rightarrow> block_cursor_model \<Rightarrow> block_cursor_model list \<Rightarrow> block_cursor_model list" where
  "put_cursor t c cs =
     (if bc_StreamName c \<in> bc_StreamName ` set cs
      then map (\<lambda>x. if bc_StreamName x = bc_StreamName c
                    then x\<lparr>bc_BlockNumber := bc_BlockNumber c, bc_LogIndex := bc_LogIndex c,
                           bc_UpdatedAt := t\<rparr>
                    else x) cs
      else cs @ [c\<lparr>bc_UpdatedAt := t\<rparr>])"

definition create_ok :: "gorm \<Rightarrow> bool" where
  "create_ok E \<longleftrightarrow> (\<forall>m d. (\<exists>e. create_withdrawal E m d = (Some e, d)) \<or>
     (wm_WithdrawalID m \<notin> wm_WithdrawalID ` set (withdrawals d) \<and>
      create_withdrawal E m d = (None, d\<lparr>withdrawals := withdrawals d @ [m]\<rparr>)))"

definition find_ok :: "gorm \<Rightarrow> bool" where
  "find_ok E \<longleftrightarrow> (\<forall>q d rows. find_withdrawals E q d = Inr rows \<longrightarrow>
     mset rows = mset (filter (matches q) (withdrawals d)))"

definition cursor_ok :: "gorm \<Rightarrow> bool" where
  "cursor_ok E \<longleftrightarrow> (\<forall>n d.
     (case first_cursor E n d of
        Inl e \<Rightarrow> errors_is e ErrRecordNotFound \<longrightarrow> n \<notin> bc_StreamName ` set (cursors d)
      | Inr c \<Rightarrow> c \<in> set (cursors d) \<and> bc_StreamName c = n))"

definition event_ok :: "gorm \<Rightarrow> bool" where
  "event_ok E \<longleftrightarrow> (\<forall>ev d. (\<exists>e. create_event E ev d = (Some e, d)) \<or>
     (\<exists>i t. create_event E ev d = (None, d\<lparr>events := insert_event i t ev (events d)\<rparr>)))"

definition upsert_ok :: "gorm \<Rightarrow> bool" where
  "upsert_ok E \<longleftrightarrow> (\<forall>c d. (\<exists>e. upsert_cursor_row E c d = (Some e, d)) \<or>
     (\<exists>t. upsert_cursor_row E c d = (None, d\<lparr>cursors := put_cursor t c (cursors d)\<rparr>)))"

definition count_ok :: "gorm \<Rightarrow> bool" where
  "count_ok E \<longleftrightarrow> (\<forall>w d n. count_events E w d = Inr n \<longrightarrow>
     n = length (filter (\<lambda>ev. we_WithdrawalID ev = w) (events d)))"

text \<open>A transaction commits what its function did, or reports an error and changes nothing.\<close>

definition transaction_ok :: "gorm \<Rightarrow> bool" where
  "transaction_ok E \<longleftrightarrow> (\<forall>f d. (\<exists>e. transaction E f d = (Some e, d)) \<or>
     (\<exists>d'. f d = (None, d') \<and> transaction E f d = (None, d')))"

definition gorm_ok :: "gorm \<Rightarrow> bool" where
  "gorm_ok E \<longleftrightarrow> create_ok E \<and> find_ok E \<and> cursor_ok E \<and> event_ok E \<and> upsert_ok E \<and> count_ok E \<and>
     transaction_ok E"

text \<open>An engine that never fails answers every statement.\<close>

definition faultless :: "gorm \<Rightarrow> bool" where
  "faultless E \<longleftrightarrow>
     (\<forall>m d. wm_WithdrawalID m \<notin> wm_WithdrawalID ` set (withdrawals d) \<longrightarrow>
        fst (create_withdrawal E m d) = None) \<and>
     (\<forall>q d. \<not> isl (find_withdrawals E q d)) \<and>
     (\<forall>ev d. fst (create_event E ev d) = None) \<and>
     (\<forall>c d. fst (upsert_cursor_row E c d) = None) \<and>
     (\<forall>w d. \<not> isl (count_events E w d)) \<and>
     (\<forall>f d. fst (f d) = None \<longrightarrow> fst (transaction E f d) = None)"

text \<open>
  A concrete engine for the witnesses, which never fails, and one whose disk is full for the
  ledger only.
\<close>

definition sql_engine :: gorm where
  "sql_engine =
     \<lparr>auto_migrate = (\<lambda>d. (None, d)),
      create_withdrawal = (\<lambda>m d.
        if wm_WithdrawalID m \<in> wm_WithdrawalID ` set (withdrawals d)
        then (Some (Opaque ''UNIQUE constraint failed''), d)
        else (None, d\<lparr>withdrawals := withdrawals d @ [m]\<rparr>)),
      find_withdrawals = (\<lambda>q d. Inr (filter (matches q) (withdrawals d))),
      first_cursor = (\<lambda>n d.
        case filter (\<lambda>c. bc_StreamName c = n) (cursors d) of
          [] \<Rightarrow> Inl (Sentinel ErrRecordNotFound)
        | c # _ \<Rightarrow> Inr c),
      create_event = (\<lambda>ev d.
        (None, d\<lparr>events := insert_event (of_nat (Suc (length (events d)))) 0 ev (events d)\<rparr>)),
      upsert_cursor_row = (\<lambda>c d. (None, d\<lparr>cursors := put_cursor 0 c (cursors d)\<rparr>)),
      count_events = (\<lambda>w d. Inr (length (filter (\<lambda>ev. we_WithdrawalID ev = w) (events d)))),
      transaction = (\<lambda>f d. case f d of (Some e, _) \<Rightarrow> (Some e, d) | (None, d') \<Rightarrow> (None, d'))\<rparr>"

definition full_engine :: gorm where
  "full_engine = sql_engine\<lparr>create_withdrawal := (\<lambda>m d. (Some (Opaque ''database or disk is full''), d))\<rparr>"

lemma engine_laws:
  "find_ok sql_engine" "cursor_ok sql_engine" "event_ok sql_engine" "upsert_ok sql_engine"
  "count_ok sql_engine" "transaction_ok sql_engine" "create_ok sql_engine"
proof -
  show "cursor_ok sql_engine"
    by (force simp: cursor_ok_def sql_engine_def filter_empty_conv filter_eq_Cons_iff image_iff
        split: list.splits)
qed (auto simp: find_ok_def event_ok_def upsert_ok_def count_ok_def transaction_ok_def create_ok_def
    sql_engine_def split: prod.splits option.splits)

lemma sql_engine_ok [simp]: "gorm_ok sql_engine"
  by (simp add: gorm_ok_def engine_laws)

lemma full_engine_ok [simp]: "gorm_ok full_engine"
  using engine_laws
  by (simp add: gorm_ok_def full_engine_def find_ok_def cursor_ok_def event_ok_def upsert_ok_def
      count_ok_def transaction_ok_def create_ok_def)

lemma sql_engine_faultless [simp]: "faultless sql_engine"
  by (auto simp: faultless_def sql_engine_def split: prod.splits option.splits)

section \<open>The adapter's operations\<close>

definition NewAdapter :: "gorm \<Rightarrow> db \<Rightarrow> (go_error + gorm) \<times> db" where
  "NewAdapter E d =
     (case auto_migrate E d of
        (Some err, d') \<Rightarrow> (Inl err, d')
      | (None, d') \<Rightarrow> (Inr E, d'))"

definition to_model :: "geth \<Rightarrow> withdrawal \<Rightarrow> withdrawal_model" where
  "to_model G w =
     \<lparr>wm_WithdrawalID = hash_hex G (wd_WithdrawalID w),
      wm_User = addr_hex G (wd_User w),
      wm_Token = addr_hex G (wd_Token w),
      wm_Amount = big_string (wd_Amount w),
      wm_BlockNumber = wd_BlockNumber w,
      wm_TxHash = hash_hex G (wd_TxHash w),
      wm_Timestamp = wd_Timestamp w\<rparr>"

definition adapter_Save :: "geth \<Rightarrow> gorm \<Rightarrow> withdrawal \<Rightarrow> db \<Rightarrow> go_error option \<times> db" where
  "adapter_Save G E w d = create_withdrawal E (to_model G w) d"

text \<open>The verb \<open>%q\<close> of package \<open>fmt\<close>, on a text of single-byte characters.\<close>

definition quote_char :: "char \<Rightarrow> string" where
  "quote_char c =
     (let k = of_char c :: nat in
      if k = 34 then [CHR 0x5C, CHR 0x22]
      else if k = 92 then [CHR 0x5C, CHR 0x5C]
      else if k = 7 then [CHR 0x5C, CHR ''a'']
      else if k = 8 then [CHR 0x5C, CHR ''b'']
      else if k = 9 then [CHR 0x5C, CHR ''t'']
      else if k = 10 then [CHR 0x5C, CHR ''n'']
      else if k = 11 then [CHR 0x5C, CHR ''v'']
      else if k = 12 then [CHR 0x5C, CHR ''f'']
      else if k = 13 then [CHR 0x5C, CHR ''r'']
      else if 32 \<le> k \<and> k < 127 then [c]
      else [CHR 0x5C, CHR ''x'', digit_char (k div 16), digit_char (k mod 16)])"

definition go_quote :: "string \<Rightarrow> string" where
  "go_quote s = CHR 0x22 # concat (map quote_char s) @ [CHR 0x22]"

fun sum_loop :: "int \<Rightarrow> withdrawal_model list \<Rightarrow> go_error + int" where
  "sum_loop tot [] = Inr tot"
| "sum_loop tot (w # ws) =
     (case set_string (wm_Amount w) of
        None \<Rightarrow> Inl (Opaque (''corrupted amount in withdrawal '' @ wm_WithdrawalID w @ '': '' @
                             go_quote (wm_Amount w)))
      | Some amount \<Rightarrow> sum_loop (tot + amount) ws)"

definition sumAmounts :: "withdrawal_model list \<Rightarrow> go_error + int" where
  "sumAmounts ws = sum_loop 0 ws"

definition adapter_GetTotalWithdrawn ::
    "geth \<Rightarrow> gorm \<Rightarrow> address \<Rightarrow> time \<Rightarrow> db \<Rightarrow> go_error + int" where
  "adapter_GetTotalWithdrawn G E token since d =
     (case find_withdrawals E (TokenSince (addr_hex G token) since) d of
        Inl err \<Rightarrow> Inl err
      | Inr ws \<Rightarrow> sumAmounts ws)"

definition adapter_GetTotalWithdrawnByUser ::
    "geth \<Rightarrow> gorm \<Rightarrow> address \<Rightarrow> address \<Rightarrow> time \<Rightarrow> db \<Rightarrow> go_error + int" where
  "adapter_GetTotalWithdrawnByUser G E user token since d =
     (case find_withdrawals E (UserTokenSince (addr_hex G user) (addr_hex G token) since) d of
        Inl err \<Rightarrow> Inl err
      | Inr ws \<Rightarrow> sumAmounts ws)"

text \<open>
  The stored log index is a \<open>uint\<close>; the returned one is cut to 32 bits.
\<close>

definition GetCursor :: "gorm \<Rightarrow> string \<Rightarrow> db \<Rightarrow> go_error + (u64 \<times> u32)" where
  "GetCursor E streamName d =
     (case first_cursor E streamName d of
        Inl err \<Rightarrow> if errors_is err ErrRecordNotFound then Inr (0, 0) else Inl err
      | Inr cursor \<Rightarrow> Inr (bc_BlockNumber cursor, ucast (bc_LogIndex cursor)))"

definition upsertCursor :: "gorm \<Rightarrow> string \<Rightarrow> u64 \<Rightarrow> u64 \<Rightarrow> db \<Rightarrow> go_error option \<times> db" where
  "upsertCursor E streamName blockNumber logIndex tx =
     upsert_cursor_row E
       \<lparr>bc_StreamName = streamName, bc_BlockNumber = blockNumber, bc_LogIndex = logIndex,
        bc_UpdatedAt = 0\<rparr> tx"

definition withdraw_started_stream :: string where
  "withdraw_started_stream = ''withdraw_started''"

definition RecordWithdrawEvent :: "gorm \<Rightarrow> withdraw_event_model \<Rightarrow> db \<Rightarrow> go_error option \<times> db" where
  "RecordWithdrawEvent E ev d =
     transaction E
       (\<lambda>tx. case create_event E ev tx of
               (Some err, tx') \<Rightarrow> (Some err, tx')
             | (None, tx') \<Rightarrow>
                 upsertCursor E withdraw_started_stream (we_BlockNumber ev) (we_LogIndex ev) tx') d"

text \<open>The error of the count is not looked at: the count then stays 0.\<close>

definition HasWithdrawEvent :: "gorm \<Rightarrow> string \<Rightarrow> db \<Rightarrow> bool" where
  "HasWithdrawEvent E withdrawalID d =
     (let count = (case count_events E withdrawalID d of Inl err \<Rightarrow> 0 | Inr n \<Rightarrow> n) in count > 0)"

text \<open>\<open>var _ custody.WithdrawalStore = (*Adapter)(nil)\<close>: the adapter as an interface value.\<close>

definition adapter :: "geth \<times> gorm \<Rightarrow> db withdrawal_store" where
  "adapter p =
     \<lparr>Save = adapter_Save (fst p) (snd p),
      GetTotalWithdrawn = adapter_GetTotalWithdrawn (fst p) (snd p),
      GetTotalWithdrawnByUser = adapter_GetTotalWithdrawnByUser (fst p) (snd p)\<rparr>"

section \<open>The invariant of the tables\<close>

definition row_amount :: "withdrawal_model \<Rightarrow> int" where
  "row_amount m = (case set_string (wm_Amount m) of None \<Rightarrow> 0 | Some n \<Rightarrow> n)"

text \<open>
  The unique indices hold, and every stored amount is the text of a number that is not negative.
\<close>

definition amounts_ok :: "withdrawal_model list \<Rightarrow> bool" where
  "amounts_ok ws \<longleftrightarrow> (\<forall>m \<in> set ws. set_string (wm_Amount m) = Some (row_amount m) \<and> 0 \<le> row_amount m)"

definition db_ok :: "db \<Rightarrow> bool" where
  "db_ok d \<longleftrightarrow> distinct (map wm_WithdrawalID (withdrawals d)) \<and>
     distinct (map we_WithdrawalID (events d)) \<and>
     distinct (map bc_StreamName (cursors d)) \<and>
     amounts_ok (withdrawals d)"

definition query_of :: "geth \<Rightarrow> address option \<Rightarrow> address \<Rightarrow> time \<Rightarrow> query" where
  "query_of G u tok since =
     (case u of
        None \<Rightarrow> TokenSince (addr_hex G tok) since
      | Some a \<Rightarrow> UserTokenSince (addr_hex G a) (addr_hex G tok) since)"

definition ledger_total :: "withdrawal_model list \<Rightarrow> query \<Rightarrow> int" where
  "ledger_total ws q = sum_list (map row_amount (filter (matches q) ws))"

definition adapter_spent :: "geth \<times> gorm \<Rightarrow> address option \<Rightarrow> address \<Rightarrow> time \<Rightarrow> db \<Rightarrow> int" where
  "adapter_spent p u tok since d = ledger_total (withdrawals d) (query_of (fst p) u tok since)"

definition lawful :: "geth \<times> gorm \<Rightarrow> bool" where
  "lawful p \<longleftrightarrow> geth_ok (fst p) \<and> gorm_ok (snd p)"

section \<open>Sums of amounts\<close>

lemma sum_loop_ok:
  "\<forall>m \<in> set ws. set_string (wm_Amount m) \<noteq> None \<Longrightarrow>
    sum_loop t ws = Inr (t + sum_list (map row_amount ws))"
  by (induction ws arbitrary: t) (auto simp: row_amount_def)

lemma sum_loop_Inr: "sum_loop t ws = Inr n \<Longrightarrow> \<forall>m \<in> set ws. set_string (wm_Amount m) \<noteq> None"
  by (induction ws arbitrary: t) (auto split: option.splits)

lemma sumAmounts_iff:
  "sumAmounts ws = Inr n \<longleftrightarrow>
     (\<forall>m \<in> set ws. set_string (wm_Amount m) \<noteq> None) \<and> n = sum_list (map row_amount ws)"
  using sum_loop_Inr [of 0 ws n] sum_loop_ok [of ws 0] by (auto simp: sumAmounts_def)

lemma sum_list_mset: "mset xs = mset ys \<Longrightarrow> sum_list (map f xs) = (sum_list (map f ys) :: int)"
  by (metis mset_map sum_mset_sum_list)

lemma find_total:
  assumes "gorm_ok E" "db_ok d" "find_withdrawals E q d = Inr rows"
  shows "sumAmounts rows = Inr (ledger_total (withdrawals d) q)"
proof -
  from assms(1,3) have m: "mset rows = mset (filter (matches q) (withdrawals d))"
    by (auto simp: gorm_ok_def find_ok_def)
  then have "set rows \<subseteq> set (withdrawals d)"
    using mset_eq_setD by fastforce
  then have "\<forall>m \<in> set rows. set_string (wm_Amount m) \<noteq> None"
    using assms(2) by (auto simp: db_ok_def amounts_ok_def)
  with m show ?thesis
    by (simp add: sumAmounts_iff ledger_total_def sum_list_mset)
qed

lemma ledger_total_append:
  "ledger_total (ws @ [m]) q = ledger_total ws q + (if matches q m then row_amount m else 0)"
  by (simp add: ledger_total_def)

lemma ledger_total_nonneg: "amounts_ok ws \<Longrightarrow> 0 \<le> ledger_total ws q"
  by (auto simp: ledger_total_def amounts_ok_def intro!: sum_list_filter_nonneg)

lemma ledger_total_mono:
  assumes "amounts_ok ws" "\<And>m. m \<in> set ws \<Longrightarrow> matches q m \<Longrightarrow> matches q' m"
  shows "ledger_total ws q \<le> ledger_total ws q'"
  unfolding ledger_total_def
  by (rule sum_list_filter_mono) (use assms in \<open>auto simp: amounts_ok_def\<close>)

lemma row_amount_to_model [simp]: "row_amount (to_model G w) = wd_Amount w"
  by (simp add: row_amount_def to_model_def)

lemma matches_to_model:
  "geth_ok G \<Longrightarrow> matches (query_of G u tok since) (to_model G w) = counts w u tok since"
  by (auto simp: query_of_def to_model_def counts_def addr_hex_eq split: option.splits)

section \<open>What each operation does to the tables\<close>

text \<open>The laws of the engine, one statement at a time.\<close>

lemma create_okD: "gorm_ok E \<Longrightarrow> (\<exists>e. create_withdrawal E m d = (Some e, d)) \<or>
    (wm_WithdrawalID m \<notin> wm_WithdrawalID ` set (withdrawals d) \<and>
     create_withdrawal E m d = (None, d\<lparr>withdrawals := withdrawals d @ [m]\<rparr>))"
  unfolding gorm_ok_def create_ok_def by blast

lemma event_okD: "gorm_ok E \<Longrightarrow> (\<exists>e. create_event E ev d = (Some e, d)) \<or>
    (\<exists>i t. create_event E ev d = (None, d\<lparr>events := insert_event i t ev (events d)\<rparr>))"
  unfolding gorm_ok_def event_ok_def by blast

lemma upsert_okD: "gorm_ok E \<Longrightarrow> (\<exists>e. upsert_cursor_row E c d = (Some e, d)) \<or>
    (\<exists>t. upsert_cursor_row E c d = (None, d\<lparr>cursors := put_cursor t c (cursors d)\<rparr>))"
  unfolding gorm_ok_def upsert_ok_def by blast

lemma transaction_okD: "gorm_ok E \<Longrightarrow> (\<exists>e. transaction E f d = (Some e, d)) \<or>
    (\<exists>d'. f d = (None, d') \<and> transaction E f d = (None, d'))"
  unfolding gorm_ok_def transaction_ok_def by blast

lemma count_okD: "gorm_ok E \<Longrightarrow> count_events E w d = Inr n \<Longrightarrow>
    n = length (filter (\<lambda>ev. we_WithdrawalID ev = w) (events d))"
  unfolding gorm_ok_def count_ok_def by blast

lemma adapter_Save_cases:
  assumes "gorm_ok E" "adapter_Save G E w d = (r, d')"
  shows "(\<exists>e. r = Some e \<and> d' = d) \<or>
    (r = None \<and> hash_hex G (wd_WithdrawalID w) \<notin> wm_WithdrawalID ` set (withdrawals d) \<and>
     d' = d\<lparr>withdrawals := withdrawals d @ [to_model G w]\<rparr>)"
  using create_okD [OF assms(1), of "to_model G w" d] assms(2)
  by (auto simp: adapter_Save_def to_model_def)

lemma upsertCursor_cases:
  assumes "gorm_ok E" "upsertCursor E s b i d = (r, d')"
  shows "(\<exists>e. r = Some e \<and> d' = d) \<or>
    (r = None \<and> (\<exists>t. d' = d\<lparr>cursors := put_cursor t \<lparr>bc_StreamName = s, bc_BlockNumber = b,
       bc_LogIndex = i, bc_UpdatedAt = 0\<rparr> (cursors d)\<rparr>))"
  using upsert_okD [OF assms(1), of "\<lparr>bc_StreamName = s, bc_BlockNumber = b,
       bc_LogIndex = i, bc_UpdatedAt = 0\<rparr>" d] assms(2)
  by (auto simp: upsertCursor_def)

lemma RecordWithdrawEvent_cases:
  assumes "gorm_ok E" "RecordWithdrawEvent E ev d = (r, d')"
  shows "(\<exists>e. r = Some e \<and> d' = d) \<or>
    (r = None \<and> (\<exists>i t t'. d' = d\<lparr>events := insert_event i t ev (events d),
       cursors := put_cursor t' \<lparr>bc_StreamName = withdraw_started_stream,
         bc_BlockNumber = we_BlockNumber ev, bc_LogIndex = we_LogIndex ev, bc_UpdatedAt = 0\<rparr>
         (cursors d)\<rparr>))"
proof -
  let ?f = "\<lambda>tx. case create_event E ev tx of
      (Some err, tx') \<Rightarrow> (Some err, tx')
    | (None, tx') \<Rightarrow>
        upsertCursor E withdraw_started_stream (we_BlockNumber ev) (we_LogIndex ev) tx'"
  have tr: "transaction E ?f d = (r, d')"
    using assms(2) by (simp add: RecordWithdrawEvent_def)
  consider e where "transaction E ?f d = (Some e, d)"
    | d'' where "?f d = (None, d'')" "transaction E ?f d = (None, d'')"
    using transaction_okD [OF assms(1), of ?f d] by blast
  then show ?thesis
  proof cases
    case (1 e)
    with tr have "r = Some e \<and> d' = d" by simp
    then show ?thesis by blast
  next
    case (2 d'')
    with tr have r: "r = None" "?f d = (None, d')" by simp_all
    then obtain tx where tx: "create_event E ev d = (None, tx)"
      and up: "upsertCursor E withdraw_started_stream (we_BlockNumber ev) (we_LogIndex ev) tx = (None, d')"
      by (cases "create_event E ev d") (auto split: option.splits)
    from event_okD [OF assms(1), of ev d] tx
    obtain i t where "tx = d\<lparr>events := insert_event i t ev (events d)\<rparr>" by auto
    with upsertCursor_cases [OF assms(1) up] r(1) show ?thesis by auto
  qed
qed

lemma HasWithdrawEvent_iff:
  assumes "gorm_ok E" "\<not> isl (count_events E wid d)"
  shows "HasWithdrawEvent E wid d \<longleftrightarrow> wid \<in> we_WithdrawalID ` set (events d)"
proof -
  from assms(2) obtain n where n: "count_events E wid d = Inr n"
    by (cases "count_events E wid d") auto
  from count_okD [OF assms(1) n] show ?thesis
    by (auto simp: HasWithdrawEvent_def n Let_def filter_empty_conv image_iff)
qed

lemma HasWithdrawEvent_sound:
  assumes "gorm_ok E" "HasWithdrawEvent E wid d"
  shows "wid \<in> we_WithdrawalID ` set (events d)"
proof -
  have "\<not> isl (count_events E wid d)"
    using assms(2) by (auto simp: HasWithdrawEvent_def Let_def split: sum.splits)
  with HasWithdrawEvent_iff [OF assms(1)] assms(2) show ?thesis by blast
qed

section \<open>The operations keep the invariant\<close>

lemma amounts_ok_snoc: "amounts_ok (ws @ [m]) \<longleftrightarrow> amounts_ok ws \<and> amounts_ok [m]"
  by (auto simp: amounts_ok_def)

lemma amounts_ok_to_model: "0 \<le> wd_Amount w \<Longrightarrow> amounts_ok [to_model G w]"
  by (simp add: amounts_ok_def) (simp add: to_model_def)

lemma adapter_Save_inv:
  assumes "gorm_ok E" "db_ok d" "0 \<le> wd_Amount w" "adapter_Save G E w d = (None, d')"
  shows "db_ok d'"
  using adapter_Save_cases [OF assms(1,4)] assms(2) amounts_ok_to_model [OF assms(3), of G]
  by (auto simp: db_ok_def amounts_ok_snoc [of "withdrawals d"]) (auto simp: to_model_def)

lemma insert_event_ids:
  "we_WithdrawalID ` set (insert_event i t ev evs) = insert (we_WithdrawalID ev) (we_WithdrawalID ` set evs)"
  by (auto simp: insert_event_def)

lemma insert_event_distinct:
  "distinct (map we_WithdrawalID evs) \<Longrightarrow> distinct (map we_WithdrawalID (insert_event i t ev evs))"
  by (auto simp: insert_event_def)

lemma put_cursor_map_names:
  "map bc_StreamName (put_cursor t c cs) =
     (if bc_StreamName c \<in> set (map bc_StreamName cs) then map bc_StreamName cs
      else map bc_StreamName cs @ [bc_StreamName c])"
  by (auto simp: put_cursor_def)

lemma put_cursor_distinct:
  "distinct (map bc_StreamName cs) \<Longrightarrow> distinct (map bc_StreamName (put_cursor t c cs))"
  by (auto simp: put_cursor_map_names simp del: map_map)

lemma put_cursor_names:
  "bc_StreamName ` set (put_cursor t c cs) = insert (bc_StreamName c) (bc_StreamName ` set cs)"
  using arg_cong [OF put_cursor_map_names [of t c cs], of set] by (auto split: if_splits)

lemma put_cursor_lookup:
  assumes "x \<in> set (put_cursor t c cs)" "bc_StreamName x = bc_StreamName c"
  shows "bc_BlockNumber x = bc_BlockNumber c \<and> bc_LogIndex x = bc_LogIndex c"
  using assms by (auto simp: put_cursor_def image_iff split: if_splits)

lemma RecordWithdrawEvent_inv:
  assumes "gorm_ok E" "db_ok d" "RecordWithdrawEvent E ev d = (r, d')"
  shows "db_ok d'"
  using RecordWithdrawEvent_cases [OF assms(1,3)] assms(2)
  by (auto simp: db_ok_def insert_event_distinct put_cursor_distinct)

lemma RecordWithdrawEvent_withdrawals:
  assumes "gorm_ok E" "RecordWithdrawEvent E ev d = (r, d')"
  shows "withdrawals d' = withdrawals d"
  using RecordWithdrawEvent_cases [OF assms] by auto

section \<open>The adapter keeps the contract of \<open>WithdrawalStore\<close>\<close>

interpretation adapter_store: withdrawal_store adapter lawful db_ok adapter_spent
proof
  fix p :: "geth \<times> gorm" and d d' :: db and tok since since' n w e u usr
  show "n = adapter_spent p None tok since d"
    if "lawful p" "db_ok d" "GetTotalWithdrawn (adapter p) tok since d = Inr n"
    using that find_total [of "snd p" d]
    by (auto simp: adapter_def adapter_GetTotalWithdrawn_def adapter_spent_def query_of_def
        lawful_def split: sum.splits)
  show "n = adapter_spent p (Some usr) tok since d"
    if "lawful p" "db_ok d" "GetTotalWithdrawnByUser (adapter p) usr tok since d = Inr n"
    using that find_total [of "snd p" d]
    by (auto simp: adapter_def adapter_GetTotalWithdrawnByUser_def adapter_spent_def query_of_def
        lawful_def split: sum.splits)
  show "d' = d" if "lawful p" "Save (adapter p) w d = (Some e, d')"
    using that adapter_Save_cases [of "snd p" "fst p" w d] by (auto simp: adapter_def lawful_def)
  show "db_ok d'"
    if "lawful p" "db_ok d" "0 \<le> wd_Amount w" "Save (adapter p) w d = (None, d')"
    using that adapter_Save_inv [of "snd p" d w "fst p" d'] by (auto simp: adapter_def lawful_def)
  show "adapter_spent p u tok since d' =
      adapter_spent p u tok since d + (if counts w u tok since then wd_Amount w else 0)"
    if "lawful p" "db_ok d" "Save (adapter p) w d = (None, d')"
    using that adapter_Save_cases [of "snd p" "fst p" w d None d']
    by (auto simp: adapter_def lawful_def adapter_spent_def ledger_total_append matches_to_model)
  show "0 \<le> adapter_spent p u tok since d" if "db_ok d"
    using that by (simp add: adapter_spent_def ledger_total_nonneg db_ok_def)
  show "adapter_spent p u tok since' d \<le> adapter_spent p u tok since d"
    if "db_ok d" "since \<le> since'"
    using that unfolding adapter_spent_def
    by (intro ledger_total_mono) (auto simp: db_ok_def query_of_def split: option.splits)
qed

section \<open>Properties of the store\<close>

definition sample_row :: "string \<Rightarrow> address \<Rightarrow> address \<Rightarrow> int \<Rightarrow> time \<Rightarrow> withdrawal_model" where
  "sample_row i u tok n t =
     \<lparr>wm_WithdrawalID = i, wm_User = addr_hex plain_geth u, wm_Token = addr_hex plain_geth tok,
      wm_Amount = big_string n, wm_BlockNumber = 1, wm_TxHash = ''0x1'', wm_Timestamp = t\<rparr>"

definition empty_db :: db where
  "empty_db = \<lparr>withdrawals = [], cursors = [], events = []\<rparr>"

definition sample_db :: db where
  "sample_db = empty_db\<lparr>withdrawals := [sample_row ''0xa'' 7 5 100 10, sample_row ''0xb'' 8 5 30 20]\<rparr>"

lemma empty_db_ok [simp]: "db_ok empty_db"
  by (simp add: db_ok_def amounts_ok_def empty_db_def)

lemma row_amount_sample [simp]: "row_amount (sample_row i u tok n t) = n"
  by (simp add: row_amount_def sample_row_def)

lemma sample_db_ok [simp]: "db_ok sample_db"
  by (simp add: db_ok_def amounts_ok_def sample_db_def empty_db_def)
    (simp add: sample_row_def)

lemma find_total_faultless:
  assumes "gorm_ok E" "faultless E" "db_ok d"
  shows "\<exists>rows. find_withdrawals E q d = Inr rows \<and> sumAmounts rows = Inr (ledger_total (withdrawals d) q)"
proof -
  from assms(2) have "\<not> isl (find_withdrawals E q d)" by (simp add: faultless_def)
  then obtain rows where "find_withdrawals E q d = Inr rows"
    by (cases "find_withdrawals E q d") auto
  with find_total [OF assms(1,3) this] show ?thesis by blast
qed

text \<open>What the two totals are meant to be.\<close>

definition total_of :: "geth \<Rightarrow> address \<Rightarrow> time \<Rightarrow> db \<Rightarrow> int" where
  "total_of G tok since d =
     (\<Sum>m \<leftarrow> filter (\<lambda>m. wm_Token m = addr_hex G tok \<and> since \<le> wm_Timestamp m) (withdrawals d).
        row_amount m)"

definition user_total_of :: "geth \<Rightarrow> address \<Rightarrow> address \<Rightarrow> time \<Rightarrow> db \<Rightarrow> int" where
  "user_total_of G u tok since d =
     (\<Sum>m \<leftarrow> filter (\<lambda>m. wm_User m = addr_hex G u \<and> wm_Token m = addr_hex G tok \<and>
          since \<le> wm_Timestamp m) (withdrawals d). row_amount m)"

lemma spent_is_total:
  "adapter_spent (G, E) None tok since d = total_of G tok since d"
  "adapter_spent (G, E) (Some u) tok since d = user_total_of G u tok since d"
  by (simp_all add: adapter_spent_def ledger_total_def query_of_def total_of_def user_total_of_def
      matches_fun)

lemma totals_faultless:
  assumes "gorm_ok E" "faultless E" "db_ok d"
  shows "adapter_GetTotalWithdrawn G E tok since d = Inr (total_of G tok since d)"
    and "adapter_GetTotalWithdrawnByUser G E u tok since d = Inr (user_total_of G u tok since d)"
  using find_total_faultless [OF assms, of "TokenSince (addr_hex G tok) since"]
    find_total_faultless [OF assms, of "UserTokenSince (addr_hex G u) (addr_hex G tok) since"]
  by (auto simp: adapter_GetTotalWithdrawn_def adapter_GetTotalWithdrawnByUser_def ledger_total_def
      total_of_def user_total_of_def matches_fun)

text \<open>
  C27: while the database answers, \<open>GetTotalWithdrawn\<close> returns exactly the sum of the amounts of the
  recorded withdrawals of the token since the given time, and \<open>GetTotalWithdrawnByUser\<close> that of the
  withdrawals of the user among them, whatever the order in which the rows come back.
\<close>

theorem totals_are_sums:
  assumes "gorm_ok E" "faultless E" "db_ok d"
  shows "adapter_GetTotalWithdrawn G E tok since d =
      Inr (\<Sum>m \<leftarrow> filter (\<lambda>m. wm_Token m = addr_hex G tok \<and> since \<le> wm_Timestamp m) (withdrawals d).
             row_amount m) \<and>
    adapter_GetTotalWithdrawnByUser G E u tok since d =
      Inr (\<Sum>m \<leftarrow> filter (\<lambda>m. wm_User m = addr_hex G u \<and> wm_Token m = addr_hex G tok \<and>
             since \<le> wm_Timestamp m) (withdrawals d). row_amount m)"
  using totals_faultless [OF assms] by (simp add: total_of_def user_total_of_def)

theorem totals_are_sums_witness:
  "adapter_GetTotalWithdrawn plain_geth sql_engine 5 15 sample_db = Inr 30 \<and>
   adapter_GetTotalWithdrawnByUser plain_geth sql_engine 7 5 0 sample_db = Inr 100"
  using totals_are_sums [OF sql_engine_ok sql_engine_faultless sample_db_ok, of plain_geth 5 15 8]
    totals_are_sums [OF sql_engine_ok sql_engine_faultless sample_db_ok, of plain_geth 5 0 7]
  by (simp add: sample_db_def empty_db_def)
    (simp add: sample_row_def row_amount_def addr_hex_eq [OF plain_geth_ok])

text \<open>
  A corrupted amount among the rows of a query is never skipped: the total is an error exactly
  when some row the query matches has an amount that is not a decimal number, and the error names a
  row of the query.
\<close>

theorem corrupted_amount_is_error:
  assumes "gorm_ok E" "find_withdrawals E (TokenSince (addr_hex G tok) since) d = Inr rows"
  shows "isl (adapter_GetTotalWithdrawn G E tok since d) \<longleftrightarrow>
    (\<exists>m \<in> set (withdrawals d). wm_Token m = addr_hex G tok \<and> since \<le> wm_Timestamp m \<and>
       set_string (wm_Amount m) = None)"
proof -
  have "mset rows = mset (filter (matches (TokenSince (addr_hex G tok) since)) (withdrawals d))"
    using assms by (auto simp: gorm_ok_def find_ok_def)
  from mset_eq_setD [OF this]
  have "set rows = {m \<in> set (withdrawals d). wm_Token m = addr_hex G tok \<and> since \<le> wm_Timestamp m}"
    by auto
  moreover have "isl (sumAmounts rows) \<longleftrightarrow> (\<exists>m \<in> set rows. set_string (wm_Amount m) = None)"
    using sumAmounts_iff [of rows] by (cases "sumAmounts rows") auto
  ultimately show ?thesis
    using assms(2) by (auto simp: adapter_GetTotalWithdrawn_def)
qed

theorem corrupted_amount_is_error_witness:
  "isl (adapter_GetTotalWithdrawn plain_geth sql_engine 5 0
     (sample_db\<lparr>withdrawals := [(sample_row ''0xa'' 7 5 1 10)\<lparr>wm_Amount := ''1e3''\<rparr>]\<rparr>))"
  by (subst corrupted_amount_is_error [OF sql_engine_ok])
    (auto simp: sql_engine_def sample_row_def set_string_def scan_nat_def digit_val_def)

text \<open>
  A saved withdrawal is counted from then on: after \<open>Save\<close> returned nil, the total of every token
  and of every user and token since any time has grown by the amount if the withdrawal belongs to it,
  and by nothing otherwise; the tables keep their invariant.
\<close>

theorem save_then_totals:
  assumes "geth_ok G" "gorm_ok E" "db_ok d" "0 \<le> wd_Amount w"
    and "adapter_Save G E w d = (None, d')"
  shows "db_ok d' \<and>
    total_of G tok since d' = total_of G tok since d +
      (if wd_Token w = tok \<and> since \<le> wd_Timestamp w then wd_Amount w else 0) \<and>
    user_total_of G u tok since d' = user_total_of G u tok since d +
      (if wd_User w = u \<and> wd_Token w = tok \<and> since \<le> wd_Timestamp w then wd_Amount w else 0)"
proof -
  have L: "lawful (G, E)" and S: "Save (adapter (G, E)) w d = (None, d')"
    using assms by (simp_all add: lawful_def adapter_def)
  from adapter_store.save_inv [OF L assms(3,4) S]
    adapter_store.save_spent [OF L assms(3) S, of None tok since]
    adapter_store.save_spent [OF L assms(3) S, of "Some u" tok since]
  show ?thesis by (simp add: spent_is_total counts_def)
qed

definition sample_withdrawal :: withdrawal where
  "sample_withdrawal =
     \<lparr>wd_WithdrawalID = 12, wd_User = 7, wd_Token = 5, wd_Amount = 60, wd_BlockNumber = 3,
      wd_TxHash = 4, wd_Timestamp = 30\<rparr>"

lemma sample_save:
  "adapter_Save plain_geth sql_engine sample_withdrawal empty_db =
     (None, empty_db\<lparr>withdrawals := [to_model plain_geth sample_withdrawal]\<rparr>)"
  by (simp add: adapter_Save_def sql_engine_def empty_db_def)

theorem save_then_totals_witness:
  "user_total_of plain_geth 7 5 0 (empty_db\<lparr>withdrawals := [to_model plain_geth sample_withdrawal]\<rparr>)
     = 60"
  using save_then_totals [OF plain_geth_ok sql_engine_ok empty_db_ok _ sample_save, of 5 0 7]
  by (simp add: sample_withdrawal_def user_total_of_def empty_db_def)

text \<open>The position a stream's cursor stands at.\<close>

definition cursor_at :: "string \<Rightarrow> db \<Rightarrow> (u64 \<times> u64) set" where
  "cursor_at n d = {(bc_BlockNumber c, bc_LogIndex c) | c. c \<in> set (cursors d) \<and> bc_StreamName c = n}"

lemma cursor_at_put:
  "cursor_at (bc_StreamName c) (d\<lparr>cursors := put_cursor t c cs\<rparr>) = {(bc_BlockNumber c, bc_LogIndex c)}"
proof -
  have "bc_StreamName c \<in> bc_StreamName ` set (put_cursor t c cs)"
    by (simp add: put_cursor_names)
  then obtain x where "x \<in> set (put_cursor t c cs)" "bc_StreamName x = bc_StreamName c" by auto
  then show ?thesis
    using put_cursor_lookup [of _ t c cs] by (auto simp: cursor_at_def) metis+
qed

lemma record_event_facts:
  assumes "gorm_ok E" "RecordWithdrawEvent E ev d = (None, d')"
  shows "withdrawals d' = withdrawals d"
    and "we_WithdrawalID ` set (events d') = insert (we_WithdrawalID ev) (we_WithdrawalID ` set (events d))"
    and "set (events d) \<subseteq> set (events d')"
    and "cursor_at withdraw_started_stream d' = {(we_BlockNumber ev, we_LogIndex ev)}"
proof -
  let ?c = "\<lparr>bc_StreamName = withdraw_started_stream, bc_BlockNumber = we_BlockNumber ev,
     bc_LogIndex = we_LogIndex ev, bc_UpdatedAt = 0\<rparr>"
  from RecordWithdrawEvent_cases [OF assms] obtain i t t' where
    d': "d' = d\<lparr>events := insert_event i t ev (events d), cursors := put_cursor t' ?c (cursors d)\<rparr>"
    by auto
  show "withdrawals d' = withdrawals d" by (simp add: d')
  show "we_WithdrawalID ` set (events d') = insert (we_WithdrawalID ev) (we_WithdrawalID ` set (events d))"
    by (simp add: d' insert_event_ids)
  show "set (events d) \<subseteq> set (events d')" by (auto simp: d' insert_event_def)
  show "cursor_at withdraw_started_stream d' = {(we_BlockNumber ev, we_LogIndex ev)}"
    using cursor_at_put [of ?c] by (simp add: d')
qed

lemma GetCursor_at:
  assumes "gorm_ok E" "GetCursor E n d = Inr (b, i)" "cursor_at n d \<noteq> {}"
  shows "\<exists>k. (b, k) \<in> cursor_at n d \<and> i = ucast k"
proof -
  have law: "case first_cursor E n d of
      Inl e \<Rightarrow> errors_is e ErrRecordNotFound \<longrightarrow> n \<notin> bc_StreamName ` set (cursors d)
    | Inr c \<Rightarrow> c \<in> set (cursors d) \<and> bc_StreamName c = n"
    using assms(1) by (simp add: gorm_ok_def cursor_ok_def)
  have "n \<in> bc_StreamName ` set (cursors d)"
    using assms(3) by (auto simp: cursor_at_def)
  with law assms(2) show ?thesis
    by (cases "first_cursor E n d") (auto simp: GetCursor_def cursor_at_def split: if_splits)
qed

text \<open>
  C23: \<open>RecordWithdrawEvent\<close> is atomic. If it returns an error, no table has changed; if it returns
  nil, the event's withdrawal id is recorded, an earlier event with that id is kept as it was, the
  ledger is untouched, and the cursor of the stream is at the event's block and log index.
\<close>

theorem record_event_atomic:
  assumes "gorm_ok E" "db_ok d" "RecordWithdrawEvent E ev d = (r, d')"
  shows "case r of
      Some err \<Rightarrow> d' = d
    | None \<Rightarrow>
        withdrawals d' = withdrawals d \<and> db_ok d' \<and>
        we_WithdrawalID ` set (events d') = insert (we_WithdrawalID ev) (we_WithdrawalID ` set (events d)) \<and>
        set (events d) \<subseteq> set (events d') \<and>
        cursor_at withdraw_started_stream d' = {(we_BlockNumber ev, we_LogIndex ev)}"
  using RecordWithdrawEvent_cases [OF assms(1,3)] RecordWithdrawEvent_inv [OF assms]
    record_event_facts [OF assms(1), of ev d d'] assms(3)
  by (cases r) auto

definition sample_event :: withdraw_event_model where
  "sample_event =
     \<lparr>we_ID = 0, we_WithdrawalID = ''0xc'', we_UserAddress = ''0x7'', we_TokenAddress = ''0x5'',
      we_Amount = ''60'', we_Decision = ''approved'', we_Reason = '''', we_BlockNumber = 9,
      we_TxHash = ''0x4'', we_LogIndex = 2, we_CreatedAt = 0\<rparr>"

lemma sample_record:
  "RecordWithdrawEvent sql_engine sample_event empty_db =
     (None, empty_db\<lparr>events := [sample_event\<lparr>we_ID := 1\<rparr>],
        cursors := [\<lparr>bc_StreamName = withdraw_started_stream, bc_BlockNumber = 9, bc_LogIndex = 2,
                    bc_UpdatedAt = 0\<rparr>]\<rparr>)"
  by (simp add: RecordWithdrawEvent_def upsertCursor_def sql_engine_def empty_db_def
      insert_event_def put_cursor_def sample_event_def)

theorem record_event_atomic_witness:
  "we_WithdrawalID ` set (events (snd (RecordWithdrawEvent sql_engine sample_event empty_db))) = {''0xc''}"
  unfolding sample_record snd_conv
  using record_event_atomic [OF sql_engine_ok empty_db_ok sample_record]
  by (simp add: sample_event_def)

text \<open>
  After an event was recorded, \<open>GetCursor\<close> gives back the event's block and log index, provided
  the index fits the 32 bits it is cut to.
\<close>

theorem cursor_roundtrip:
  assumes "gorm_ok E" "RecordWithdrawEvent E ev d = (None, d')"
    and "gorm_ok E'" "GetCursor E' withdraw_started_stream d' = Inr (b, i)"
    and "unat (we_LogIndex ev) < 2 ^ 32"
  shows "b = we_BlockNumber ev \<and> unat i = unat (we_LogIndex ev)"
proof -
  have at: "cursor_at withdraw_started_stream d' = {(we_BlockNumber ev, we_LogIndex ev)}"
    using record_event_facts(4) [OF assms(1,2)] .
  with GetCursor_at [OF assms(3,4)] have "b = we_BlockNumber ev" "i = ucast (we_LogIndex ev)"
    by auto
  with assms(5) show ?thesis by (simp add: unsigned_ucast_eq take_bit_nat_eq_self)
qed

theorem cursor_roundtrip_witness:
  "GetCursor sql_engine withdraw_started_stream (snd (RecordWithdrawEvent sql_engine sample_event empty_db))
     = Inr (9, 2) \<and> unat (2 :: u32) = unat (we_LogIndex sample_event)"
proof -
  have "GetCursor sql_engine withdraw_started_stream (snd (RecordWithdrawEvent sql_engine sample_event empty_db))
     = Inr (9, 2)"
    by (simp add: sample_record) (simp add: GetCursor_def sql_engine_def)
  with cursor_roundtrip [OF sql_engine_ok sample_record sql_engine_ok, of 9 2] show ?thesis
    by (simp add: sample_record) (simp add: sample_event_def)
qed

end
