(* ===== verification/Bindings.thy ===== *)
theory Bindings
  imports Custody_Types
begin

text \<open>
  The contract bindings \<open>custody/iwithdraw.go\<close> and \<open>custody/ideposit.go\<close>: transactors, parsers,
  filters with their iterators, and watchers. The generic contract wrapper of go-ethereum's package
  \<open>bind\<close> (\<open>BoundContract\<close>) is not under \<open>src/\<close>: the record \<open>bound_contract\<close> holds its methods. The
  generator writes the same iterator and watcher for every event; they are modelled once, over the
  event's own struct, and instantiated per event.
\<close>

section \<open>Logs, transactions and the contract wrapper\<close>

record eth_log =
  log_Address :: address
  log_Topics :: "hash list"
  log_Data :: string
  log_BlockNumber :: u64
  log_TxHash :: hash
  log_Index :: u64

record eth_tx =
  tx_Hash :: hash

datatype abi_arg =
    ABytes32 hash
  | AAddress address
  | AUint int
  | ABool bool
  | ABytes4 "32 word"

record filter_opts =
  Start :: u64
  End :: "u64 option"

text \<open>
  The options of a call and of a transaction: the fields the sender decides. Gas, nonce and the
  signing function are go-ethereum's own.
\<close>

record call_opts =
  co_Pending :: bool
  co_From :: address

record transact_opts =
  to_From :: address
  to_Value :: int

text \<open>
  \<open>Call\<close> runs a view method and returns its decoded results; \<open>Transact\<close> signs and sends a call of
  a method, \<open>PlainTransfer\<close> (\<open>Transfer\<close> in the source) a payment without one. \<open>FilterLogs\<close> returns the
  buffered log channel and
  the subscription: \<open>Some r\<close> once it has ended with the error value \<open>r\<close>, \<open>None\<close> before.
  \<open>UnpackLog\<close> decodes a log as the named event, giving the event's fields in their order.
\<close>

record bound_contract =
  Call :: "call_opts \<Rightarrow> string \<Rightarrow> abi_arg list \<Rightarrow> go_error + abi_arg list"
  Transact :: "transact_opts \<Rightarrow> string \<Rightarrow> abi_arg list \<Rightarrow> go_error + eth_tx"
  PlainTransfer :: "transact_opts \<Rightarrow> go_error + eth_tx"
  FilterLogs :: "filter_opts \<Rightarrow> string \<Rightarrow> abi_arg list list \<Rightarrow>
      go_error + (eth_log list \<times> go_error option option)"
  WatchLogs :: "string \<Rightarrow> abi_arg list list \<Rightarrow> go_error option"
  UnpackLog :: "string \<Rightarrow> eth_log \<Rightarrow> go_error + abi_arg list"

section \<open>Event structs\<close>

record i_withdraw_finalized =
  iwf_WithdrawalId :: hash
  iwf_Success :: bool
  iwf_Raw :: eth_log

record i_withdraw_started =
  iws_WithdrawalId :: hash
  iws_User :: address
  iws_Token :: address
  iws_Amount :: int
  iws_Nonce :: int
  iws_Raw :: eth_log

record i_deposited =
  idep_User :: address
  idep_Token :: address
  idep_Amount :: int
  idep_Raw :: eth_log

text \<open>
  Copying the decoded fields into the struct; \<open>UnpackLog\<close> fails when they do not fit it.
\<close>

definition cannot_unmarshal :: go_error where
  "cannot_unmarshal = Opaque ''abi: cannot unmarshal event''"

definition mk_withdraw_finalized :: "abi_arg list \<Rightarrow> eth_log \<Rightarrow> go_error + i_withdraw_finalized" where
  "mk_withdraw_finalized args raw =
     (case args of
        [ABytes32 i, ABool ok] \<Rightarrow> Inr \<lparr>iwf_WithdrawalId = i, iwf_Success = ok, iwf_Raw = raw\<rparr>
      | _ \<Rightarrow> Inl cannot_unmarshal)"

definition mk_withdraw_started :: "abi_arg list \<Rightarrow> eth_log \<Rightarrow> go_error + i_withdraw_started" where
  "mk_withdraw_started args raw =
     (case args of
        [ABytes32 i, AAddress u, AAddress t, AUint a, AUint n] \<Rightarrow>
          Inr \<lparr>iws_WithdrawalId = i, iws_User = u, iws_Token = t, iws_Amount = a, iws_Nonce = n,
               iws_Raw = raw\<rparr>
      | _ \<Rightarrow> Inl cannot_unmarshal)"

definition mk_deposited :: "abi_arg list \<Rightarrow> eth_log \<Rightarrow> go_error + i_deposited" where
  "mk_deposited args raw =
     (case args of
        [AAddress u, AAddress t, AUint a] \<Rightarrow>
          Inr \<lparr>idep_User = u, idep_Token = t, idep_Amount = a, idep_Raw = raw\<rparr>
      | _ \<Rightarrow> Inl cannot_unmarshal)"

definition unpack_event ::
    "(abi_arg list \<Rightarrow> eth_log \<Rightarrow> go_error + 'ev) \<Rightarrow> bound_contract \<Rightarrow> string \<Rightarrow> eth_log \<Rightarrow>
     go_error + 'ev" where
  "unpack_event mk C name log =
     (case UnpackLog C name log of
        Inl err \<Rightarrow> Inl err
      | Inr args \<Rightarrow> mk args log)"

section \<open>Iterators\<close>

record 'ev log_iterator =
  it_Event :: "'ev option"
  it_contract :: bound_contract
  it_event :: string
  it_logs :: "eth_log list"
  it_sub :: "go_error option option"
  it_done :: bool
  it_fail :: "go_error option"

text \<open>
  A log received from the channel. When it cannot be decoded the code leaves a struct of no meaning
  in \<open>Event\<close>, here \<open>None\<close>, and no caller reads it after \<open>false\<close>.
\<close>

definition iter_take ::
    "(abi_arg list \<Rightarrow> eth_log \<Rightarrow> go_error + 'ev) \<Rightarrow> 'ev log_iterator \<Rightarrow> eth_log \<Rightarrow> eth_log list \<Rightarrow>
     bool \<times> 'ev log_iterator" where
  "iter_take mk it log rest =
     (case unpack_event mk (it_contract it) (it_event it) log of
        Inl err \<Rightarrow> (False, it\<lparr>it_Event := None, it_logs := rest, it_fail := Some err\<rparr>)
      | Inr ev \<Rightarrow> (True, it\<lparr>it_Event := Some ev, it_logs := rest\<rparr>))"

text \<open>The branch of a completed iterator: a receive that does not wait.\<close>

definition iter_drain ::
    "(abi_arg list \<Rightarrow> eth_log \<Rightarrow> go_error + 'ev) \<Rightarrow> 'ev log_iterator \<Rightarrow> bool \<times> 'ev log_iterator" where
  "iter_drain mk it =
     (case it_logs it of
        log # rest \<Rightarrow> iter_take mk it log rest
      | [] \<Rightarrow> (False, it))"

text \<open>
  The select of an iterator in progress waits for a log or the end of the subscription; when both
  are ready Go picks either, here by \<open>pick_err\<close>. \<open>None\<close> is a select that still waits. The recursive
  call after the end of the subscription is unfolded: it finds \<open>fail\<close> or \<open>done\<close> set.
\<close>

definition iter_next ::
    "(abi_arg list \<Rightarrow> eth_log \<Rightarrow> go_error + 'ev) \<Rightarrow> bool \<Rightarrow> 'ev log_iterator \<Rightarrow>
     (bool \<times> 'ev log_iterator) option" where
  "iter_next mk pick_err it =
     (let ended = (\<lambda>err.
            (let it' = it\<lparr>it_done := True, it_fail := err\<rparr> in
             if it_fail it' \<noteq> None then (False, it') else iter_drain mk it'))
      in if it_fail it \<noteq> None then Some (False, it)
         else if it_done it then Some (iter_drain mk it)
         else case (it_logs it, it_sub it) of
                ([], None) \<Rightarrow> None
              | ([], Some err) \<Rightarrow> Some (ended err)
              | (log # rest, None) \<Rightarrow> Some (iter_take mk it log rest)
              | (log # rest, Some err) \<Rightarrow>
                  if pick_err then Some (ended err) else Some (iter_take mk it log rest))"

text \<open>
  \<open>Error\<close>, and \<open>Close\<close>, which unsubscribes: a subscription that has not ended then ends without error.
\<close>

definition iter_error :: "'ev log_iterator \<Rightarrow> go_error option" where
  "iter_error it = it_fail it"

definition iter_close :: "'ev log_iterator \<Rightarrow> go_error option \<times> 'ev log_iterator" where
  "iter_close it =
     (None, it\<lparr>it_sub := (case it_sub it of None \<Rightarrow> Some None | Some err \<Rightarrow> Some err)\<rparr>)"

lemma closed_iterator_does_not_wait: "iter_next mk p (snd (iter_close it)) \<noteq> None"
  by (auto simp: iter_next_def iter_close_def Let_def split: option.splits list.splits)

text \<open>\<open>for it.Next() { use(it.Event) }\<close>, with one scheduling choice per call.\<close>

fun iter_collect ::
    "(abi_arg list \<Rightarrow> eth_log \<Rightarrow> go_error + 'ev) \<Rightarrow> bool list \<Rightarrow> 'ev log_iterator \<Rightarrow>
     'ev list \<times> 'ev log_iterator" where
  "iter_collect mk [] it = ([], it)"
| "iter_collect mk (p # ps) it =
     (case iter_next mk p it of
        None \<Rightarrow> ([], it)
      | Some (False, it') \<Rightarrow> ([], it')
      | Some (True, it') \<Rightarrow>
          (let (evs, it'') = iter_collect mk ps it' in
           (case it_Event it' of None \<Rightarrow> evs | Some ev \<Rightarrow> ev # evs, it'')))"

definition new_iterator ::
    "bound_contract \<Rightarrow> string \<Rightarrow> eth_log list \<times> go_error option option \<Rightarrow> 'ev log_iterator" where
  "new_iterator C name chans =
     \<lparr>it_Event = None, it_contract = C, it_event = name, it_logs = fst chans, it_sub = snd chans,
      it_done = False, it_fail = None\<rparr>"

section \<open>Watchers\<close>

text \<open>
  What the goroutine of a watcher meets, in order: a log and the outcome of offering its event to
  the sink, the end of the subscription, or the request to quit.
\<close>

datatype watch_send = Sent | SendErr "go_error option" | SendQuit

datatype watch_step = WatchLog eth_log watch_send | WatchErr "go_error option" | WatchQuit

fun watch_loop ::
    "(abi_arg list \<Rightarrow> eth_log \<Rightarrow> go_error + 'ev) \<Rightarrow> bound_contract \<Rightarrow> string \<Rightarrow> watch_step list \<Rightarrow>
     'ev list \<times> go_error option option" where
  "watch_loop mk C name [] = ([], None)"
| "watch_loop mk C name (WatchLog log send # steps) =
     (case unpack_event mk C name log of
        Inl err \<Rightarrow> ([], Some (Some err))
      | Inr ev \<Rightarrow>
          (case send of
             Sent \<Rightarrow> (let (evs, r) = watch_loop mk C name steps in (ev # evs, r))
           | SendErr err \<Rightarrow> ([], Some err)
           | SendQuit \<Rightarrow> ([], Some None)))"
| "watch_loop mk C name (WatchErr err # steps) = ([], Some err)"
| "watch_loop mk C name (WatchQuit # steps) = ([], Some None)"

section \<open>Binding a contract\<close>

text \<open>
  \<open>abi\<close> is the parsed ABI or the error of parsing it, as the map from event names to topics;
  \<open>new_bound\<close> is go-ethereum's \<open>NewBoundContract\<close>, with a client of type \<open>'c\<close>, or nil, to call, to
  transact and to filter with. The structs of a binding (caller, transactor, filterer, and the one
  that embeds all three) hold nothing but the bound contract.
\<close>

type_synonym abi = "string \<Rightarrow> hash"

type_synonym 'c new_bound =
  "address \<Rightarrow> abi \<Rightarrow> 'c option \<Rightarrow> 'c option \<Rightarrow> 'c option \<Rightarrow> bound_contract"

definition bindIWithdraw ::
    "go_error + abi \<Rightarrow> 'c new_bound \<Rightarrow> address \<Rightarrow> 'c option \<Rightarrow> 'c option \<Rightarrow> 'c option \<Rightarrow>
     go_error + bound_contract" where
  "bindIWithdraw abi new_bound addr caller transactor filterer =
     (case abi of
        Inl err \<Rightarrow> Inl err
      | Inr parsed \<Rightarrow> Inr (new_bound addr parsed caller transactor filterer))"

definition NewIWithdraw ::
    "go_error + abi \<Rightarrow> 'c new_bound \<Rightarrow> address \<Rightarrow> 'c \<Rightarrow> go_error + bound_contract" where
  "NewIWithdraw abi new_bound addr backend =
     (case bindIWithdraw abi new_bound addr (Some backend) (Some backend) (Some backend) of
        Inl err \<Rightarrow> Inl err
      | Inr contract \<Rightarrow> Inr contract)"

definition bindIDeposit ::
    "go_error + abi \<Rightarrow> 'c new_bound \<Rightarrow> address \<Rightarrow> 'c option \<Rightarrow> 'c option \<Rightarrow> 'c option \<Rightarrow>
     go_error + bound_contract" where
  "bindIDeposit abi new_bound addr caller transactor filterer =
     (case abi of
        Inl err \<Rightarrow> Inl err
      | Inr parsed \<Rightarrow> Inr (new_bound addr parsed caller transactor filterer))"

definition NewIDeposit ::
    "go_error + abi \<Rightarrow> 'c new_bound \<Rightarrow> address \<Rightarrow> 'c \<Rightarrow> go_error + bound_contract" where
  "NewIDeposit abi new_bound addr backend =
     (case bindIDeposit abi new_bound addr (Some backend) (Some backend) (Some backend) of
        Inl err \<Rightarrow> Inl err
      | Inr contract \<Rightarrow> Inr contract)"

section \<open>Transactors\<close>

definition FinalizeWithdraw :: "bound_contract \<Rightarrow> transact_opts \<Rightarrow> hash \<Rightarrow> go_error + eth_tx" where
  "FinalizeWithdraw C opts withdrawalId = Transact C opts ''finalizeWithdraw'' [ABytes32 withdrawalId]"

definition RejectWithdraw :: "bound_contract \<Rightarrow> transact_opts \<Rightarrow> hash \<Rightarrow> go_error + eth_tx" where
  "RejectWithdraw C opts withdrawalId = Transact C opts ''rejectWithdraw'' [ABytes32 withdrawalId]"

definition StartWithdraw ::
    "bound_contract \<Rightarrow> transact_opts \<Rightarrow> address \<Rightarrow> address \<Rightarrow> int \<Rightarrow> int \<Rightarrow> go_error + eth_tx" where
  "StartWithdraw C opts user token amount nonce =
     Transact C opts ''startWithdraw'' [AAddress user, AAddress token, AUint amount, AUint nonce]"

definition Deposit :: "bound_contract \<Rightarrow> transact_opts \<Rightarrow> address \<Rightarrow> int \<Rightarrow> go_error + eth_tx" where
  "Deposit C opts token amount = Transact C opts ''deposit'' [AAddress token, AUint amount]"

section \<open>Parsers, filters, iterators and watchers per event\<close>

definition ParseWithdrawFinalized ::
    "bound_contract \<Rightarrow> eth_log \<Rightarrow> go_error + i_withdraw_finalized" where
  "ParseWithdrawFinalized C log = unpack_event mk_withdraw_finalized C ''WithdrawFinalized'' log"

definition ParseWithdrawStarted ::
    "bound_contract \<Rightarrow> eth_log \<Rightarrow> go_error + i_withdraw_started" where
  "ParseWithdrawStarted C log = unpack_event mk_withdraw_started C ''WithdrawStarted'' log"

definition ParseDeposited :: "bound_contract \<Rightarrow> eth_log \<Rightarrow> go_error + i_deposited" where
  "ParseDeposited C log = unpack_event mk_deposited C ''Deposited'' log"

definition FilterWithdrawFinalized ::
    "bound_contract \<Rightarrow> filter_opts \<Rightarrow> hash list \<Rightarrow>
     go_error + i_withdraw_finalized log_iterator" where
  "FilterWithdrawFinalized C opts withdrawalId =
     (let withdrawalIdRule = map ABytes32 withdrawalId in
      case FilterLogs C opts ''WithdrawFinalized'' [withdrawalIdRule] of
        Inl err \<Rightarrow> Inl err
      | Inr chans \<Rightarrow> Inr (new_iterator C ''WithdrawFinalized'' chans))"

definition FilterWithdrawStarted ::
    "bound_contract \<Rightarrow> filter_opts \<Rightarrow> hash list \<Rightarrow> address list \<Rightarrow> address list \<Rightarrow>
     go_error + i_withdraw_started log_iterator" where
  "FilterWithdrawStarted C opts withdrawalId user token =
     (let withdrawalIdRule = map ABytes32 withdrawalId;
          userRule = map AAddress user;
          tokenRule = map AAddress token in
      case FilterLogs C opts ''WithdrawStarted'' [withdrawalIdRule, userRule, tokenRule] of
        Inl err \<Rightarrow> Inl err
      | Inr chans \<Rightarrow> Inr (new_iterator C ''WithdrawStarted'' chans))"

definition FilterDeposited ::
    "bound_contract \<Rightarrow> filter_opts \<Rightarrow> address list \<Rightarrow> address list \<Rightarrow>
     go_error + i_deposited log_iterator" where
  "FilterDeposited C opts user token =
     (let userRule = map AAddress user; tokenRule = map AAddress token in
      case FilterLogs C opts ''Deposited'' [userRule, tokenRule] of
        Inl err \<Rightarrow> Inl err
      | Inr chans \<Rightarrow> Inr (new_iterator C ''Deposited'' chans))"

definition NextWithdrawFinalized ::
    "bool \<Rightarrow> i_withdraw_finalized log_iterator \<Rightarrow> (bool \<times> i_withdraw_finalized log_iterator) option" where
  "NextWithdrawFinalized = iter_next mk_withdraw_finalized"

definition NextWithdrawStarted ::
    "bool \<Rightarrow> i_withdraw_started log_iterator \<Rightarrow> (bool \<times> i_withdraw_started log_iterator) option" where
  "NextWithdrawStarted = iter_next mk_withdraw_started"

definition NextDeposited ::
    "bool \<Rightarrow> i_deposited log_iterator \<Rightarrow> (bool \<times> i_deposited log_iterator) option" where
  "NextDeposited = iter_next mk_deposited"

text \<open>
  A watcher that subscribed returns what its goroutine delivers and how it ends.
\<close>

definition WatchWithdrawFinalized ::
    "bound_contract \<Rightarrow> hash list \<Rightarrow> watch_step list \<Rightarrow>
     go_error + (i_withdraw_finalized list \<times> go_error option option)" where
  "WatchWithdrawFinalized C withdrawalId steps =
     (let withdrawalIdRule = map ABytes32 withdrawalId in
      case WatchLogs C ''WithdrawFinalized'' [withdrawalIdRule] of
        Some err \<Rightarrow> Inl err
      | None \<Rightarrow> Inr (watch_loop mk_withdraw_finalized C ''WithdrawFinalized'' steps))"

definition WatchWithdrawStarted ::
    "bound_contract \<Rightarrow> hash list \<Rightarrow> address list \<Rightarrow> address list \<Rightarrow> watch_step list \<Rightarrow>
     go_error + (i_withdraw_started list \<times> go_error option option)" where
  "WatchWithdrawStarted C withdrawalId user token steps =
     (let withdrawalIdRule = map ABytes32 withdrawalId;
          userRule = map AAddress user;
          tokenRule = map AAddress token in
      case WatchLogs C ''WithdrawStarted'' [withdrawalIdRule, userRule, tokenRule] of
        Some err \<Rightarrow> Inl err
      | None \<Rightarrow> Inr (watch_loop mk_withdraw_started C ''WithdrawStarted'' steps))"

definition WatchDeposited ::
    "bound_contract \<Rightarrow> address list \<Rightarrow> address list \<Rightarrow> watch_step list \<Rightarrow>
     go_error + (i_deposited list \<times> go_error option option)" where
  "WatchDeposited C user token steps =
     (let userRule = map AAddress user; tokenRule = map AAddress token in
      case WatchLogs C ''Deposited'' [userRule, tokenRule] of
        Some err \<Rightarrow> Inl err
      | None \<Rightarrow> Inr (watch_loop mk_deposited C ''Deposited'' steps))"

section \<open>Iterators and watchers deliver in order\<close>

text \<open>What a receive does to the iterator, whichever branch made it.\<close>

lemma iter_next_cases:
  assumes "iter_next mk p it = Some (b, it')"
  shows "(b \<and> (\<exists>log rest ev. it_logs it = log # rest \<and> it_logs it' = rest \<and>
       unpack_event mk (it_contract it) (it_event it) log = Inr ev \<and> it_Event it' = Some ev) \<or> \<not> b) \<and>
    it_contract it' = it_contract it \<and> it_event it' = it_event it"
  using assms
  by (auto simp: iter_next_def iter_take_def iter_drain_def Let_def
      split: if_splits list.splits option.splits sum.splits)

lemma iter_collect_prefix:
  "iter_collect mk ps it = (evs, it') \<Longrightarrow>
    \<exists>n \<le> length (it_logs it).
      map Inr evs = map (unpack_event mk (it_contract it) (it_event it)) (take n (it_logs it))"
proof (induction ps arbitrary: it evs it')
  case Nil
  then show ?case by (intro exI [of _ 0]) simp
next
  case (Cons p ps)
  show ?case
  proof (cases "iter_next mk p it")
    case None
    with Cons.prems have "evs = []" by simp
    then show ?thesis by (intro exI [of _ 0]) simp
  next
    case (Some r)
    obtain b it1 where r: "r = (b, it1)" by (cases r)
    note step = iter_next_cases [OF Some [unfolded r]]
    show ?thesis
    proof (cases b)
      case False
      with Cons.prems Some r have "evs = []" by simp
      then show ?thesis by (intro exI [of _ 0]) simp
    next
      case True
      then obtain log rest ev where it: "it_logs it = log # rest" "it_logs it1 = rest"
        "unpack_event mk (it_contract it) (it_event it) log = Inr ev" "it_Event it1 = Some ev"
        using step by auto
      obtain evs1 where rec: "iter_collect mk ps it1 = (evs1, it')" and evs: "evs = ev # evs1"
        using Cons.prems Some r True it(4) by (auto split: prod.splits)
      from Cons.IH [OF rec] step it obtain n where "n \<le> length rest"
        "map Inr evs1 = map (unpack_event mk (it_contract it) (it_event it)) (take n rest)"
        by auto
      then show ?thesis by (intro exI [of _ "Suc n"]) (simp add: it evs)
    qed
  qed
qed

text \<open>An iterator whose subscription ended well: every schedule drains the whole channel.\<close>

lemma iter_collect_all:
  assumes "\<forall>l \<in> set (it_logs it). \<exists>ev. unpack_event mk (it_contract it) (it_event it) l = Inr ev"
    and "it_sub it = Some None" "it_fail it = None" "length (it_logs it) < length ps"
  shows "\<exists>evs it'. iter_collect mk ps it = (evs, it') \<and> it_fail it' = None \<and> it_logs it' = [] \<and>
    map Inr evs = map (unpack_event mk (it_contract it) (it_event it)) (it_logs it)"
  using assms
proof (induction ps arbitrary: it)
  case (Cons p ps)
  show ?case
  proof (cases "it_logs it")
    case Nil
    then show ?thesis
      using Cons.prems by (auto simp: iter_next_def iter_drain_def Let_def)
  next
    case logs: (Cons log rest)
    then obtain ev where ev: "unpack_event mk (it_contract it) (it_event it) log = Inr ev"
      using Cons.prems(1) by auto
    have "\<exists>it1. iter_next mk p it = Some (True, it1) \<and> it_Event it1 = Some ev \<and>
        it_logs it1 = rest \<and> it_contract it1 = it_contract it \<and> it_event it1 = it_event it \<and>
        it_sub it1 = Some None \<and> it_fail it1 = None"
      using Cons.prems(2,3) logs ev
      by (cases "it_done it"; cases p) (simp_all add: iter_next_def iter_take_def iter_drain_def Let_def)
    then obtain it1 where nx: "iter_next mk p it = Some (True, it1)"
      and it1: "it_Event it1 = Some ev" "it_logs it1 = rest" "it_contract it1 = it_contract it"
        "it_event it1 = it_event it" "it_sub it1 = Some None" "it_fail it1 = None"
      by blast
    obtain evs it' where "iter_collect mk ps it1 = (evs, it')" "it_fail it' = None" "it_logs it' = []"
      "map Inr evs = map (unpack_event mk (it_contract it) (it_event it)) rest"
      using Cons.IH [of it1] Cons.prems(1,4) logs it1 by auto
    then show ?thesis using nx it1 logs ev by simp
  qed
qed simp

section \<open>Event structs as an interface\<close>

text \<open>
  What the iterators and watchers rely on: copying the fields of a decoded log into the event's
  struct keeps the log itself in \<open>Raw\<close>.
\<close>

locale event_struct =
  fixes mk :: "abi_arg list \<Rightarrow> eth_log \<Rightarrow> go_error + 'ev"
    and raw :: "'ev \<Rightarrow> eth_log"
  assumes raw_mk: "mk args l = Inr ev \<Longrightarrow> raw ev = l"
begin

lemma raw_unpack: "unpack_event mk C name l = Inr ev \<Longrightarrow> raw ev = l"
  by (auto simp: unpack_event_def raw_mk split: sum.splits)

lemma raws_unpack: "map Inr evs = map (unpack_event mk C name) ls \<Longrightarrow> map raw evs = ls"
proof (induction evs arbitrary: ls)
  case (Cons ev evs)
  then obtain l ls' where "ls = l # ls'" by (cases ls) auto
  with Cons show ?case by (auto intro: raw_unpack [OF sym])
qed simp

lemma iterator_raws:
  assumes "iter_collect mk ps (new_iterator C name (logs, sub)) = (evs, it')"
  shows "\<exists>n \<le> length logs. map raw evs = take n logs"
  using iter_collect_prefix [OF assms] raws_unpack by (fastforce simp: new_iterator_def)

lemma iterator_raws_all:
  assumes "\<forall>l \<in> set logs. \<not> isl (unpack_event mk C name l)" "length logs < length ps"
    and "iter_collect mk ps (new_iterator C name (logs, Some None)) = (evs, it')"
  shows "map raw evs = logs \<and> it_fail it' = None"
proof -
  have "\<exists>ev. unpack_event mk C name l = Inr ev" if "\<not> isl (unpack_event mk C name l)" for l
    using that by (cases "unpack_event mk C name l") auto
  with iter_collect_all [of "new_iterator C name (logs, Some None)" mk ps] assms raws_unpack
  show ?thesis by (fastforce simp: new_iterator_def)
qed

end

interpretation withdraw_finalized: event_struct mk_withdraw_finalized iwf_Raw
  by unfold_locales (auto simp: mk_withdraw_finalized_def split: list.splits abi_arg.splits)

interpretation withdraw_started: event_struct mk_withdraw_started iws_Raw
  by unfold_locales (auto simp: mk_withdraw_started_def split: list.splits abi_arg.splits)

interpretation deposited: event_struct mk_deposited idep_Raw
  by unfold_locales (auto simp: mk_deposited_def split: list.splits abi_arg.splits)

section \<open>Properties of the bindings\<close>

text \<open>
  C40: an iterator over filtered logs yields the decoded logs in their order without gaps: whatever
  case each \<open>select\<close> picks and however the subscription ends, what was yielded decodes a prefix of
  the logs; and when the subscription ends without error and every log decodes, calling \<open>Next\<close> until
  it returns false yields all of them and leaves no error, in every schedule.
\<close>

theorem iterator_yields_in_order:
  assumes "iter_collect mk ps (new_iterator C name (logs, sub)) = (evs, it')"
  shows "(\<exists>n \<le> length logs. map Inr evs = map (unpack_event mk C name) (take n logs)) \<and>
    (sub = Some None \<and> (\<forall>l \<in> set logs. \<not> isl (unpack_event mk C name l)) \<and> length logs < length ps \<longrightarrow>
       map Inr evs = map (unpack_event mk C name) logs \<and> it_fail it' = None)"
proof -
  let ?it = "new_iterator C name (logs, sub)"
  have it: "it_logs ?it = logs" "it_contract ?it = C" "it_event ?it = name" "it_sub ?it = sub"
    "it_fail ?it = None"
    by (simp_all add: new_iterator_def)
  have "\<exists>ev. unpack_event mk C name l = Inr ev" if "\<not> isl (unpack_event mk C name l)" for l
    using that by (cases "unpack_event mk C name l") auto
  then have "map Inr evs = map (unpack_event mk C name) logs \<and> it_fail it' = None"
    if "sub = Some None \<and> (\<forall>l \<in> set logs. \<not> isl (unpack_event mk C name l)) \<and> length logs < length ps"
    using iter_collect_all [of ?it mk ps, unfolded it] that assms by auto
  then show ?thesis
    using iter_collect_prefix [OF assms, unfolded it] by blast
qed

definition all_logs :: bound_contract where
  "all_logs =
     \<lparr>Call = (\<lambda>_ _ _. Inr []), Transact = (\<lambda>_ _ _. Inr \<lparr>tx_Hash = 5\<rparr>),
      PlainTransfer = (\<lambda>_. Inr \<lparr>tx_Hash = 5\<rparr>), FilterLogs = (\<lambda>_ _ _. Inr ([], Some None)),
      WatchLogs = (\<lambda>_ _. None), UnpackLog = (\<lambda>_ l. Inr [ABytes32 (log_TxHash l), ABool True])\<rparr>"

definition log_of :: "hash \<Rightarrow> eth_log" where
  "log_of tx =
     \<lparr>log_Address = 1, log_Topics = [], log_Data = '''', log_BlockNumber = 3, log_TxHash = tx,
      log_Index = 0\<rparr>"

lemma iterator_yields_in_order_witness:
  "map iwf_WithdrawalId (fst (iter_collect mk_withdraw_finalized [False, True, False]
     (new_iterator all_logs ''WithdrawFinalized'' ([log_of 1, log_of 2], Some None)))) = [1, 2]"
proof -
  obtain evs it' where run: "iter_collect mk_withdraw_finalized [False, True, False]
      (new_iterator all_logs ''WithdrawFinalized'' ([log_of 1, log_of 2], Some None)) = (evs, it')"
    by (cases "iter_collect mk_withdraw_finalized [False, True, False]
      (new_iterator all_logs ''WithdrawFinalized'' ([log_of 1, log_of 2], Some None))")
  from iterator_yields_in_order [OF run] have
    "map Inr evs = map (unpack_event mk_withdraw_finalized all_logs ''WithdrawFinalized'')
      [log_of 1, log_of 2]"
    by (simp add: unpack_event_def all_logs_def mk_withdraw_finalized_def)
  then have "map Inr evs = map (Inr :: _ \<Rightarrow> go_error + _)
      [\<lparr>iwf_WithdrawalId = 1, iwf_Success = True, iwf_Raw = log_of 1\<rparr>,
       \<lparr>iwf_WithdrawalId = 2, iwf_Success = True, iwf_Raw = log_of 2\<rparr>]"
    by (simp add: unpack_event_def all_logs_def mk_withdraw_finalized_def log_of_def)
  then show ?thesis using run by (auto simp: map_eq_Cons_conv)
qed

text \<open>The logs a watcher was offered before the first one it could not deliver.\<close>

fun offered :: "watch_step list \<Rightarrow> eth_log list" where
  "offered (WatchLog log Sent # steps) = log # offered steps"
| "offered (WatchLog log s # steps) = [log]"
| "offered _ = []"

text \<open>
  A watcher's sink receives the decoded logs in order without gaps, and the watcher ends with an
  error only for a log it cannot decode or an error it was given; a request to quit ends it with nil.
\<close>

theorem watcher_forwards_in_order:
  "case watch_loop mk C name steps of
     (evs, r) \<Rightarrow>
       (\<exists>n \<le> length (offered steps). map Inr evs = map (unpack_event mk C name) (take n (offered steps))) \<and>
       (\<forall>err. r = Some (Some err) \<longrightarrow>
          (\<exists>log s. WatchLog log s \<in> set steps \<and> unpack_event mk C name log = Inl err) \<or>
          WatchErr (Some err) \<in> set steps \<or> (\<exists>log. WatchLog log (SendErr (Some err)) \<in> set steps)) \<and>
       (r = None \<longrightarrow> length evs = length steps)"
proof (induction mk C name steps rule: watch_loop.induct)
  case (2 mk C name log send steps)
  obtain evs r where loop: "watch_loop mk C name steps = (evs, r)" by (cases "watch_loop mk C name steps")
  show ?case
  proof (cases "unpack_event mk C name log")
    case (Inl err)
    then show ?thesis by (auto intro!: exI [of _ 0])
  next
    case (Inr ev)
    show ?thesis
    proof (cases send)
      case Sent
      from 2 [OF Inr Sent] loop obtain n where "n \<le> length (offered steps)"
        "map Inr evs = map (unpack_event mk C name) (take n (offered steps))" by auto
      then have "\<exists>n \<le> length (offered (WatchLog log send # steps)). map Inr (ev # evs) =
          map (unpack_event mk C name) (take n (offered (WatchLog log send # steps)))"
        by (intro exI [of _ "Suc n"]) (simp add: Sent Inr)
      then show ?thesis using 2 [OF Inr Sent] loop by (auto simp: Inr Sent)
    qed (auto simp: Inr intro!: exI [of _ 0])
  qed
qed auto

lemma watcher_forwards_in_order_witness:
  "map iwf_WithdrawalId (fst (watch_loop mk_withdraw_finalized all_logs ''WithdrawFinalized''
     [WatchLog (log_of 1) Sent, WatchLog (log_of 2) SendQuit])) = [1]"
proof -
  obtain evs r where run: "watch_loop mk_withdraw_finalized all_logs ''WithdrawFinalized''
     [WatchLog (log_of 1) Sent, WatchLog (log_of 2) SendQuit] = (evs, r)"
    by (cases "watch_loop mk_withdraw_finalized all_logs ''WithdrawFinalized''
     [WatchLog (log_of 1) Sent, WatchLog (log_of 2) SendQuit]")
  then have "length evs = 1" by (auto simp: unpack_event_def all_logs_def mk_withdraw_finalized_def)
  moreover obtain n where "map Inr evs =
      map (unpack_event mk_withdraw_finalized all_logs ''WithdrawFinalized'') (take n [log_of 1, log_of 2])"
    using watcher_forwards_in_order [where mk = mk_withdraw_finalized and C = all_logs
        and name = "''WithdrawFinalized''"
        and steps = "[WatchLog (log_of 1) Sent, WatchLog (log_of 2) SendQuit]"] run by auto
  ultimately show ?thesis
    by (cases n; cases evs)
      (auto simp: unpack_event_def all_logs_def mk_withdraw_finalized_def log_of_def)
qed

end
