(* ===== verification/Reconcile.thy ===== *)
theory Reconcile
  imports Bindings
begin

text \<open>
  The historical half of \<open>custody/listener.go\<close>: \<open>waitForBackOffTimeout\<close>,
  \<open>extractAdvisedBlockRange\<close> and \<open>reconcileBlockRange\<close>, which fetches the logs between the last
  known position and the head in ranges of 10000 blocks. Block numbers are \<open>uint64\<close> words and the
  arithmetic on them wraps as in Go.
\<close>

section \<open>Backing off\<close>

definition maxBackOffCount :: int where "maxBackOffCount = 5"

text \<open>In Go \<open>^\<close> is exclusive or, and \<open>2^n-1\<close> is \<open>(2^n)-1\<close>; seconds.\<close>

definition backoff_seconds :: "int \<Rightarrow> int" where
  "backoff_seconds backOffCount = (2 XOR backOffCount) - 1"

text \<open>
  The result, and for how long the function sleeps if it does; \<open>ctx_done\<close>: the context is cancelled
  before the timer fires.
\<close>

definition waitForBackOffTimeout :: "bool \<Rightarrow> int \<Rightarrow> bool \<times> int option" where
  "waitForBackOffTimeout ctx_done backOffCount =
     (if backOffCount > maxBackOffCount then (True, None)
      else if backOffCount > 0 then
        (if ctx_done then (False, Some (backoff_seconds backOffCount))
         else (True, Some (backoff_seconds backOffCount)))
      else (True, None))"

lemma no_backoff [simp]: "waitForBackOffTimeout ctx_done 0 = (True, None)"
  by (simp add: waitForBackOffTimeout_def)

section \<open>Advised ranges\<close>

text \<open>
  The regular expression \<open>\[0x([0-9a-fA-F]+), 0x([0-9a-fA-F]+)\]\<close>: each group is a maximal run
  of hexadecimal digits, and the leftmost match counts.
\<close>

definition is_hex :: "char \<Rightarrow> bool" where
  "is_hex c \<longleftrightarrow> digit_val c \<noteq> None"

definition match_range :: "string \<Rightarrow> (string \<times> string) option" where
  "match_range s =
     (if prefix ''[0x'' s then
        (let r = drop 3 s; a = takeWhile is_hex r; r = dropWhile is_hex r in
         if a \<noteq> [] \<and> prefix '', 0x'' r then
           (let r = drop 4 r; b = takeWhile is_hex r; r = dropWhile is_hex r in
            if b \<noteq> [] \<and> prefix '']'' r then Some (a, b) else None)
         else None)
      else None)"

fun find_range :: "string \<Rightarrow> (string \<times> string) option" where
  "find_range [] = None"
| "find_range (c # s) =
     (case match_range (c # s) of Some m \<Rightarrow> Some m | None \<Rightarrow> find_range s)"

definition extractAdvisedBlockRange :: "string \<Rightarrow> go_error + (u64 \<times> u64)" where
  "extractAdvisedBlockRange msg =
     (if \<not> str_contains msg ''query returned more than 10000 results''
      then Inl (Opaque ''error message doesn't contain advised block range'')
      else case find_range msg of
             None \<Rightarrow> Inl (Opaque ''failed to extract block range from error message'')
           | Some (a, b) \<Rightarrow>
               (case parse_uint_hex a of
                  Inl err \<Rightarrow> Inl (Wrap ''failed to parse block range from error message: '' err '''')
                | Inr startBlock \<Rightarrow>
                    (case parse_uint_hex b of
                       Inl err \<Rightarrow> Inl (Wrap ''failed to parse block range from error message: '' err '''')
                     | Inr endBlock \<Rightarrow> Inr (startBlock, endBlock))))"

section \<open>Fetching the history\<close>

record filter_query =
  fq_Address :: address
  fq_FromBlock :: u64
  fq_ToBlock :: u64
  fq_Topics :: "hash list list"

text \<open>What the goroutine was started with.\<close>

record rec_params =
  rp_contract :: address
  rp_currentBlock :: u64
  rp_lastBlock :: u64
  rp_lastIndex :: u32
  rp_topics :: "hash list list"

record rec_state =
  startBlock :: u64
  endBlock :: u64
  backOff :: u64

text \<open>
  What one iteration of the loop meets: whether the context is cancelled at its start, or while it
  backs off, and the outcome of \<open>client.FilterLogs\<close> under \<open>debounce\<close> for a query.
\<close>

record rec_input =
  ri_ctx_err :: bool
  ri_backoff_done :: bool
  ri_fetch :: "filter_query \<Rightarrow> go_error + eth_log list"

datatype rec_status = Running | Finished | Cancelled

definition blockStep :: u64 where "blockStep = 10000"

definition known :: "rec_params \<Rightarrow> eth_log \<Rightarrow> bool" where
  "known P l \<longleftrightarrow> log_BlockNumber l = rp_lastBlock P \<and> log_Index l \<le> ucast (rp_lastIndex P)"

definition rec_query :: "rec_params \<Rightarrow> u64 \<Rightarrow> u64 \<Rightarrow> filter_query" where
  "rec_query P s e =
     \<lparr>fq_Address = rp_contract P, fq_FromBlock = s, fq_ToBlock = e, fq_Topics = rp_topics P\<rparr>"

definition clamped :: "rec_params \<Rightarrow> rec_state \<Rightarrow> u64" where
  "clamped P st =
     (if endBlock st > rp_currentBlock P then rp_currentBlock P else endBlock st)"

definition rec_iter ::
    "rec_params \<Rightarrow> rec_input \<Rightarrow> rec_state \<Rightarrow> rec_status \<times> rec_state \<times> eth_log list" where
  "rec_iter P i st =
     (if \<not> rp_currentBlock P > startBlock st then (Finished, st, [])
      else if ri_ctx_err i then (Cancelled, st, [])
      else if \<not> fst (waitForBackOffTimeout (ri_backoff_done i) (sint (backOff st)))
      then (Cancelled, st, [])
      else
        (let e = clamped P st; s = startBlock st in
         case ri_fetch i (rec_query P s e) of
           Inl err \<Rightarrow>
             if str_contains (err_msg err) ''Exceeded max range limit for eth_getLogs:''
             then (Running, st\<lparr>endBlock := e - (e - s) div 2\<rparr>, [])
             else (case extractAdvisedBlockRange (err_msg err) of
                     Inl _ \<Rightarrow> (Running, st\<lparr>endBlock := e, backOff := backOff st + 1\<rparr>, [])
                   | Inr (newStart, newEnd) \<Rightarrow>
                       (Running, st\<lparr>startBlock := newStart, endBlock := newEnd\<rparr>, []))
         | Inr logs \<Rightarrow>
             (Running, st\<lparr>startBlock := e + 1, endBlock := e + blockStep\<rparr>,
              filter (\<lambda>l. \<not> known P l) logs)))"

text \<open>
  The loop, over the inputs of its iterations; \<open>Running\<close> if they do not suffice. The result lists
  the logs sent to the channel.
\<close>

fun rec_loop ::
    "rec_params \<Rightarrow> rec_input list \<Rightarrow> rec_state \<Rightarrow> rec_status \<times> rec_state \<times> eth_log list" where
  "rec_loop P [] st = (Running, st, [])"
| "rec_loop P (i # is) st =
     (case rec_iter P i st of
        (Running, st', out) \<Rightarrow>
          (case rec_loop P is st' of (r, st'', out') \<Rightarrow> (r, st'', out @ out'))
      | (r, st', out) \<Rightarrow> (r, st', out))"

text \<open>How long each iteration sleeps before its request, if it does.\<close>

definition rec_wait :: "rec_params \<Rightarrow> rec_input \<Rightarrow> rec_state \<Rightarrow> int option" where
  "rec_wait P i st =
     (if \<not> rp_currentBlock P > startBlock st \<or> ri_ctx_err i then None
      else snd (waitForBackOffTimeout (ri_backoff_done i) (sint (backOff st))))"

fun rec_waits :: "rec_params \<Rightarrow> rec_input list \<Rightarrow> rec_state \<Rightarrow> int option list" where
  "rec_waits P [] st = []"
| "rec_waits P (i # is) st =
     rec_wait P i st # (case rec_iter P i st of (Running, st', out) \<Rightarrow> rec_waits P is st' | _ \<Rightarrow> [])"

definition rec_init :: "rec_params \<Rightarrow> rec_state" where
  "rec_init P =
     \<lparr>startBlock = rp_lastBlock P, endBlock = rp_lastBlock P + blockStep, backOff = 0\<rparr>"

definition reconcileBlockRange ::
    "rec_params \<Rightarrow> rec_input list \<Rightarrow> rec_status \<times> rec_state \<times> eth_log list" where
  "reconcileBlockRange P is = rec_loop P is (rec_init P)"

section \<open>Parsing an advised range\<close>

lemma is_hex_hex_u64: "\<forall>c \<in> set (hex_u64 w). is_hex c"
  by (auto simp: is_hex_def hex_u64_def dest: set_nat_str [of 16, simplified])

lemma takeWhile_hex_append:
  assumes "\<forall>c \<in> set a. is_hex c" "rest = [] \<or> \<not> is_hex (hd rest)"
  shows "takeWhile is_hex (a @ rest) = a" "dropWhile is_hex (a @ rest) = rest"
  using assms by (induction a) (auto simp: takeWhile_eq_Nil_iff dropWhile_eq_self_iff)

definition range_text :: "u64 \<Rightarrow> u64 \<Rightarrow> string" where
  "range_text a b = ''[0x'' @ hex_u64 a @ '', 0x'' @ hex_u64 b @ '']''"

lemma not_hex: "\<not> is_hex (CHR '','')" "\<not> is_hex (CHR '']'')" "\<not> is_hex (CHR ''['')"
  by (simp_all add: is_hex_def digit_val_def)

lemma hex_u64_not_Nil [simp]: "hex_u64 w \<noteq> []"
  by (simp add: hex_u64_def)

lemma match_range_text: "match_range (range_text a b @ rest) = Some (hex_u64 a, hex_u64 b)"
proof -
  have 1: "takeWhile is_hex (hex_u64 a @ '', 0x'' @ hex_u64 b @ '']'' @ rest) = hex_u64 a"
    "dropWhile is_hex (hex_u64 a @ '', 0x'' @ hex_u64 b @ '']'' @ rest) =
      '', 0x'' @ hex_u64 b @ '']'' @ rest"
    by (rule takeWhile_hex_append [OF is_hex_hex_u64]; simp add: not_hex)+
  have 2: "takeWhile is_hex (hex_u64 b @ '']'' @ rest) = hex_u64 b"
    "dropWhile is_hex (hex_u64 b @ '']'' @ rest) = '']'' @ rest"
    by (rule takeWhile_hex_append [OF is_hex_hex_u64]; simp add: not_hex)+
  show ?thesis
    using 1 2 by (simp add: match_range_def range_text_def)
qed

lemma find_range_text:
  "CHR ''['' \<notin> set pre \<Longrightarrow> find_range (pre @ range_text a b @ rest) = Some (hex_u64 a, hex_u64 b)"
proof (induction pre)
  case Nil
  obtain s where "range_text a b @ rest = CHR ''['' # s" by (simp add: range_text_def)
  with match_range_text [of a b rest] show ?case by simp
next
  case (Cons c pre)
  then have "match_range (c # pre @ range_text a b @ rest) = None"
    by (simp add: match_range_def)
  with Cons show ?case by simp
qed

end
