(* ===== verification/Reconcile_Correct.thy ===== *)
theory Reconcile_Correct
  imports Reconcile
begin

text \<open>
  What \<open>reconcileBlockRange\<close> delivers, against a node that holds a chain of matching logs: no gap
  and no log twice, whatever requests fail on the way; which block the loop ends at; and how the
  range shrinks when the node refuses it.
\<close>

section \<open>Words and filters\<close>

lemma unat_add_small: "unat (a :: u64) + unat b < 2 ^ 64 \<Longrightarrow> unat (a + b) = unat a + unat b"
  using unat_add_lem [of a b] by simp

lemma filter_range_append:
  fixes f :: "'a \<Rightarrow> u64"
  assumes "sorted (map f xs)" "a \<le> b" "b \<le> c"
  shows "filter (\<lambda>x. a \<le> f x \<and> f x < b \<and> P x) xs @ filter (\<lambda>x. b \<le> f x \<and> f x < c \<and> P x) xs =
    filter (\<lambda>x. a \<le> f x \<and> f x < c \<and> P x) xs"
  using assms(1)
proof (induction xs)
  case (Cons x xs)
  show ?case
  proof (cases "f x < b")
    case True
    then show ?thesis using Cons assms(3) by auto
  next
    case False
    then have "\<forall>y \<in> set (x # xs). b \<le> f y" using Cons.prems by auto
    then have "filter (\<lambda>x. a \<le> f x \<and> f x < b \<and> P x) (x # xs) = []"
      and "filter (\<lambda>x. b \<le> f x \<and> f x < c \<and> P x) (x # xs) =
        filter (\<lambda>x. a \<le> f x \<and> f x < c \<and> P x) (x # xs)"
      using assms(2) by (auto simp: filter_empty_conv intro!: filter_cong)
    then show ?thesis by (simp only: append_Nil)
  qed
qed simp

section \<open>The node\<close>

text \<open>
  \<open>chain\<close>: the logs of the contract with the topics, in the order of their blocks. A sound node may
  refuse any request; what it returns is complete for the range, and a range it advises starts where
  the refused one did and lies within it.
\<close>

definition answer :: "eth_log list \<Rightarrow> filter_query \<Rightarrow> eth_log list" where
  "answer chain q =
     filter (\<lambda>l. fq_FromBlock q \<le> log_BlockNumber l \<and> log_BlockNumber l \<le> fq_ToBlock q) chain"

definition sound_node :: "rec_params \<Rightarrow> eth_log list \<Rightarrow> rec_input \<Rightarrow> bool" where
  "sound_node P chain i \<longleftrightarrow>
     (\<forall>s e. case ri_fetch i (rec_query P s e) of
        Inr logs \<Rightarrow> logs = answer chain (rec_query P s e)
      | Inl err \<Rightarrow>
          (\<forall>a b. extractAdvisedBlockRange (err_msg err) = Inr (a, b) \<longrightarrow> a = s \<and> s \<le> b \<and> b \<le> e))"

definition answering_node :: "rec_params \<Rightarrow> eth_log list \<Rightarrow> rec_input \<Rightarrow> bool" where
  "answering_node P chain i \<longleftrightarrow> \<not> ri_ctx_err i \<and>
     (\<forall>s e. ri_fetch i (rec_query P s e) = Inr (answer chain (rec_query P s e)))"

lemma answering_sound: "answering_node P chain i \<Longrightarrow> sound_node P chain i"
  by (simp add: answering_node_def sound_node_def)

text \<open>Block numbers far enough from the end of \<open>uint64\<close> for the steps not to wrap.\<close>

definition no_wrap :: "rec_params \<Rightarrow> bool" where
  "no_wrap P \<longleftrightarrow> unat (rp_currentBlock P) + 10001 < 2 ^ 64"

definition rec_inv :: "rec_params \<Rightarrow> rec_state \<Rightarrow> bool" where
  "rec_inv P st \<longleftrightarrow> rp_lastBlock P \<le> startBlock st \<and>
     (startBlock st < rp_currentBlock P \<longrightarrow> startBlock st \<le> endBlock st)"

definition delivered :: "rec_params \<Rightarrow> eth_log list \<Rightarrow> u64 \<Rightarrow> u64 \<Rightarrow> eth_log list" where
  "delivered P chain s t =
     filter (\<lambda>l. s \<le> log_BlockNumber l \<and> log_BlockNumber l < t \<and> \<not> known P l) chain"

lemma delivered_append:
  "sorted (map log_BlockNumber chain) \<Longrightarrow> a \<le> b \<Longrightarrow> b \<le> c \<Longrightarrow>
    delivered P chain a b @ delivered P chain b c = delivered P chain a c"
  unfolding delivered_def by (rule filter_range_append)

lemma delivered_same [simp]: "delivered P chain s s = []"
  by (auto simp: delivered_def filter_empty_conv)

section \<open>One iteration\<close>

lemma blockStep_unat [simp]: "unat blockStep = 10000"
  by (simp add: blockStep_def)

lemma range_end:
  assumes "no_wrap P" "rec_inv P st" "startBlock st < rp_currentBlock P"
  defines "e \<equiv> clamped P st"
  shows "startBlock st \<le> e" "e \<le> rp_currentBlock P" "unat (e + 1) = unat e + 1"
    "unat (e + blockStep) = unat e + 10000"
proof -
  show "startBlock st \<le> e"
    using assms(2,3) by (simp add: e_def clamped_def rec_inv_def less_imp_le)
  show le: "e \<le> rp_currentBlock P"
    by (auto simp: e_def clamped_def)
  then have "unat e + 10001 < 2 ^ 64"
    using assms(1) by (simp add: no_wrap_def word_le_nat_alt)
  then show "unat (e + 1) = unat e + 1" "unat (e + blockStep) = unat e + 10000"
    by (simp_all add: unat_add_small)
qed

lemma fetched_range:
  assumes "unat (e + 1) = unat e + 1"
  shows "filter (\<lambda>l. \<not> known P l) (answer chain (rec_query P s e)) = delivered P chain s (e + 1)"
proof -
  have le: "x \<le> e \<longleftrightarrow> x < e + 1" for x :: u64
    by (simp add: word_le_nat_alt word_less_nat_alt assms less_Suc_eq_le)
  show ?thesis
    unfolding answer_def delivered_def rec_query_def filter_filter filter_query.simps le conj_assoc ..
qed

lemma halved:
  assumes "s \<le> (e :: u64)"
  shows "unat (e - (e - s) div 2) = unat e - (unat e - unat s) div 2" "s \<le> e - (e - s) div 2"
proof -
  have d: "unat ((e - s) div 2) = (unat e - unat s) div 2"
    using assms by (simp add: unat_div unat_sub)
  then have "(e - s) div 2 \<le> e"
    using assms by (simp add: word_le_nat_alt)
  then show u: "unat (e - (e - s) div 2) = unat e - (unat e - unat s) div 2"
    by (simp add: unat_sub d)
  show "s \<le> e - (e - s) div 2"
    unfolding word_le_nat_alt u using assms by (simp add: word_le_nat_alt)
qed

lemma range_bounds:
  assumes "s \<le> (e :: u64)" "unat (e + 1) = unat e + 1" "unat (e + blockStep) = unat e + 10000" "l \<le> s"
  shows "s \<le> e + 1" "e + 1 \<le> e + blockStep" "l \<le> e + 1"
proof -
  show "s \<le> e + 1" using assms(1,2) unfolding word_le_nat_alt by linarith
  show "e + 1 \<le> e + blockStep" unfolding word_le_nat_alt assms(2,3) by simp
  show "l \<le> e + 1" using assms(1,2,4) unfolding word_le_nat_alt by linarith
qed

lemma rec_iter_inv:
  assumes P: "no_wrap P" "sound_node P chain i" and inv: "rec_inv P st"
    and iter: "rec_iter P i st = (r, st', out)"
  shows "rec_inv P st' \<and> startBlock st \<le> startBlock st' \<and>
    out = delivered P chain (startBlock st) (startBlock st') \<and>
    (r = Finished \<longrightarrow> rp_currentBlock P \<le> startBlock st')"
proof (cases "startBlock st < rp_currentBlock P \<and> \<not> ri_ctx_err i \<and>
    fst (waitForBackOffTimeout (ri_backoff_done i) (sint (backOff st)))")
  case False
  with iter inv show ?thesis by (auto simp: rec_iter_def split: if_splits)
next
  case True
  let ?e = "clamped P st"
  let ?s = "startBlock st"
  note e = range_end [OF P(1) inv conjunct1 [OF True]]
  have last: "rp_lastBlock P \<le> ?s" using inv by (simp add: rec_inv_def)
  show ?thesis
  proof (cases "ri_fetch i (rec_query P ?s ?e)")
    case (Inr logs)
    then have "logs = answer chain (rec_query P ?s ?e)"
      using P(2) unfolding sound_node_def by (metis (mono_tags, lifting) sum.case(2))
    then have "st' = st\<lparr>startBlock := ?e + 1, endBlock := ?e + blockStep\<rparr> \<and> r = Running \<and>
        out = delivered P chain ?s (?e + 1)"
      using iter True Inr fetched_range [OF e(3)] by (simp add: rec_iter_def Let_def)
    then show ?thesis
      using range_bounds [OF e(1,3,4) last] by (simp add: rec_inv_def)
  next
    case (Inl err)
    then have adv: "a = ?s \<and> ?s \<le> b"
      if "extractAdvisedBlockRange (err_msg err) = Inr (a, b)" for a b
      using P(2) that unfolding sound_node_def by (metis (mono_tags, lifting) sum.case(1))
    have "out = [] \<and> startBlock st' = ?s \<and> r = Running \<and> ?s \<le> endBlock st'"
    proof (cases "str_contains (err_msg err) ''Exceeded max range limit for eth_getLogs:''")
      case exceeded: True
      have "st' = st\<lparr>endBlock := ?e - (?e - ?s) div 2\<rparr> \<and> r = Running \<and> out = []"
        using iter True Inl exceeded by (simp add: rec_iter_def Let_def)
      with halved(2) [OF e(1)] show ?thesis by simp
    next
      case plain: False
      show ?thesis
      proof (cases "extractAdvisedBlockRange (err_msg err)")
        case (Inl x)
        have "st' = st\<lparr>endBlock := ?e, backOff := backOff st + 1\<rparr> \<and> r = Running \<and> out = []"
          using iter True \<open>ri_fetch i (rec_query P ?s ?e) = Inl err\<close> plain Inl
          by (simp add: rec_iter_def Let_def)
        with e(1) show ?thesis by simp
      next
        case (Inr ab)
        obtain a b where ab: "ab = (a, b)" by (cases ab)
        have "st' = st\<lparr>startBlock := a, endBlock := b\<rparr> \<and> r = Running \<and> out = []"
          using iter True \<open>ri_fetch i (rec_query P ?s ?e) = Inl err\<close> plain Inr ab
          by (simp add: rec_iter_def Let_def)
        with adv Inr ab show ?thesis by simp
      qed
    qed
    then show ?thesis using last by (simp add: rec_inv_def)
  qed
qed

section \<open>The loop\<close>

lemma rec_loop_inv:
  assumes "no_wrap P" "\<forall>i \<in> set is. sound_node P chain i" "sorted (map log_BlockNumber chain)"
    and "rec_inv P st" "rec_loop P is st = (r, st', out)"
  shows "rec_inv P st' \<and> startBlock st \<le> startBlock st' \<and>
    out = delivered P chain (startBlock st) (startBlock st') \<and>
    (r = Finished \<longrightarrow> rp_currentBlock P \<le> startBlock st')"
  using assms(2,4,5)
proof (induction "is" arbitrary: st r st' out)
  case (Cons i "is")
  obtain r1 st1 out1 where iter: "rec_iter P i st = (r1, st1, out1)" by (cases "rec_iter P i st")
  note step = rec_iter_inv [OF assms(1) _ Cons.prems(2) iter, of chain]
  show ?case
  proof (cases "r1 = Running")
    case False
    with Cons.prems(3) iter have "r = r1 \<and> st' = st1 \<and> out = out1" by (cases r1) auto
    with step Cons.prems(1) show ?thesis by simp
  next
    case True
    obtain out2 where loop: "rec_loop P is st1 = (r, st', out2)" and out: "out = out1 @ out2"
      using Cons.prems(3) iter True by (auto split: prod.splits)
    from step Cons.prems(1) have "rec_inv P st1" by simp
    from Cons.IH [OF _ this loop] step Cons.prems(1) show ?thesis
      using delivered_append [OF assms(3)] by (auto simp: out intro: order_trans)
  qed
qed simp

lemma rec_init_inv: "no_wrap P \<Longrightarrow> rec_inv P (rec_init P)"
proof -
  assume P: "no_wrap P"
  have "rp_lastBlock P \<le> rp_lastBlock P + blockStep" if "rp_lastBlock P < rp_currentBlock P"
  proof -
    have "unat (rp_lastBlock P) + unat blockStep < 2 ^ 64"
      using P that by (simp add: no_wrap_def word_less_nat_alt)
    from unat_add_small [OF this] show ?thesis by (simp add: word_le_nat_alt)
  qed
  then show ?thesis by (simp add: rec_inv_def rec_init_def)
qed

lemma reconcile_delivers:
  assumes "no_wrap P" "\<forall>i \<in> set is. sound_node P chain i" "sorted (map log_BlockNumber chain)"
    and "reconcileBlockRange P is = (r, st', out)"
  shows "out = delivered P chain (rp_lastBlock P) (startBlock st')"
    and "rp_lastBlock P \<le> startBlock st'"
    and "r = Finished \<Longrightarrow> rp_currentBlock P \<le> startBlock st'"
  using rec_loop_inv [OF assms(1-3) rec_init_inv [OF assms(1)], of r st' out] assms(4)
  by (auto simp: reconcileBlockRange_def rec_init_def)

section \<open>Where the loop ends\<close>

lemma rec_iter_answering:
  assumes "no_wrap P" "answering_node P chain i" "rec_inv P st"
    and "startBlock st < rp_currentBlock P" "backOff st = 0"
  defines "e \<equiv> clamped P st"
  shows "\<exists>out. rec_iter P i st = (Running, st\<lparr>startBlock := e + 1, endBlock := e + blockStep\<rparr>, out)"
  using assms by (simp add: rec_iter_def answering_node_def waitForBackOffTimeout_def Let_def)

text \<open>
  From a state whose range has 10000 blocks, as after every successful fetch: the loop skips the head
  when the head is the first block of a range.
\<close>

lemma rec_loop_end:
  assumes "no_wrap P" "\<forall>i \<in> set is. answering_node P chain i" "rec_inv P st" "backOff st = 0"
    and "unat (startBlock st) \<le> unat (rp_currentBlock P) + 1"
    and "unat (endBlock st) = unat (startBlock st) + 9999"
    and "(unat (rp_currentBlock P) + 10000 - unat (startBlock st)) div 10000 < length is"
  shows "\<exists>st' out. rec_loop P is st = (Finished, st', out) \<and>
    unat (startBlock st') =
      (if 10000 dvd (unat (rp_currentBlock P) - unat (startBlock st)) \<and>
          startBlock st \<le> rp_currentBlock P
       then unat (rp_currentBlock P) else unat (rp_currentBlock P) + 1)"
  using assms(2-7)
proof (induction "is" arbitrary: st)
  case (Cons i "is")
  let ?c = "unat (rp_currentBlock P)"
  let ?s = "unat (startBlock st)"
  show ?case
  proof (cases "startBlock st < rp_currentBlock P")
    case False
    then have "?s = ?c \<or> ?s = ?c + 1"
      using Cons.prems(4) by (auto simp: word_less_nat_alt)
    then show ?thesis
      using False by (auto simp: rec_iter_def word_le_nat_alt)
  next
    case True
    let ?e = "clamped P st"
    let ?st = "st\<lparr>startBlock := ?e + 1, endBlock := ?e + blockStep\<rparr>"
    have ans: "answering_node P chain i" using Cons.prems(1) by simp
    obtain out1 where iter: "rec_iter P i st = (Running, ?st, out1)"
      using rec_iter_answering [OF assms(1) ans Cons.prems(2) True Cons.prems(3)] by blast
    have inv: "rec_inv P ?st"
      using rec_iter_inv [OF assms(1) answering_sound [OF ans] Cons.prems(2) iter] by blast
    note e = range_end [OF assms(1) Cons.prems(2) True]
    have eu: "unat ?e = min ?c (?s + 9999)"
      using Cons.prems(5) by (auto simp: clamped_def word_less_nat_alt)
    have lt: "?s < ?c" using True by (simp add: word_less_nat_alt)
    have s': "unat (startBlock ?st) = unat ?e + 1" using e(3) by simp
    have e': "unat (endBlock ?st) = unat (startBlock ?st) + 9999" using e(3,4) by simp
    have "(?c + 10000 - unat (startBlock ?st)) div 10000 < length is"
    proof (cases "?s + 9999 < ?c")
      case True
      then have "?c + 10000 - ?s = (?c + 10000 - unat (startBlock ?st)) + 10000"
        unfolding s' eu by simp
      then have "(?c + 10000 - ?s) div 10000 = (?c + 10000 - unat (startBlock ?st)) div 10000 + 1"
        by simp
      then show ?thesis using Cons.prems(6) by simp
    next
      case False
      then have "unat (startBlock ?st) = ?c + 1" unfolding s' eu by simp
      moreover have "1 \<le> (?c + 10000 - ?s) div 10000" using lt by simp
      ultimately have "0 < length is" using Cons.prems(6) unfolding list.size by linarith
      with \<open>unat (startBlock ?st) = ?c + 1\<close> show ?thesis by simp
    qed
    moreover have "unat (startBlock ?st) \<le> ?c + 1" unfolding s' eu by simp
    ultimately obtain st' out where loop: "rec_loop P is ?st = (Finished, st', out)"
      and final: "unat (startBlock st') =
        (if 10000 dvd (?c - unat (startBlock ?st)) \<and> startBlock ?st \<le> rp_currentBlock P
         then ?c else ?c + 1)"
      using Cons.IH [OF _ inv _ _ e'] Cons.prems(1,3) by auto
    have "10000 dvd (?c - unat (startBlock ?st)) \<and> startBlock ?st \<le> rp_currentBlock P \<longleftrightarrow>
        10000 dvd (?c - ?s) \<and> startBlock st \<le> rp_currentBlock P"
    proof (cases "?s + 9999 < ?c")
      case big: True
      then have "?c - ?s = (?c - unat (startBlock ?st)) + 10000"
        unfolding s' eu by simp
      moreover have "startBlock ?st \<le> rp_currentBlock P"
        unfolding word_le_nat_alt s' eu using big by simp
      moreover have "startBlock st \<le> rp_currentBlock P" using True by (rule less_imp_le)
      ultimately show ?thesis by simp
    next
      case False
      then have "\<not> startBlock ?st \<le> rp_currentBlock P"
        unfolding word_le_nat_alt s' eu by simp
      moreover have "\<not> 10000 dvd (?c - ?s)"
        using False lt by (auto dest: dvd_imp_le)
      ultimately show ?thesis by simp
    qed
    with final loop iter show ?thesis by (simp del: dvd_diff_nat)
  qed
qed simp

text \<open>
  The first range has 10001 blocks, every later one 10000. The head is not fetched when it is the first
  block of a range.
\<close>

definition skips_head :: "rec_params \<Rightarrow> bool" where
  "skips_head P \<longleftrightarrow>
     (let n = unat (rp_currentBlock P) - unat (rp_lastBlock P) in
      n = 0 \<or> 10000 < n \<and> 10000 dvd n - 1)"

lemma reconcile_end:
  assumes "no_wrap P" "rp_lastBlock P \<le> rp_currentBlock P" "\<forall>i \<in> set is. answering_node P chain i"
    and "(unat (rp_currentBlock P) - unat (rp_lastBlock P)) div 10000 + 2 < length is"
  shows "\<exists>st' out. reconcileBlockRange P is = (Finished, st', out) \<and>
    unat (startBlock st') = unat (rp_currentBlock P) + (if skips_head P then 0 else 1)"
proof (cases "rp_lastBlock P < rp_currentBlock P")
  case False
  with assms(2) have "rp_lastBlock P = rp_currentBlock P" by simp
  moreover obtain i js where "is = i # js" using assms(4) by (cases "is") auto
  ultimately show ?thesis
    by (simp add: reconcileBlockRange_def rec_init_def rec_iter_def skips_head_def)
next
  case True
  let ?c = "unat (rp_currentBlock P)" and ?l = "unat (rp_lastBlock P)"
  let ?e = "clamped P (rec_init P)"
  let ?st = "(rec_init P)\<lparr>startBlock := ?e + 1, endBlock := ?e + blockStep\<rparr>"
  obtain i js where cons: "is = i # js" using assms(4) by (cases "is") auto
  then have ans: "answering_node P chain i" using assms(3) by simp
  have s0: "startBlock (rec_init P) = rp_lastBlock P" and b0: "backOff (rec_init P) = 0"
    by (simp_all add: rec_init_def)
  then have lt: "startBlock (rec_init P) < rp_currentBlock P" using True by simp
  note inv0 = rec_init_inv [OF assms(1)]
  obtain out1 where iter: "rec_iter P i (rec_init P) = (Running, ?st, out1)"
    using rec_iter_answering [OF assms(1) ans inv0 lt b0] by blast
  have inv: "rec_inv P ?st"
    using rec_iter_inv [OF assms(1) answering_sound [OF ans] inv0 iter] by blast
  note e = range_end [OF assms(1) inv0 lt]
  have l: "?l < ?c" using True by (simp add: word_less_nat_alt)
  have "unat (rp_lastBlock P + blockStep) = ?l + 10000"
    using unat_add_small [of "rp_lastBlock P" blockStep] assms(1) l by (simp add: no_wrap_def)
  then have eu: "unat ?e = min ?c (?l + 10000)"
    by (auto simp: clamped_def rec_init_def word_less_nat_alt)
  have s': "unat (startBlock ?st) = unat ?e + 1" using e(3) by simp
  have e': "unat (endBlock ?st) = unat (startBlock ?st) + 9999" using e(3,4) by simp
  have "unat (startBlock ?st) \<le> ?c + 1" unfolding s' eu by simp
  moreover have "(?c + 10000 - unat (startBlock ?st)) div 10000 < length js"
  proof -
    have "?c + 10000 - unat (startBlock ?st) \<le> (?c - ?l) + 10000"
      unfolding s' eu using l by simp
    then have "(?c + 10000 - unat (startBlock ?st)) div 10000 \<le> ((?c - ?l) + 10000) div 10000"
      by (rule div_le_mono)
    then show ?thesis using assms(4) cons by simp
  qed
  moreover have "\<forall>i \<in> set js. answering_node P chain i" "backOff ?st = 0"
    using assms(3) cons b0 by simp_all
  ultimately obtain st' out where loop: "rec_loop P js ?st = (Finished, st', out)"
    and final: "unat (startBlock st') =
      (if 10000 dvd (?c - unat (startBlock ?st)) \<and> startBlock ?st \<le> rp_currentBlock P
       then ?c else ?c + 1)"
    using rec_loop_end [OF assms(1) _ inv _ _ e', of js] by blast
  have "10000 dvd (?c - unat (startBlock ?st)) \<and> startBlock ?st \<le> rp_currentBlock P \<longleftrightarrow>
      skips_head P"
  proof (cases "?l + 10000 < ?c")
    case big: True
    then have "?c - ?l - 1 = (?c - unat (startBlock ?st)) + 10000"
      unfolding s' eu by simp
    moreover have "startBlock ?st \<le> rp_currentBlock P"
      unfolding word_le_nat_alt s' eu using big by simp
    moreover have "10000 < ?c - ?l" using big by simp
    moreover have "\<not> ?c \<le> ?l" using l by simp
    ultimately show ?thesis by (simp add: skips_head_def Let_def)
  next
    case small: False
    then have "\<not> startBlock ?st \<le> rp_currentBlock P"
      unfolding word_le_nat_alt s' eu by simp
    then show ?thesis using small l by (simp add: skips_head_def Let_def)
  qed
  with final loop iter cons show ?thesis by (simp add: reconcileBlockRange_def)
qed

lemma answering_delivers:
  assumes "no_wrap P" "rp_lastBlock P \<le> rp_currentBlock P" "\<forall>i \<in> set is. answering_node P chain i"
    and "sorted (map log_BlockNumber chain)"
    and "(unat (rp_currentBlock P) - unat (rp_lastBlock P)) div 10000 + 2 < length is"
  shows "\<exists>st'. reconcileBlockRange P is =
    (Finished, st', delivered P chain (rp_lastBlock P)
       (if skips_head P then rp_currentBlock P else rp_currentBlock P + 1))"
proof -
  obtain st' out where run: "reconcileBlockRange P is = (Finished, st', out)"
    and u: "unat (startBlock st') = unat (rp_currentBlock P) + (if skips_head P then 0 else 1)"
    using reconcile_end [OF assms(1-3,5)] by blast
  have "unat (rp_currentBlock P + 1) = unat (rp_currentBlock P) + 1"
    using unat_add_small [of "rp_currentBlock P" 1] assms(1) by (simp add: no_wrap_def)
  then have "startBlock st' = (if skips_head P then rp_currentBlock P else rp_currentBlock P + 1)"
    using u by (simp add: word_unat_eq_iff)
  moreover have "\<forall>i \<in> set is. sound_node P chain i"
    using assms(3) answering_sound by blast
  ultimately show ?thesis
    using reconcile_delivers(1) [OF assms(1) _ assms(4) run] run by simp
qed

section \<open>Ranges the node refuses\<close>

definition refuses_range :: "rec_params \<Rightarrow> rec_state \<Rightarrow> rec_input \<Rightarrow> bool" where
  "refuses_range P st i \<longleftrightarrow> \<not> ri_ctx_err i \<and>
     (case ri_fetch i (rec_query P (startBlock st) (clamped P st)) of
        Inl err \<Rightarrow> str_contains (err_msg err) ''Exceeded max range limit for eth_getLogs:''
      | Inr _ \<Rightarrow> False)"

lemma rec_iter_refused:
  assumes "startBlock st < rp_currentBlock P" "backOff st = 0" "refuses_range P st i"
  shows "rec_iter P i st = (Running,
    st\<lparr>endBlock := clamped P st - (clamped P st - startBlock st) div 2\<rparr>, [])"
  using assms
  by (auto simp: rec_iter_def refuses_range_def Let_def waitForBackOffTimeout_def split: sum.splits)

lemma two_block_fixpoint:
  assumes "endBlock st = startBlock st + 1" "startBlock st < rp_currentBlock P"
  shows "clamped P st = endBlock st" "clamped P st - (clamped P st - startBlock st) div 2 = endBlock st"
proof -
  have "endBlock st \<le> rp_currentBlock P"
    unfolding assms(1) by (rule inc_le [OF assms(2)])
  then show c: "clamped P st = endBlock st" by (auto simp: clamped_def)
  show "clamped P st - (clamped P st - startBlock st) div 2 = endBlock st"
    unfolding c by (simp add: assms(1))
qed

section \<open>Samples\<close>

definition sample_log :: "u64 \<Rightarrow> u64 \<Rightarrow> eth_log" where
  "sample_log block index =
     \<lparr>log_Address = 1, log_Topics = [7], log_Data = '''', log_BlockNumber = block, log_TxHash = 9,
      log_Index = index\<rparr>"

definition sample_params :: "u64 \<Rightarrow> u64 \<Rightarrow> u32 \<Rightarrow> rec_params" where
  "sample_params current prev index =
     \<lparr>rp_contract = 1, rp_currentBlock = current, rp_lastBlock = prev, rp_lastIndex = index,
      rp_topics = [[7]]\<rparr>"

definition sample_input :: "(filter_query \<Rightarrow> go_error + eth_log list) \<Rightarrow> rec_input" where
  "sample_input fetch = \<lparr>ri_ctx_err = False, ri_backoff_done = False, ri_fetch = fetch\<rparr>"

lemma sample_answering [simp]: "answering_node P chain (sample_input (\<lambda>q. Inr (answer chain q)))"
  by (simp add: answering_node_def sample_input_def)

lemma sample_no_wrap [simp]:
  "no_wrap (sample_params current prev index) \<longleftrightarrow> unat current + 10001 < 2 ^ 64"
  by (simp add: no_wrap_def sample_params_def)

section \<open>Properties\<close>

text \<open>
  C20: against a node that may refuse any request in any way but answers completely when it answers,
  the goroutine sends exactly the logs of the blocks from the last known one up to the block it has
  reached, without those already known, in order, none twice; if it finishes it has reached the head.
\<close>

theorem reconcile_no_gaps:
  assumes "no_wrap P" "\<forall>i \<in> set is. sound_node P chain i" "sorted (map log_BlockNumber chain)"
    and "reconcileBlockRange P is = (r, st', out)"
  shows "out = delivered P chain (rp_lastBlock P) (startBlock st') \<and>
    rp_lastBlock P \<le> startBlock st' \<and>
    (r = Finished \<longrightarrow> rp_currentBlock P \<le> startBlock st')"
  using reconcile_delivers [OF assms] by blast

definition refusing_input :: rec_input where
  "refusing_input = sample_input (\<lambda>q. Inl (Opaque ''Exceeded max range limit for eth_getLogs: 1''))"

lemma refusing_sound: "sound_node P chain refusing_input"
  by (simp add: sound_node_def refusing_input_def sample_input_def err_msg.simps
      extractAdvisedBlockRange_def)

lemma reconcile_no_gaps_witness:
  "\<exists>st'. reconcileBlockRange (sample_params 12 10 0)
      [refusing_input, sample_input (\<lambda>q. Inr (answer [sample_log 11 3] q))] =
      (Running, st', [sample_log 11 3]) \<and>
    [sample_log 11 3] = delivered (sample_params 12 10 0) [sample_log 11 3] 10 (startBlock st')"
proof -
  let ?is = "[refusing_input, sample_input (\<lambda>q. Inr (answer [sample_log 11 3] q))]"
  have run: "\<exists>st'. reconcileBlockRange (sample_params 12 10 0) ?is =
      (Running, st', [sample_log 11 3])"
    by (simp add: reconcileBlockRange_def rec_init_def rec_iter_def clamped_def sample_params_def
        refusing_input_def sample_input_def sample_log_def blockStep_def waitForBackOffTimeout_def
        err_msg.simps answer_def rec_query_def known_def Let_def)
  then obtain st' where st': "reconcileBlockRange (sample_params 12 10 0) ?is =
      (Running, st', [sample_log 11 3])" by blast
  have "\<forall>i \<in> set ?is. sound_node (sample_params 12 10 0) [sample_log 11 3] i"
    using refusing_sound answering_sound [OF sample_answering] by simp
  then have "[sample_log 11 3] = delivered (sample_params 12 10 0) [sample_log 11 3]
      (rp_lastBlock (sample_params 12 10 0)) (startBlock st')"
    using reconcile_no_gaps [OF _ _ _ st', of "[sample_log 11 3]"] by simp
  then show ?thesis using st' by (auto simp: sample_params_def)
qed

text \<open>
  C21: against a node that answers every request, enough iterations end the loop and deliver
  everything from the last known block up to the head, the head itself excepted exactly when it is
  the first block of a range: when the head has not moved, or lies 10001, 20001, ... blocks on.
\<close>

theorem reconcile_reaches_head:
  assumes "no_wrap P" "rp_lastBlock P \<le> rp_currentBlock P" "\<forall>i \<in> set is. answering_node P chain i"
    and "sorted (map log_BlockNumber chain)"
    and "(unat (rp_currentBlock P) - unat (rp_lastBlock P)) div 10000 + 2 < length is"
  shows "\<exists>st'. reconcileBlockRange P is =
    (Finished, st', delivered P chain (rp_lastBlock P)
       (if skips_head P then rp_currentBlock P else rp_currentBlock P + 1))"
  by (rule answering_delivers [OF assms])

text \<open>The witness is a log in the head block that is lost: the head has not moved since the cursor.\<close>

lemma reconcile_reaches_head_witness:
  "\<exists>st'. reconcileBlockRange (sample_params 10 10 0)
      (replicate 3 (sample_input (\<lambda>q. Inr (answer [sample_log 10 3] q)))) = (Finished, st', [])"
  using reconcile_reaches_head [of "sample_params 10 10 0"
      "replicate 3 (sample_input (\<lambda>q. Inr (answer [sample_log 10 3] q)))" "[sample_log 10 3]"]
  by (simp add: sample_params_def skips_head_def delivered_def sample_log_def no_wrap_def)

text \<open>
  C36: when the node reports its range limit, the range is halved from its end. That makes progress
  only for ranges of three blocks or more: a range of two blocks stays as it is, and the loop asks for
  it again without ever backing off, however often the node refuses.
\<close>

theorem two_block_range_stuck:
  assumes "startBlock st < rp_currentBlock P" "endBlock st = startBlock st + 1" "backOff st = 0"
    and "\<forall>i \<in> set is. refuses_range P st i"
  shows "rec_loop P is st = (Running, st, [])"
  using assms(4)
proof (induction "is")
  case (Cons i "is")
  have "rec_iter P i st = (Running, st, [])"
    using rec_iter_refused [OF assms(1,3), of i] two_block_fixpoint(2) [OF assms(2,1)] Cons.prems
    by simp
  with Cons show ?case by simp
qed simp

lemma two_block_range_stuck_witness:
  "\<exists>st. startBlock st = 10 \<and> rec_loop (sample_params 20 10 0) (replicate 1000 refusing_input) st =
    (Running, st, [])"
proof -
  let ?st = "\<lparr>startBlock = 10, endBlock = 11, backOff = 0\<rparr> :: rec_state"
  have "refuses_range (sample_params 20 10 0) ?st refusing_input"
    by (simp add: refuses_range_def refusing_input_def sample_input_def err_msg.simps)
  then have "rec_loop (sample_params 20 10 0) (replicate 1000 refusing_input) ?st = (Running, ?st, [])"
    by (intro two_block_range_stuck) (simp_all add: sample_params_def)
  then show ?thesis by (intro exI [of _ ?st]) simp
qed

text \<open>
  C38: the range a node advises is read back exactly, for every pair of 64-bit numbers and after any
  text without a square bracket.
\<close>

theorem advised_range_roundtrip:
  assumes "str_contains (pre @ range_text a b @ post) ''query returned more than 10000 results''"
    and "CHR ''['' \<notin> set pre"
  shows "extractAdvisedBlockRange (pre @ range_text a b @ post) = Inr (a, b)"
  using assms by (simp add: extractAdvisedBlockRange_def find_range_text)

lemma advised_range_roundtrip_witness:
  "extractAdvisedBlockRange
     (''query returned more than 10000 results. Try with this block range '' @
      range_text 0x10 0xFF @ ''.'') = Inr (0x10, 0xFF)"
  by (rule advised_range_roundtrip) (simp_all)

text \<open>
  A request that fails with an error the code can make nothing of: no range limit and no advice.
\<close>

definition plain_error :: "go_error \<Rightarrow> bool" where
  "plain_error err \<longleftrightarrow>
     \<not> str_contains (err_msg err) ''Exceeded max range limit for eth_getLogs:'' \<and>
     isl (extractAdvisedBlockRange (err_msg err))"

definition fails_plainly :: "rec_input \<Rightarrow> bool" where
  "fails_plainly i \<longleftrightarrow> \<not> ri_ctx_err i \<and> \<not> ri_backoff_done i \<and>
     (\<forall>q. case ri_fetch i q of Inl err \<Rightarrow> plain_error err | Inr _ \<Rightarrow> False)"

definition slept :: "int option \<Rightarrow> int" where
  "slept d = (case d of None \<Rightarrow> 0 | Some seconds \<Rightarrow> max 0 seconds)"

lemma rec_iter_fails:
  assumes "startBlock st < rp_currentBlock P" "fails_plainly i"
  shows "rec_iter P i st = (Running, st\<lparr>endBlock := clamped P st, backOff := backOff st + 1\<rparr>, [])"
proof -
  have i: "\<not> ri_ctx_err i" "\<not> ri_backoff_done i"
    and fetch: "case ri_fetch i q of Inl err \<Rightarrow> plain_error err | Inr _ \<Rightarrow> False" for q
    using assms(2) by (simp_all add: fails_plainly_def)
  obtain err where err: "ri_fetch i (rec_query P (startBlock st) (clamped P st)) = Inl err" "plain_error err"
    using fetch [of "rec_query P (startBlock st) (clamped P st)"]
    by (cases "ri_fetch i (rec_query P (startBlock st) (clamped P st))") simp_all
  then have other: "\<not> str_contains (err_msg err) ''Exceeded max range limit for eth_getLogs:''"
    and "isl (extractAdvisedBlockRange (err_msg err))"
    unfolding plain_error_def by blast+
  then obtain e where none: "extractAdvisedBlockRange (err_msg err) = Inl e" unfolding isl_def by blast
  have waits: "fst (waitForBackOffTimeout False n)" for n by (simp add: waitForBackOffTimeout_def)
  show ?thesis
    unfolding rec_iter_def Let_def err(1) sum.case none if_not_P [OF other]
    by (simp add: assms(1) i waits)
qed

lemma sint_small:
  assumes "unat (w :: u64) < 2 ^ 63"
  shows "sint w = int (unat w)"
proof -
  have sint: "sint w = signed_take_bit 63 (uint w)" by (rule trans [OF sint_uint]) simp
  have "int (unat w) < int (2 ^ 63)" using assms by (simp only: of_nat_less_iff)
  then have small: "uint w < 2 ^ 63" unfolding uint_nat by simp
  have "signed_take_bit 63 (uint w) = uint w"
    by (rule signed_take_bit_int_eq_self) (use small in \<open>auto intro: order_trans [OF _ uint_nonnegative]\<close>)
  with sint show ?thesis unfolding uint_nat by (rule trans)
qed

lemma rec_loop_fails:
  assumes "startBlock st < rp_currentBlock P" "\<forall>i \<in> set is. fails_plainly i"
    and "unat (backOff st) + length is < 2 ^ 63"
  shows "(\<exists>st'. rec_loop P is st = (Running, st', []) \<and> startBlock st' = startBlock st \<and>
      unat (backOff st') = unat (backOff st) + length is) \<and>
    rec_waits P is st = map (\<lambda>k. snd (waitForBackOffTimeout False (int k)))
      [unat (backOff st)..<unat (backOff st) + length is]"
  using assms
proof (induction "is" arbitrary: st)
  case (Cons i "is")
  let ?st = "st\<lparr>endBlock := clamped P st, backOff := backOff st + 1\<rparr>"
  have b: "unat (backOff ?st) = unat (backOff st) + 1"
    using Cons.prems(3) by (simp add: unat_add_small)
  have wait: "rec_wait P i st = snd (waitForBackOffTimeout False (int (unat (backOff st))))"
    using Cons.prems sint_small [of "backOff st"] by (simp add: rec_wait_def fails_plainly_def)
  have iter: "rec_iter P i st = (Running, ?st, [])" using rec_iter_fails Cons.prems by simp
  have "(\<exists>st'. rec_loop P is ?st = (Running, st', []) \<and> startBlock st' = startBlock ?st \<and>
      unat (backOff st') = unat (backOff ?st) + length is) \<and>
    rec_waits P is ?st = map (\<lambda>k. snd (waitForBackOffTimeout False (int k)))
      [unat (backOff ?st)..<unat (backOff ?st) + length is]"
    using Cons.prems b by (intro Cons.IH) simp_all
  moreover have "[unat (backOff st)..<unat (backOff st) + length (i # is)] =
      unat (backOff st) # [unat (backOff ?st)..<unat (backOff ?st) + length is]"
    using upt_conv_Cons [of "unat (backOff st)" "unat (backOff st) + length (i # is)"] b by simp
  ultimately show ?case unfolding b by (auto simp: iter wait)
qed auto

lemma backoff_delays:
  "map (\<lambda>k. snd (waitForBackOffTimeout False (int k))) [0..<n] =
    take n [None, Some 2, Some (- 1), Some 0, Some 5, Some 6] @ replicate (n - 6) None"
proof -
  let ?f = "\<lambda>k. snd (waitForBackOffTimeout False (int k))"
  have six: "map ?f [0..<6] = [None, Some 2, Some (- 1), Some 0, Some 5, Some 6]"
    by (simp add: upt_rec waitForBackOffTimeout_def maxBackOffCount_def backoff_seconds_def)
  have later: "map ?f [6..<n] = replicate (n - 6) None"
    by (rule replicate_eqI) (auto simp: waitForBackOffTimeout_def maxBackOffCount_def)
  have "[0..<n] = take n [0..<6] @ [6..<n]"
  proof (cases "n \<le> 6")
    case True
    then show ?thesis by (simp add: take_upt)
  next
    case False
    then show ?thesis using upt_add_eq_append [of 0 6 "n - 6"] by simp
  qed
  then show ?thesis by (simp only: map_append later take_map [symmetric] six)
qed

text \<open>
  C39: the back-off does not last. If a node fails every request with an error the code can make
  nothing of, the history goroutine keeps asking for the same start without ever giving up, and it
  sleeps 2, -1 (not at all), 0, 5 and 6 seconds before its second to sixth request and never again:
  thirteen seconds in all, however many requests follow.
\<close>

theorem backoff_does_not_last:
  assumes "rp_lastBlock P < rp_currentBlock P" "\<forall>i \<in> set is. fails_plainly i" "length is < 2 ^ 63"
  shows "(\<exists>st'. reconcileBlockRange P is = (Running, st', []) \<and> startBlock st' = rp_lastBlock P) \<and>
    rec_waits P is (rec_init P) =
      take (length is) [None, Some 2, Some (- 1), Some 0, Some 5, Some 6] @ replicate (length is - 6) None \<and>
    (\<Sum>d \<leftarrow> rec_waits P is (rec_init P). slept d) \<le> 13"
proof -
  have init: "startBlock (rec_init P) = rp_lastBlock P" "backOff (rec_init P) = 0" by (simp_all add: rec_init_def)
  note run = rec_loop_fails [of "rec_init P" P "is", unfolded init, OF assms(1,2)]
  have waits: "rec_waits P is (rec_init P) =
      take (length is) [None, Some 2, Some (- 1), Some 0, Some 5, Some 6] @ replicate (length is - 6) None"
    using run assms(3) backoff_delays [of "length is"] by simp
  let ?all = "[None, Some 2, Some (- 1), Some 0, Some 5, Some (6 :: int)]"
  have "0 \<le> slept d" for d by (simp add: slept_def split: option.split)
  then have "(\<Sum>d \<leftarrow> take n ?all. slept d) \<le> (\<Sum>d \<leftarrow> take n ?all @ drop n ?all. slept d)" for n
    unfolding map_append sum_list_append by (intro order_trans [OF _ add_left_mono [OF sum_list_nonneg]]) auto
  then have "(\<Sum>d \<leftarrow> take (length is) ?all. slept d) \<le> 13"
    by (simp only: append_take_drop_id) (simp add: slept_def)
  moreover have "(\<Sum>d \<leftarrow> replicate k None. slept d) = 0" for k by (simp add: slept_def map_replicate_const sum_list_replicate)
  ultimately have "(\<Sum>d \<leftarrow> rec_waits P is (rec_init P). slept d) \<le> 13"
    unfolding waits map_append sum_list_append by simp
  with waits run assms(3) show ?thesis by (auto simp: reconcileBlockRange_def)
qed

lemma backoff_does_not_last_witness:
  "\<exists>is. length is = 1000 \<and>
    fst (reconcileBlockRange (sample_params 20 10 0) is) = Running \<and>
    (\<Sum>d \<leftarrow> rec_waits (sample_params 20 10 0) is (rec_init (sample_params 20 10 0)). slept d) \<le> 13"
proof -
  let ?i = "sample_input (\<lambda>q. Inl (Opaque ''boom''))"
  have "fails_plainly ?i"
    by (simp add: fails_plainly_def plain_error_def sample_input_def err_msg.simps extractAdvisedBlockRange_def)
  then have "\<forall>i \<in> set (replicate 1000 ?i). fails_plainly i" by simp
  from backoff_does_not_last [OF _ this, of "sample_params 20 10 0"]
  show ?thesis by (intro exI [of _ "replicate 1000 ?i"]) (auto simp: sample_params_def)
qed

end
