(* ===== verification/Listener.thy ===== *)
theory Listener
  imports Reconcile_Correct
begin

text \<open>
  The rest of \<open>custody/listener.go\<close>: \<open>listenEvents\<close>, which connects, starts the goroutine for the
  history, subscribes and hands on the logs of both channels, and the three \<open>Watch\<close> methods that turn
  logs into events on the sink.
\<close>

section \<open>The state of the loop and what it meets\<close>

record listen_state =
  ls_lastBlock :: u64
  ls_lastIndex :: u32
  ls_backOff :: u64
  ls_subscribed :: bool

text \<open>The case the \<open>select\<close> takes; a log comes from the historical or from the current channel.\<close>

datatype select_case =
    CtxDone
  | Historical eth_log
  | Current eth_log
  | SubEnded "go_error option"

text \<open>
  One iteration: \<open>ctx.Err()\<close> at its start, a cancellation while backing off, the number of the
  latest header, \<open>ctx.Err()\<close> after a failure, the outcome of subscribing, and the \<open>select\<close>.
\<close>

record listen_input =
  li_ctx_err :: bool
  li_backoff_done :: bool
  li_header :: "go_error + u64"
  li_header_ctx_err :: bool
  li_subscribe :: "go_error option"
  li_subscribe_ctx_err :: bool
  li_select :: select_case

text \<open>
  What the loop does to the outside: start the goroutine, subscribe to the logs of an address (with
  success or not), unsubscribe, call the handler.
\<close>

datatype listen_action =
    StartReconcile rec_params
  | SubscribeLogs address bool
  | Unsubscribe
  | Handle eth_log

datatype listen_status = Listening | Stopped

section \<open>listenEvents\<close>

datatype connect_result = Return | Continue | Connected

definition listen_connect ::
    "address \<Rightarrow> hash list list \<Rightarrow> listen_input \<Rightarrow> listen_state \<Rightarrow>
     connect_result \<times> listen_state \<times> listen_action list" where
  "listen_connect contract topics i st =
     (if \<not> fst (waitForBackOffTimeout (li_backoff_done i) (sint (ls_backOff st)))
      then (Return, st, [])
      else
        (let subscribe = (\<lambda>acts.
               (case li_subscribe i of
                  Some err \<Rightarrow>
                    if li_subscribe_ctx_err i
                    then (Return, st, acts @ [SubscribeLogs contract False])
                    else (Continue, st\<lparr>ls_backOff := ls_backOff st + 1\<rparr>,
                          acts @ [SubscribeLogs contract False])
                | None \<Rightarrow>
                    (Connected, st\<lparr>ls_subscribed := True, ls_backOff := 0\<rparr>,
                     acts @ [SubscribeLogs contract True])))
         in if ls_lastBlock st = 0 then subscribe []
            else case li_header i of
                   Inl err \<Rightarrow>
                     if li_header_ctx_err i then (Return, st, [])
                     else (Continue, st\<lparr>ls_backOff := ls_backOff st + 1\<rparr>, [])
                 | Inr number \<Rightarrow>
                     subscribe [StartReconcile
                       \<lparr>rp_contract = contract, rp_currentBlock = number,
                        rp_lastBlock = ls_lastBlock st, rp_lastIndex = ls_lastIndex st,
                        rp_topics = topics\<rparr>]))"

definition listen_select ::
    "select_case \<Rightarrow> listen_state \<Rightarrow> listen_status \<times> listen_state \<times> listen_action list" where
  "listen_select sel st =
     (case sel of
        CtxDone \<Rightarrow> (Stopped, st, [Unsubscribe])
      | Historical eventLog \<Rightarrow> (Listening, st, [Handle eventLog])
      | Current eventLog \<Rightarrow>
          (Listening, st\<lparr>ls_lastBlock := log_BlockNumber eventLog\<rparr>, [Handle eventLog])
      | SubEnded err \<Rightarrow>
          (Listening, st\<lparr>ls_subscribed := False\<rparr>, if err \<noteq> None then [Unsubscribe] else []))"

definition listen_iter ::
    "address \<Rightarrow> hash list list \<Rightarrow> listen_input \<Rightarrow> listen_state \<Rightarrow>
     listen_status \<times> listen_state \<times> listen_action list" where
  "listen_iter contract topics i st =
     (if li_ctx_err i then (Stopped, st, if ls_subscribed st then [Unsubscribe] else [])
      else if ls_subscribed st then listen_select (li_select i) st
      else
        (case listen_connect contract topics i st of
           (Return, st', acts) \<Rightarrow> (Stopped, st', acts)
         | (Continue, st', acts) \<Rightarrow> (Listening, st', acts)
         | (Connected, st', acts) \<Rightarrow>
             (case listen_select (li_select i) st' of
                (r, st'', acts') \<Rightarrow> (r, st'', acts @ acts'))))"

fun listen_loop ::
    "address \<Rightarrow> hash list list \<Rightarrow> listen_input list \<Rightarrow> listen_state \<Rightarrow>
     listen_status \<times> listen_state \<times> listen_action list" where
  "listen_loop contract topics [] st = (Listening, st, [])"
| "listen_loop contract topics (i # is) st =
     (case listen_iter contract topics i st of
        (Stopped, st', acts) \<Rightarrow> (Stopped, st', acts)
      | (Listening, st', acts) \<Rightarrow>
          (case listen_loop contract topics is st' of (r, st'', acts') \<Rightarrow> (r, st'', acts @ acts')))"

definition listen_init :: "u64 \<Rightarrow> u32 \<Rightarrow> listen_state" where
  "listen_init fromBlock fromLogIndex =
     \<lparr>ls_lastBlock = fromBlock, ls_lastIndex = fromLogIndex, ls_backOff = 0, ls_subscribed = False\<rparr>"

definition listenEvents ::
    "address \<Rightarrow> u64 \<Rightarrow> u32 \<Rightarrow> hash list list \<Rightarrow> listen_input list \<Rightarrow>
     listen_status \<times> listen_state \<times> listen_action list" where
  "listenEvents contract lastBlock lastIndex topics is =
     listen_loop contract topics is (listen_init lastBlock lastIndex)"

section \<open>The listener and its Watch methods\<close>

text \<open>The client is the environment of the loops; a contract binding is its \<open>bound_contract\<close>.\<close>

record listener =
  ln_contractAddr :: address
  ln_withdrawFilterer :: "bound_contract option"
  ln_depositFilterer :: "bound_contract option"

definition NewListener ::
    "address \<Rightarrow> bound_contract option \<Rightarrow> bound_contract option \<Rightarrow> listener" where
  "NewListener contractAddr withdraw deposit =
     \<lparr>ln_contractAddr = contractAddr, ln_withdrawFilterer = withdraw, ln_depositFilterer = deposit\<rparr>"

text \<open>
  What a \<open>Watch\<close> method put on the sink, and how it stands: still listening, returned with the sink
  closed, or a panic on a filterer that is nil.
\<close>

datatype watch_end = Open | Closed | Panicked

text \<open>A handler panics (\<open>None\<close>), drops the log or sends an event.\<close>

fun feed :: "(eth_log \<Rightarrow> 'ev option option) \<Rightarrow> listen_status \<Rightarrow> listen_action list \<Rightarrow>
    'ev list \<times> watch_end" where
  "feed h r [] = ([], case r of Listening \<Rightarrow> Open | Stopped \<Rightarrow> Closed)"
| "feed h r (Handle l # acts) =
     (case h l of
        None \<Rightarrow> ([], Panicked)
      | Some ev \<Rightarrow> (let (evs, e) = feed h r acts in
                     (case ev of None \<Rightarrow> evs | Some x \<Rightarrow> x # evs, e)))"
| "feed h r (a # acts) = feed h r acts"

definition withdraw_started_of :: "i_withdraw_started \<Rightarrow> withdraw_started_event" where
  "withdraw_started_of ev =
     \<lparr>ws_WithdrawalID = iws_WithdrawalId ev, ws_User = iws_User ev, ws_Token = iws_Token ev,
      ws_Amount = iws_Amount ev, ws_Nonce = iws_Nonce ev,
      ws_BlockNumber = log_BlockNumber (iws_Raw ev), ws_TxHash = log_TxHash (iws_Raw ev),
      ws_LogIndex = log_Index (iws_Raw ev)\<rparr>"

definition withdraw_finalized_of :: "i_withdraw_finalized \<Rightarrow> withdraw_finalized_event" where
  "withdraw_finalized_of ev =
     \<lparr>wf_WithdrawalID = iwf_WithdrawalId ev, wf_Success = iwf_Success ev,
      wf_BlockNumber = log_BlockNumber (iwf_Raw ev), wf_TxHash = log_TxHash (iwf_Raw ev),
      wf_LogIndex = log_Index (iwf_Raw ev)\<rparr>"

definition deposited_of :: "i_deposited \<Rightarrow> deposited_event" where
  "deposited_of ev =
     \<lparr>dep_User = idep_User ev, dep_Token = idep_Token ev, dep_Amount = idep_Amount ev,
      dep_BlockNumber = log_BlockNumber (idep_Raw ev), dep_TxHash = log_TxHash (idep_Raw ev),
      dep_LogIndex = log_Index (idep_Raw ev)\<rparr>"

definition handle_with :: "(bound_contract \<Rightarrow> eth_log \<Rightarrow> go_error + 'raw) \<Rightarrow> ('raw \<Rightarrow> 'ev) \<Rightarrow>
    bound_contract option \<Rightarrow> eth_log \<Rightarrow> 'ev option option" where
  "handle_with parse conv filterer log =
     (case filterer of
        None \<Rightarrow> None
      | Some C \<Rightarrow> (case parse C log of Inl err \<Rightarrow> Some None | Inr ev \<Rightarrow> Some (Some (conv ev))))"

text \<open>\<open>abi\<close>: the parsed ABI, as the map from event names to topic hashes.\<close>

definition listener_WatchWithdrawStarted ::
    "go_error + (string \<Rightarrow> hash) \<Rightarrow> listener \<Rightarrow> u64 \<Rightarrow> u32 \<Rightarrow> listen_input list \<Rightarrow>
     withdraw_started_event list \<times> watch_end" where
  "listener_WatchWithdrawStarted abi L fromBlock fromLogIndex is =
     (case abi of
        Inl err \<Rightarrow> ([], Closed)
      | Inr ids \<Rightarrow>
          (case listenEvents (ln_contractAddr L) fromBlock fromLogIndex
                  [[ids ''WithdrawStarted'']] is of
             (r, st, acts) \<Rightarrow>
               feed (handle_with ParseWithdrawStarted withdraw_started_of (ln_withdrawFilterer L))
                 r acts))"

definition listener_WatchWithdrawFinalized ::
    "go_error + (string \<Rightarrow> hash) \<Rightarrow> listener \<Rightarrow> u64 \<Rightarrow> u32 \<Rightarrow> listen_input list \<Rightarrow>
     withdraw_finalized_event list \<times> watch_end" where
  "listener_WatchWithdrawFinalized abi L fromBlock fromLogIndex is =
     (case abi of
        Inl err \<Rightarrow> ([], Closed)
      | Inr ids \<Rightarrow>
          (case listenEvents (ln_contractAddr L) fromBlock fromLogIndex
                  [[ids ''WithdrawFinalized'']] is of
             (r, st, acts) \<Rightarrow>
               feed (handle_with ParseWithdrawFinalized withdraw_finalized_of
                       (ln_withdrawFilterer L)) r acts))"

definition listener_WatchDeposited ::
    "go_error + (string \<Rightarrow> hash) \<Rightarrow> listener \<Rightarrow> u64 \<Rightarrow> u32 \<Rightarrow> listen_input list \<Rightarrow>
     deposited_event list \<times> watch_end" where
  "listener_WatchDeposited abi L fromBlock fromLogIndex is =
     (if ln_depositFilterer L = None then ([], Closed)
      else case abi of
        Inl err \<Rightarrow> ([], Closed)
      | Inr ids \<Rightarrow>
          (case listenEvents (ln_contractAddr L) fromBlock fromLogIndex
                  [[ids ''Deposited'']] is of
             (r, st, acts) \<Rightarrow>
               feed (handle_with ParseDeposited deposited_of (ln_depositFilterer L)) r acts))"

section \<open>One iteration\<close>

lemmas listen_defs = listen_iter_def listen_connect_def listen_select_def Let_def

lemma listen_loop_Cons:
  "listen_loop contract topics (i # is) st = (r, st', acts) \<longleftrightarrow>
     (\<exists>r1 st1 acts1. listen_iter contract topics i st = (r1, st1, acts1) \<and>
        (r1 = Stopped \<and> r = Stopped \<and> st' = st1 \<and> acts = acts1 \<or>
         r1 = Listening \<and> (\<exists>acts2. listen_loop contract topics is st1 = (r, st', acts2) \<and>
           acts = acts1 @ acts2)))"
  by (auto split: prod.splits listen_status.splits)

definition handled_logs :: "listen_action list \<Rightarrow> eth_log list" where
  "handled_logs acts = concat (map (\<lambda>a. case a of Handle l \<Rightarrow> [l] | _ \<Rightarrow> []) acts)"

lemma handled_logs_simps [simp]:
  "handled_logs [] = []"
  "handled_logs (Handle l # acts) = l # handled_logs acts"
  "handled_logs (StartReconcile P # acts) = handled_logs acts"
  "handled_logs (SubscribeLogs a b # acts) = handled_logs acts"
  "handled_logs (Unsubscribe # acts) = handled_logs acts"
  "handled_logs (acts @ acts') = handled_logs acts @ handled_logs acts'"
  by (simp_all add: handled_logs_def)

text \<open>What the parsers accept, in order.\<close>

definition parsed :: "(bound_contract \<Rightarrow> eth_log \<Rightarrow> go_error + 'raw) \<Rightarrow> ('raw \<Rightarrow> 'ev) \<Rightarrow>
    bound_contract \<Rightarrow> eth_log list \<Rightarrow> 'ev list" where
  "parsed parse conv C ls =
     concat (map (\<lambda>l. case parse C l of Inl _ \<Rightarrow> [] | Inr raw \<Rightarrow> [conv raw]) ls)"

lemma feed_parsed:
  "feed (handle_with parse conv (Some C)) r acts =
     (parsed parse conv C (handled_logs acts), case r of Listening \<Rightarrow> Open | Stopped \<Rightarrow> Closed)"
proof (induction acts)
  case (Cons a acts)
  then show ?case
    by (cases a) (auto simp: handle_with_def parsed_def split: sum.splits)
qed (simp add: parsed_def)

lemma parsed_set:
  "ev \<in> set (parsed parse conv C ls) \<longleftrightarrow>
     (\<exists>l raw. l \<in> set ls \<and> parse C l = Inr raw \<and> ev = conv raw)"
proof (induction ls)
  case (Cons l ls)
  then show ?case by (cases "parse C l") (auto simp: parsed_def)
qed (simp add: parsed_def)

section \<open>Runs of the loop\<close>

definition cancelled :: "listen_input \<Rightarrow> bool" where
  "cancelled i \<longleftrightarrow> li_ctx_err i \<or> li_backoff_done i \<or> li_header_ctx_err i \<or>
     li_subscribe_ctx_err i \<or> li_select i = CtxDone"

lemma listen_iter_stops:
  assumes "listen_iter contract topics i st = (Stopped, st', acts)"
  shows "cancelled i \<and> (ls_subscribed st' \<longrightarrow> acts \<noteq> [] \<and> last acts = Unsubscribe)"
  using assms
  by (auto simp: listen_defs cancelled_def waitForBackOffTimeout_def
      split: if_splits sum.splits option.splits select_case.splits)

text \<open>What every history goroutine is started with, and where the loop stands.\<close>

definition started_with :: "address \<Rightarrow> hash list list \<Rightarrow> u32 \<Rightarrow> u64 set \<Rightarrow> rec_params \<Rightarrow> bool" where
  "started_with contract topics idx blocks P \<longleftrightarrow>
     rp_contract P = contract \<and> rp_topics P = topics \<and> rp_lastIndex P = idx \<and>
     rp_lastBlock P \<in> blocks \<and> rp_lastBlock P \<noteq> 0"

definition live_blocks :: "listen_input list \<Rightarrow> u64 set" where
  "live_blocks is = {log_BlockNumber l | l. Current l \<in> li_select ` set is}"

lemma listen_iter_starts:
  assumes "listen_iter contract topics i st = (r, st', acts)"
  shows "ls_lastIndex st' = ls_lastIndex st \<and>
    ls_lastBlock st' \<in> insert (ls_lastBlock st) (live_blocks [i]) \<and>
    (\<forall>P. StartReconcile P \<in> set acts \<longrightarrow>
       started_with contract topics (ls_lastIndex st) {ls_lastBlock st} P)"
  using assms
  by (auto simp: listen_defs started_with_def live_blocks_def
      split: if_splits sum.splits option.splits select_case.splits prod.splits)

lemma listen_loop_starts:
  assumes "listen_loop contract topics is st = (r, st', acts)"
  shows "ls_lastIndex st' = ls_lastIndex st \<and>
    ls_lastBlock st' \<in> insert (ls_lastBlock st) (live_blocks is) \<and>
    (\<forall>P. StartReconcile P \<in> set acts \<longrightarrow>
       started_with contract topics (ls_lastIndex st) (insert (ls_lastBlock st) (live_blocks is)) P)"
  using assms
proof (induction "is" arbitrary: st r st' acts)
  case (Cons i "is")
  obtain r1 st1 acts1 where iter: "listen_iter contract topics i st = (r1, st1, acts1)"
    by (cases "listen_iter contract topics i st")
  note step = listen_iter_starts [OF iter]
  have mono: "live_blocks (i # is) = live_blocks [i] \<union> live_blocks is"
    by (auto simp: live_blocks_def)
  show ?case
  proof (cases r1)
    case Stopped
    with Cons.prems iter have "st' = st1 \<and> acts = acts1" by simp
    with step mono show ?thesis by (auto simp: started_with_def)
  next
    case Listening
    with Cons.prems iter obtain acts2 where
      loop: "listen_loop contract topics is st1 = (r, st', acts2)" and "acts = acts1 @ acts2"
      by (auto split: prod.splits)
    with step Cons.IH [OF loop] show ?thesis
      unfolding mono started_with_def by auto
  qed
qed simp

lemma listen_loop_stops:
  assumes "listen_loop contract topics is st = (Stopped, st', acts)"
  shows "(\<exists>i \<in> set is. cancelled i) \<and> (ls_subscribed st' \<longrightarrow> acts \<noteq> [] \<and> last acts = Unsubscribe)"
  using assms
proof (induction "is" arbitrary: st acts)
  case (Cons i "is")
  from Cons.prems obtain r1 st1 acts1 where
    iter: "listen_iter contract topics i st = (r1, st1, acts1)" and
    cases: "r1 = Stopped \<and> st' = st1 \<and> acts = acts1 \<or>
      (\<exists>acts2. listen_loop contract topics is st1 = (Stopped, st', acts2) \<and> acts = acts1 @ acts2)"
    unfolding listen_loop_Cons by blast
  from cases show ?case
  proof
    assume "r1 = Stopped \<and> st' = st1 \<and> acts = acts1"
    with iter listen_iter_stops show ?thesis by auto
  next
    assume "\<exists>acts2. listen_loop contract topics is st1 = (Stopped, st', acts2) \<and> acts = acts1 @ acts2"
    with Cons.IH show ?thesis by fastforce
  qed
qed simp

text \<open>The first goroutine starts from the caller's position.\<close>

lemma first_start:
  assumes "listen_loop contract topics is st = (r, st', StartReconcile P # acts)"
  shows "rp_lastBlock P = ls_lastBlock st \<and> rp_lastIndex P = ls_lastIndex st"
  using assms
proof (induction "is" arbitrary: st acts)
  case (Cons i "is")
  obtain r1 st1 acts1 where iter: "listen_iter contract topics i st = (r1, st1, acts1)"
    by (cases "listen_iter contract topics i st")
  show ?case
  proof (cases acts1)
    case Nil
    then have same: "ls_lastBlock st1 = ls_lastBlock st \<and> ls_lastIndex st1 = ls_lastIndex st"
      using iter by (auto simp: listen_defs
          split: if_splits sum.splits option.splits select_case.splits prod.splits)
    from Cons.prems iter Nil have "listen_loop contract topics is st1 = (r, st', StartReconcile P # acts)"
      unfolding listen_loop_Cons by auto
    with Cons.IH same show ?thesis by simp
  next
    case (Cons a acts1')
    with Cons.prems iter have "a = StartReconcile P"
      unfolding listen_loop_Cons by auto
    with Cons listen_iter_starts [OF iter] show ?thesis by (auto simp: started_with_def)
  qed
qed simp

text \<open>The goroutine never sends a known log, whatever the node answers.\<close>

lemma rec_loop_unknown:
  "rec_loop P is st = (r, st', out) \<Longrightarrow> l \<in> set out \<Longrightarrow> \<not> known P l"
proof (induction "is" arbitrary: st r st' out)
  case (Cons i "is")
  obtain r1 st1 out1 where iter: "rec_iter P i st = (r1, st1, out1)" by (cases "rec_iter P i st")
  then have "\<forall>l \<in> set out1. \<not> known P l"
    by (auto simp: rec_iter_def Let_def split: if_splits sum.splits prod.splits)
  with Cons iter show ?case by (cases r1) (auto split: prod.splits)
qed simp

section \<open>Properties\<close>

text \<open>
  C35: the listener returns only on a cancelled context: failed requests, refused subscriptions and
  dropped connections never end it. When it returns with a live subscription its last act is to
  cancel that subscription.
\<close>

theorem listener_stops_on_cancel:
  assumes "listenEvents contract lastBlock lastIndex topics is = (Stopped, st', acts)"
  shows "(\<exists>i \<in> set is. cancelled i) \<and> (ls_subscribed st' \<longrightarrow> acts \<noteq> [] \<and> last acts = Unsubscribe)"
  using assms listen_loop_stops unfolding listenEvents_def by blast

definition live_input :: "u64 \<Rightarrow> select_case \<Rightarrow> listen_input" where
  "live_input head sel =
     \<lparr>li_ctx_err = False, li_backoff_done = False, li_header = Inr head, li_header_ctx_err = False,
      li_subscribe = None, li_subscribe_ctx_err = False, li_select = sel\<rparr>"

lemma listener_stops_on_cancel_witness:
  "\<exists>st' acts. listenEvents 1 10 0 [[7]]
      [live_input 20 (SubEnded None), live_input 21 (Historical (sample_log 11 0)),
       live_input 22 CtxDone] = (Stopped, st', acts) \<and> last acts = Unsubscribe"
proof -
  let ?is = "[live_input 20 (SubEnded None), live_input 21 (Historical (sample_log 11 0)),
       live_input 22 CtxDone]"
  have "\<exists>st' acts. listenEvents 1 10 0 [[7]] ?is = (Stopped, st', acts) \<and> ls_subscribed st'"
    by (simp add: listenEvents_def listen_init_def listen_defs live_input_def)
  then show ?thesis
    using listener_stops_on_cancel [of 1 10 0 "[[7]]" ?is] by blast
qed

text \<open>
  Every goroutine for the history is started for the listener's contract and topics, from the
  block the caller gave or the block of a log received live; the log index it skips up to is always
  the caller's: it does not move with the block.
\<close>

theorem listener_resumes_from:
  assumes "listenEvents contract lastBlock lastIndex topics is = (r, st', acts)"
    and "StartReconcile P \<in> set acts"
  shows "rp_contract P = contract \<and> rp_topics P = topics \<and> rp_lastIndex P = lastIndex \<and>
    rp_lastBlock P \<in> insert lastBlock (live_blocks is) \<and> rp_lastBlock P \<noteq> 0"
  using listen_loop_starts [OF assms(1) [unfolded listenEvents_def]] assms(2)
  by (auto simp: started_with_def listen_init_def)

definition reconnecting :: "listen_input list" where
  "reconnecting =
     [live_input 20 (Current (sample_log 21 0)), live_input 0 (SubEnded None),
      live_input 25 (SubEnded None)]"

lemma listener_resumes_from_witness:
  "\<exists>r st' acts P. listenEvents 1 10 5 [[7]] reconnecting = (r, st', acts) \<and>
    StartReconcile P \<in> set acts \<and> rp_lastBlock P = 21 \<and> rp_lastIndex P = 5"
proof -
  obtain r st' acts where run: "listenEvents 1 10 5 [[7]] reconnecting = (r, st', acts)"
    by (cases "listenEvents 1 10 5 [[7]] reconnecting")
  then have "StartReconcile (sample_params 25 21 5) \<in> set acts"
    by (auto simp: reconnecting_def listenEvents_def listen_init_def listen_defs live_input_def
        sample_params_def sample_log_def)
  with listener_resumes_from [OF run this] run show ?thesis
    by (auto simp: sample_params_def)
qed

text \<open>
  C32: after a reconnect the logs of the block of the last live log, up to the index the caller once
  gave, are skipped as already known, whether they were handled or not.
\<close>

theorem stale_index_loses_logs:
  assumes "listenEvents contract lastBlock lastIndex topics is = (r, st', acts)"
    and "StartReconcile P \<in> set acts"
    and "log_BlockNumber l = rp_lastBlock P" "log_Index l \<le> ucast lastIndex"
    and "reconcileBlockRange P js = (r', st'', out)"
  shows "l \<notin> set out"
proof -
  from assms(1,2) have "rp_lastIndex P = lastIndex"
    using listen_loop_starts [OF assms(1) [unfolded listenEvents_def]]
    by (auto simp: started_with_def listen_init_def)
  then have "known P l" using assms(3,4) by (simp add: known_def)
  then show ?thesis
    using rec_loop_unknown assms(5) unfolding reconcileBlockRange_def by blast
qed

text \<open>
  The witness: log 3 of block 21 was never handled; it is on the chain when the goroutine of the
  second connection fetches blocks 21 to 25 from an answering node, and it is not delivered.
\<close>

lemma stale_index_loses_logs_witness:
  "\<exists>st' acts P st'' out.
    listenEvents 1 10 5 [[7]] reconnecting = (Listening, st', acts) \<and> StartReconcile P \<in> set acts \<and>
    sample_log 21 3 \<notin> set (handled_logs acts) \<and>
    reconcileBlockRange P (replicate 3 (sample_input (\<lambda>q. Inr (answer [sample_log 21 0, sample_log 21 3] q)))) =
      (Finished, st'', out) \<and> sample_log 21 3 \<notin> set out"
proof -
  let ?js = "replicate 3 (sample_input (\<lambda>q. Inr (answer [sample_log 21 0, sample_log 21 3] q)))"
  obtain r st' acts where run: "listenEvents 1 10 5 [[7]] reconnecting = (r, st', acts)"
    by (cases "listenEvents 1 10 5 [[7]] reconnecting")
  then have start: "StartReconcile (sample_params 25 21 5) \<in> set acts" and r: "r = Listening"
    and "sample_log 21 3 \<notin> set (handled_logs acts)"
    by (auto simp: reconnecting_def listenEvents_def listen_init_def listen_defs live_input_def
        sample_params_def sample_log_def)
  moreover obtain st'' out where fin: "reconcileBlockRange (sample_params 25 21 5) ?js = (Finished, st'', out)"
    using answering_delivers [of "sample_params 25 21 5" ?js "[sample_log 21 0, sample_log 21 3]"]
    by (auto simp: sample_params_def sample_log_def no_wrap_def)
  moreover have "sample_log 21 3 \<notin> set out"
    using stale_index_loses_logs [OF run start _ _ fin, of "sample_log 21 3"]
    by (simp add: sample_params_def sample_log_def)
  ultimately show ?thesis using run by blast
qed

text \<open>
  An event on the sink of \<open>WatchWithdrawStarted\<close> comes from a log the loop handed on and the
  parser accepted, in the logs' order, and carries that log's block, transaction and index.
\<close>

theorem watch_withdraw_started_events:
  assumes "listenEvents (ln_contractAddr L) fromBlock fromLogIndex [[ids ''WithdrawStarted'']] is =
      (r, st', acts)"
    and "ln_withdrawFilterer L = Some C"
  shows "listener_WatchWithdrawStarted (Inr ids) L fromBlock fromLogIndex is =
      (concat (map (\<lambda>l. case ParseWithdrawStarted C l of
           Inl _ \<Rightarrow> []
         | Inr raw \<Rightarrow> [\<lparr>ws_WithdrawalID = iws_WithdrawalId raw, ws_User = iws_User raw,
             ws_Token = iws_Token raw, ws_Amount = iws_Amount raw, ws_Nonce = iws_Nonce raw,
             ws_BlockNumber = log_BlockNumber l, ws_TxHash = log_TxHash l, ws_LogIndex = log_Index l\<rparr>])
         (handled_logs acts)),
       if r = Stopped then Closed else Open)"
proof -
  have "iws_Raw raw = l" if "ParseWithdrawStarted C l = Inr raw" for l raw
    using that withdraw_started.raw_unpack unfolding ParseWithdrawStarted_def by blast
  then show ?thesis
    using assms
    by (auto simp: listener_WatchWithdrawStarted_def feed_parsed parsed_def withdraw_started_of_def
        split: sum.splits listen_status.splits intro!: arg_cong [where f = concat])
qed

definition sample_contract :: bound_contract where
  "sample_contract =
     \<lparr>Call = (\<lambda>_ _ _. Inr []), Transact = (\<lambda>_ _ _. Inr \<lparr>tx_Hash = 5\<rparr>),
      PlainTransfer = (\<lambda>_. Inr \<lparr>tx_Hash = 5\<rparr>), FilterLogs = (\<lambda>_ _ _. Inr ([], Some None)),
      WatchLogs = (\<lambda>_ _. None),
      UnpackLog = (\<lambda>name l. if log_Topics l = [7]
        then Inr [ABytes32 (ucast (log_Index l)), AAddress 2, AAddress 3, AUint 100, AUint 0]
        else Inl cannot_unmarshal)\<rparr>"

lemma watch_withdraw_started_events_witness:
  "listener_WatchWithdrawStarted (Inr (\<lambda>_. 7)) (NewListener 1 (Some sample_contract) None) 10 5
     reconnecting =
   ([\<lparr>ws_WithdrawalID = 0, ws_User = 2, ws_Token = 3, ws_Amount = 100, ws_Nonce = 0,
      ws_BlockNumber = 21, ws_TxHash = 9, ws_LogIndex = 0\<rparr>], Open)"
proof -
  obtain r st' acts where run: "listenEvents 1 10 5 [[7]] reconnecting = (r, st', acts)"
    by (cases "listenEvents 1 10 5 [[7]] reconnecting")
  then have "r = Listening \<and> handled_logs acts = [sample_log 21 0]"
    by (auto simp: reconnecting_def listenEvents_def listen_init_def listen_defs live_input_def
        sample_params_def sample_log_def)
  moreover have "listenEvents (ln_contractAddr (NewListener 1 (Some sample_contract) None)) 10 5
      [[(\<lambda>_. 7) ''WithdrawStarted'']] reconnecting = (r, st', acts)"
    using run by (simp add: NewListener_def)
  ultimately show ?thesis
    using watch_withdraw_started_events [where ids = "\<lambda>_. 7" and r = r and st' = st' and acts = acts
        and L = "NewListener 1 (Some sample_contract) None" and C = sample_contract]
    by (simp add: NewListener_def sample_contract_def sample_log_def ParseWithdrawStarted_def
        unpack_event_def mk_withdraw_started_def)
qed

end
