(* ===== verification/Config.thy ===== *)
theory Config
  imports Custody_Types Go_Num
begin

text \<open>
  \<open>config/config.go\<close>: the configuration, its validation and its loading. A Go map is the list of
  its entries in the order \<open>range\<close> visits them, which the language leaves open: what is proved
  about a map holds for every order. Reading the file and the YAML decoder are parameters;
  \<open>os.ExpandEnv\<close> is modelled.
\<close>

section \<open>Data\<close>

record limit_config =
  lc_Hourly :: string
  lc_Daily :: string

type_synonym limits_config = "(string \<times> limit_config) list"

record blockchain_config =
  RPCURL :: string
  ContractAddr :: string
  PrivateKey :: string

record config =
  Blockchain :: blockchain_config
  Limits :: limits_config
  PerUserOverrides :: "(string \<times> limits_config) list"
  ListenAddr :: string
  DBPath :: string

section \<open>Validation\<close>

definition validateBlockchain :: "geth \<Rightarrow> blockchain_config \<Rightarrow> go_error option" where
  "validateBlockchain G c =
     (if RPCURL c = [] then Some (Opaque ''missing blockchain RPC URL'')
      else if \<not> prefix ''ws://'' (RPCURL c) \<and> \<not> prefix ''wss://'' (RPCURL c)
      then Some (Opaque (''RPC URL must use WebSocket (ws:// or wss://), got: '' @ RPCURL c))
      else if \<not> is_hex_address G (ContractAddr c)
      then Some (Opaque (''invalid contract address: '' @ ContractAddr c))
      else if PrivateKey c = [] then Some (Opaque ''missing private key'')
      else None)"

fun validateLimitsConfig :: "geth \<Rightarrow> limits_config \<Rightarrow> string \<Rightarrow> go_error option" where
  "validateLimitsConfig G [] section = None"
| "validateLimitsConfig G ((addr, lim) # rest) section =
     (if \<not> is_hex_address G addr
      then Some (Opaque (''invalid token address in '' @ section @ '': '' @ addr))
      else if lc_Hourly lim \<noteq> [] \<and> set_string (lc_Hourly lim) = None
      then Some (Opaque (''invalid hourly limit for '' @ addr @ '' in '' @ section @ '': '' @ lc_Hourly lim))
      else if lc_Daily lim \<noteq> [] \<and> set_string (lc_Daily lim) = None
      then Some (Opaque (''invalid daily limit for '' @ addr @ '' in '' @ section @ '': '' @ lc_Daily lim))
      else validateLimitsConfig G rest section)"

fun validateOverrides :: "geth \<Rightarrow> (string \<times> limits_config) list \<Rightarrow> go_error option" where
  "validateOverrides G [] = None"
| "validateOverrides G ((userAddr, tokenLimits) # rest) =
     (if \<not> is_hex_address G userAddr
      then Some (Opaque (''invalid user address in per_user_overrides: '' @ userAddr))
      else case validateLimitsConfig G tokenLimits (''per_user_overrides['' @ userAddr @ '']'') of
             Some err \<Rightarrow> Some err
           | None \<Rightarrow> validateOverrides G rest)"

definition Validate :: "geth \<Rightarrow> config \<Rightarrow> go_error option" where
  "Validate G c =
     (case validateBlockchain G (Blockchain c) of
        Some err \<Rightarrow> Some (Wrap ''invalid blockchain config: '' err '''')
      | None \<Rightarrow>
          if Limits c = [] then Some (Opaque ''at least one token limit must be configured'')
          else case validateLimitsConfig G (Limits c) ''limits'' of
                 Some err \<Rightarrow> Some err
               | None \<Rightarrow> validateOverrides G (PerUserOverrides c))"

section \<open>Environment variables\<close>

text \<open>
  \<open>os.Expand\<close>: a dollar sign before a name, a special variable or a braced name is replaced by the
  mapping's value; \<open>getShellName\<close> returns the name and how many characters it takes.
\<close>

definition is_special_var :: "char \<Rightarrow> bool" where
  "is_special_var c \<longleftrightarrow> c \<in> set ''*#$@!?-0123456789''"

definition is_alphanum :: "char \<Rightarrow> bool" where
  "is_alphanum c \<longleftrightarrow>
     (let k = of_char c :: nat in
      k = 95 \<or> 48 \<le> k \<and> k \<le> 57 \<or> 97 \<le> k \<and> k \<le> 122 \<or> 65 \<le> k \<and> k \<le> 90)"

definition scan_brace :: "string \<Rightarrow> string \<times> nat" where
  "scan_brace s =
     (let name = takeWhile (\<lambda>x. x \<noteq> CHR ''}'') s in
      if length name = length s then ([], 1)
      else if name = [] then ([], 2)
      else (name, length name + 2))"

definition getShellName :: "string \<Rightarrow> string \<times> nat" where
  "getShellName s =
     (case s of
        [] \<Rightarrow> ([], 0)
      | c # rest \<Rightarrow>
          if c = CHR ''{'' then
            (case rest of
               x # y # _ \<Rightarrow>
                 if is_special_var x \<and> y = CHR ''}'' then ([x], 3) else scan_brace rest
             | _ \<Rightarrow> scan_brace rest)
          else if is_special_var c then ([c], 1)
          else (let name = takeWhile is_alphanum s in (name, length name)))"

function os_expand :: "(string \<Rightarrow> string) \<Rightarrow> string \<Rightarrow> string" where
  "os_expand f [] = []"
| "os_expand f (c # s) =
     (if c = CHR ''$'' \<and> s \<noteq> [] then
        (let (name, w) = getShellName s in
         (if name = [] \<and> w > 0 then [] else if name = [] then [c] else f name) @
         os_expand f (drop w s))
      else c # os_expand f s)"
  by pat_completeness auto
termination
  by (relation "measure (\<lambda>(f, s). length s)") auto

section \<open>Loading\<close>

definition Load ::
    "(string \<Rightarrow> go_error + string) \<Rightarrow> (string \<Rightarrow> string) \<Rightarrow> (string \<Rightarrow> go_error + config) \<Rightarrow> string \<Rightarrow>
     go_error + config" where
  "Load readFile getenv unmarshal path =
     (case readFile path of
        Inl err \<Rightarrow> Inl (Wrap ''read config file: '' err '''')
      | Inr data \<Rightarrow>
          (case unmarshal (os_expand getenv data) of
             Inl err \<Rightarrow> Inl (Wrap ''parse config: '' err '''')
           | Inr cfg \<Rightarrow>
               (let cfg = (if DBPath cfg = [] then cfg\<lparr>DBPath := ''nitewatch.db''\<rparr> else cfg);
                    cfg = (if ListenAddr cfg = [] then cfg\<lparr>ListenAddr := '':8080''\<rparr> else cfg)
                in Inr cfg)))"

section \<open>What a valid configuration is\<close>

definition limit_text_ok :: "string \<Rightarrow> bool" where
  "limit_text_ok s \<longleftrightarrow> s = [] \<or> set_string s \<noteq> None"

definition limits_ok :: "geth \<Rightarrow> limits_config \<Rightarrow> bool" where
  "limits_ok G lc \<longleftrightarrow>
     (\<forall>(addr, lim) \<in> set lc. is_hex_address G addr \<and> limit_text_ok (lc_Hourly lim) \<and>
        limit_text_ok (lc_Daily lim))"

definition overrides_ok :: "geth \<Rightarrow> (string \<times> limits_config) list \<Rightarrow> bool" where
  "overrides_ok G os \<longleftrightarrow> (\<forall>(user, lc) \<in> set os. is_hex_address G user \<and> limits_ok G lc)"

lemma limits_ok_simps [simp]:
  "limits_ok G []"
  "limits_ok G ((a, l) # rest) \<longleftrightarrow>
     is_hex_address G a \<and> limit_text_ok (lc_Hourly l) \<and> limit_text_ok (lc_Daily l) \<and> limits_ok G rest"
  by (simp_all add: limits_ok_def)

lemma overrides_ok_simps [simp]:
  "overrides_ok G []"
  "overrides_ok G ((u, lc) # rest) \<longleftrightarrow> is_hex_address G u \<and> limits_ok G lc \<and> overrides_ok G rest"
  by (simp_all add: overrides_ok_def)

lemma validateLimitsConfig_iff: "validateLimitsConfig G lc section = None \<longleftrightarrow> limits_ok G lc"
  by (induction G lc "section" rule: validateLimitsConfig.induct) (auto simp: limit_text_ok_def)

lemma validateOverrides_iff: "validateOverrides G os = None \<longleftrightarrow> overrides_ok G os"
  by (induction G os rule: validateOverrides.induct) (auto simp: validateLimitsConfig_iff)

lemma os_expand_no_dollar: "CHR ''$'' \<notin> set s \<Longrightarrow> os_expand f s = s"
  by (induction s) auto

section \<open>Properties of the configuration\<close>

text \<open>
  \<open>Validate\<close> accepts exactly the configurations with a WebSocket URL, a hex contract address, a
  private key, at least one token limit, and hex addresses and base-ten amounts throughout; whether
  it accepts does not depend on the order in which the maps are visited.
\<close>

theorem validate_accepts:
  "Validate G c = None \<longleftrightarrow>
     (prefix ''ws://'' (RPCURL (Blockchain c)) \<or> prefix ''wss://'' (RPCURL (Blockchain c))) \<and>
     is_hex_address G (ContractAddr (Blockchain c)) \<and> PrivateKey (Blockchain c) \<noteq> [] \<and>
     set (Limits c) \<noteq> {} \<and> limits_ok G (Limits c) \<and> overrides_ok G (PerUserOverrides c)"
  by (auto simp: Validate_def validateBlockchain_def validateLimitsConfig_iff validateOverrides_iff
      split: option.splits)

lemma takeWhile_until:
  "CHR ''}'' \<notin> set name \<Longrightarrow> takeWhile (\<lambda>x. x \<noteq> CHR ''}'') (name @ CHR ''}'' # post) = name"
  by (induction name) auto

lemma scan_brace_name:
  assumes "CHR ''}'' \<notin> set name" "name \<noteq> []"
  shows "scan_brace (name @ CHR ''}'' # post) = (name, length name + 2)"
  using assms by (simp add: scan_brace_def takeWhile_until)

lemma getShellName_brace:
  assumes "CHR ''}'' \<notin> set name" "name \<noteq> []"
  shows "getShellName (CHR ''{'' # name @ CHR ''}'' # post) = (name, length name + 2)"
proof -
  note scan = scan_brace_name [OF assms, of post]
  obtain x name' where name: "name = x # name'" using assms(2) by (cases name) auto
  show ?thesis
  proof (cases name')
    case Nil
    then show ?thesis
      using scan by (auto simp: getShellName_def name)
  next
    case (Cons y zs)
    then have "y \<noteq> CHR ''}''" using assms(1) name by auto
    then show ?thesis
      using scan by (simp add: getShellName_def name Cons)
  qed
qed

lemma os_expand_append:
  "CHR ''$'' \<notin> set pre \<Longrightarrow> os_expand f (pre @ s) = pre @ os_expand f s"
  by (induction pre) auto

text \<open>
  A braced variable anywhere after plain text is replaced by its value, which is not expanded
  again, and the text around it is kept.
\<close>

theorem expand_braced:
  assumes "CHR ''$'' \<notin> set pre" "CHR ''}'' \<notin> set name" "name \<noteq> []"
  shows "os_expand f (pre @ ''${'' @ name @ ''}'' @ post) = pre @ f name @ os_expand f post"
  using assms by (simp add: os_expand_append getShellName_brace)

lemma expand_braced_witness:
  "os_expand (\<lambda>v. if v = ''KEY'' then ''a$b'' else '''') (''private_key: '' @ ''${'' @ ''KEY'' @ ''}'' @ '' #'') =
   ''private_key: '' @ ''a$b'' @ '' #''"
  using expand_braced [of "''private_key: ''" "''KEY''" "\<lambda>v. if v = ''KEY'' then ''a$b'' else ''''" "'' #''"]
  by (simp add: os_expand_no_dollar)

text \<open>
  A configuration that loads has a database path and a listen address, the defaults where the
  file gives none, and is otherwise what the decoder made of the expanded file.
\<close>

theorem load_fills_defaults:
  assumes "Load readFile getenv unmarshal path = Inr cfg"
  shows "DBPath cfg \<noteq> [] \<and> ListenAddr cfg \<noteq> [] \<and>
    (\<exists>data raw. readFile path = Inr data \<and> unmarshal (os_expand getenv data) = Inr raw \<and>
       Blockchain cfg = Blockchain raw \<and> Limits cfg = Limits raw \<and>
       PerUserOverrides cfg = PerUserOverrides raw \<and>
       (DBPath raw \<noteq> [] \<longrightarrow> DBPath cfg = DBPath raw) \<and>
       (ListenAddr raw \<noteq> [] \<longrightarrow> ListenAddr cfg = ListenAddr raw))"
  using assms by (auto simp: Load_def Let_def split: sum.splits if_splits)

definition sample_config :: config where
  "sample_config =
     \<lparr>Blockchain = \<lparr>RPCURL = ''http://node'', ContractAddr = ''0x1'', PrivateKey = ''1''\<rparr>,
      Limits = [(''0x5'', \<lparr>lc_Hourly = ''100'', lc_Daily = ''''\<rparr>)], PerUserOverrides = [],
      ListenAddr = '''', DBPath = ''''\<rparr>"

lemma load_fills_defaults_witness:
  "\<exists>cfg. Load (\<lambda>_. Inr '''') (\<lambda>_. '''') (\<lambda>_. Inr sample_config) ''config.yaml'' = Inr cfg \<and>
    DBPath cfg \<noteq> [] \<and> Limits cfg = Limits sample_config"
proof -
  obtain cfg where "Load (\<lambda>_. Inr '''') (\<lambda>_. '''') (\<lambda>_. Inr sample_config) ''config.yaml'' = Inr cfg"
    by (simp add: Load_def sample_config_def)
  with load_fills_defaults [OF this] show ?thesis by auto
qed

end
