(* ===== verification/Checker.thy ===== *)
theory Checker
  imports Custody_Types Go_Num
begin

text \<open>
  \<open>internal/checker/checker.go\<close>: the withdrawal policy. The checker reads the store through the
  interface \<open>custody.WithdrawalStore\<close>, so its correctness is proved once, in the locale
  \<open>withdrawal_store\<close>. Each call of \<open>c.nowFunc()\<close> is an input of the operation that makes it:
  \<open>checkGlobalLimits\<close> and \<open>checkUserLimits\<close> each read the clock once, at different moments.
\<close>

section \<open>Errors and data\<close>

definition ErrNoLimitsConfigured :: string where
  "ErrNoLimitsConfigured = ''no limits configured for token''"
definition ErrHourlyLimitExceeded :: string where
  "ErrHourlyLimitExceeded = ''hourly limit exceeded''"
definition ErrDailyLimitExceeded :: string where
  "ErrDailyLimitExceeded = ''daily limit exceeded''"
definition ErrUserHourlyLimitExceeded :: string where
  "ErrUserHourlyLimitExceeded = ''per-user hourly limit exceeded''"
definition ErrUserDailyLimitExceeded :: string where
  "ErrUserDailyLimitExceeded = ''per-user daily limit exceeded''"
definition ErrInvalidAmount :: string where
  "ErrInvalidAmount = ''amount must be positive''"
definition ErrInvalidUser :: string where
  "ErrInvalidUser = ''user address must not be zero''"

lemmas sentinel_defs = ErrNoLimitsConfigured_def ErrHourlyLimitExceeded_def
  ErrDailyLimitExceeded_def ErrUserHourlyLimitExceeded_def ErrUserDailyLimitExceeded_def
  ErrInvalidAmount_def ErrInvalidUser_def

text \<open>A nil \<open>*big.Int\<close> limit is \<open>None\<close>: that window is not limited.\<close>

record limit =
  Hourly :: "int option"
  Daily :: "int option"

record 's checker =
  globalLimits :: "address \<Rightarrow> limit option"
  userOverrides :: "address \<Rightarrow> (address \<Rightarrow> limit option) option"
  store :: "'s withdrawal_store"

definition checker_New ::
    "(address \<Rightarrow> limit option) \<Rightarrow> (address \<Rightarrow> (address \<Rightarrow> limit option) option) \<Rightarrow>
     's withdrawal_store \<Rightarrow> 's checker" where
  "checker_New gl uo st = \<lparr>globalLimits = gl, userOverrides = uo, store = st\<rparr>"

section \<open>The checks\<close>

text \<open>
  The block both checks repeat for each window: query the total since the start of the window, add
  the amount, compare with the limit.
\<close>

definition window_check ::
    "string \<Rightarrow> (int \<Rightarrow> go_error) \<Rightarrow> (time \<Rightarrow> go_error + int) \<Rightarrow> time \<Rightarrow> time \<Rightarrow> int \<Rightarrow> int \<Rightarrow>
     go_error option" where
  "window_check failed exceeded query_total d now amount lim =
     (case query_total (time_truncate d now) of
        Inl err \<Rightarrow> Some (Wrap failed err '''')
      | Inr tot \<Rightarrow>
          (let newTotal = tot + amount in
           if newTotal > lim then Some (exceeded newTotal) else None))"

definition checkGlobalLimits ::
    "geth \<Rightarrow> 's checker \<Rightarrow> time \<Rightarrow> address \<Rightarrow> int \<Rightarrow> 's \<Rightarrow> go_error option" where
  "checkGlobalLimits G c now token amount s =
     (case globalLimits c token of
        None \<Rightarrow> Some (Wrap '''' (Sentinel ErrNoLimitsConfigured) ('': '' @ addr_hex G token))
      | Some l \<Rightarrow>
          (let exceeded = (\<lambda>sentinel lim newTotal.
                 Wrap '''' (Sentinel sentinel)
                   ('' for '' @ addr_hex G token @ '': '' @ big_string newTotal @ '' > '' @
                    big_string lim));
               query_total = (\<lambda>since. GetTotalWithdrawn (store c) token since s);
               hourly =
                 (case Hourly l of
                    None \<Rightarrow> None
                  | Some lim \<Rightarrow>
                      window_check ''failed to get hourly withdrawn amount: ''
                        (exceeded ErrHourlyLimitExceeded lim) query_total hour now amount lim)
           in case hourly of
                Some err \<Rightarrow> Some err
              | None \<Rightarrow>
                  (case Daily l of
                     None \<Rightarrow> None
                   | Some lim \<Rightarrow>
                       window_check ''failed to get daily withdrawn amount: ''
                         (exceeded ErrDailyLimitExceeded lim) query_total day now amount lim)))"

definition resolveUserLimit :: "'s checker \<Rightarrow> address \<Rightarrow> address \<Rightarrow> limit option" where
  "resolveUserLimit c user token =
     (case userOverrides c user of
        Some userTokens \<Rightarrow> userTokens token
      | None \<Rightarrow> None)"

definition checkUserLimits ::
    "geth \<Rightarrow> 's checker \<Rightarrow> time \<Rightarrow> address \<Rightarrow> address \<Rightarrow> int \<Rightarrow> 's \<Rightarrow> go_error option" where
  "checkUserLimits G c now user token amount s =
     (case resolveUserLimit c user token of
        None \<Rightarrow> None
      | Some l \<Rightarrow>
          (let exceeded = (\<lambda>sentinel lim newTotal.
                 Wrap '''' (Sentinel sentinel)
                   ('' for user '' @ addr_hex G user @ '' token '' @ addr_hex G token @ '': '' @
                    big_string newTotal @ '' > '' @ big_string lim));
               query_total = (\<lambda>since. GetTotalWithdrawnByUser (store c) user token since s);
               hourly =
                 (case Hourly l of
                    None \<Rightarrow> None
                  | Some lim \<Rightarrow>
                      window_check ''failed to get per-user hourly withdrawn amount: ''
                        (exceeded ErrUserHourlyLimitExceeded lim) query_total hour now amount lim)
           in case hourly of
                Some err \<Rightarrow> Some err
              | None \<Rightarrow>
                  (case Daily l of
                     None \<Rightarrow> None
                   | Some lim \<Rightarrow>
                       window_check ''failed to get per-user daily withdrawn amount: ''
                         (exceeded ErrUserDailyLimitExceeded lim) query_total day now amount lim)))"

definition Check ::
    "geth \<Rightarrow> 's checker \<Rightarrow> time \<Rightarrow> time \<Rightarrow> address \<Rightarrow> address \<Rightarrow> int \<Rightarrow> 's \<Rightarrow> go_error option" where
  "Check G c now_global now_user user token amount s =
     (if amount \<le> 0 then Some (Sentinel ErrInvalidAmount)
      else if user = 0 then Some (Sentinel ErrInvalidUser)
      else case checkGlobalLimits G c now_global token amount s of
             Some err \<Rightarrow> Some err
           | None \<Rightarrow> checkUserLimits G c now_user user token amount s)"

definition Record :: "'s checker \<Rightarrow> withdrawal \<Rightarrow> 's \<Rightarrow> go_error option \<times> 's" where
  "Record c w s = Save (store c) w s"

section \<open>What passing the checks means\<close>

text \<open>
  \<open>within lim tot d now amount\<close>: with the amount added, the total since the start of the window
  is at most the limit, if there is one.
\<close>

definition within :: "int option \<Rightarrow> (time \<Rightarrow> int) \<Rightarrow> time \<Rightarrow> time \<Rightarrow> int \<Rightarrow> bool" where
  "within lim tot d now amount \<longleftrightarrow>
     (case lim of None \<Rightarrow> True | Some l \<Rightarrow> tot (time_truncate d now) + amount \<le> l)"

definition limit_respected :: "limit option \<Rightarrow> (time \<Rightarrow> int) \<Rightarrow> time \<Rightarrow> int \<Rightarrow> bool" where
  "limit_respected l tot now amount \<longleftrightarrow>
     (case l of None \<Rightarrow> True
      | Some l \<Rightarrow> within (Hourly l) tot hour now amount \<and> within (Daily l) tot day now amount)"

lemma window_check_None_iff:
  "window_check f ex q d now amount lim = None \<longleftrightarrow>
     (\<exists>tot. q (time_truncate d now) = Inr tot \<and> tot + amount \<le> lim)"
  by (auto simp: window_check_def Let_def split: sum.splits if_splits)

lemma checkGlobalLimits_None_iff:
  "checkGlobalLimits G c now token amount s = None \<longleftrightarrow>
     (\<exists>l. globalLimits c token = Some l \<and>
       (\<forall>lim. Hourly l = Some lim \<longrightarrow>
         (\<exists>tot. GetTotalWithdrawn (store c) token (time_truncate hour now) s = Inr tot \<and> tot + amount \<le> lim)) \<and>
       (\<forall>lim. Daily l = Some lim \<longrightarrow>
         (\<exists>tot. GetTotalWithdrawn (store c) token (time_truncate day now) s = Inr tot \<and> tot + amount \<le> lim)))"
  by (simp add: checkGlobalLimits_def window_check_None_iff Let_def)

lemma checkUserLimits_None_iff:
  "checkUserLimits G c now user token amount s = None \<longleftrightarrow>
     (\<forall>l. resolveUserLimit c user token = Some l \<longrightarrow>
       (\<forall>lim. Hourly l = Some lim \<longrightarrow>
         (\<exists>tot. GetTotalWithdrawnByUser (store c) user token (time_truncate hour now) s = Inr tot \<and>
           tot + amount \<le> lim)) \<and>
       (\<forall>lim. Daily l = Some lim \<longrightarrow>
         (\<exists>tot. GetTotalWithdrawnByUser (store c) user token (time_truncate day now) s = Inr tot \<and>
           tot + amount \<le> lim)))"
  by (simp add: checkUserLimits_def window_check_None_iff Let_def)

lemma Check_None_iff:
  "Check G c ng nu user token amount s = None \<longleftrightarrow>
     0 < amount \<and> user \<noteq> 0 \<and> checkGlobalLimits G c ng token amount s = None \<and>
     checkUserLimits G c nu user token amount s = None"
  by (simp add: Check_def)

section \<open>Properties of the checker over any store\<close>

definition window_ok :: "int option \<Rightarrow> go_error + int \<Rightarrow> int \<Rightarrow> bool" where
  "window_ok lim answer amount \<longleftrightarrow>
     (case lim of None \<Rightarrow> True
      | Some l \<Rightarrow> (case answer of Inl err \<Rightarrow> False | Inr tot \<Rightarrow> tot + amount \<le> l))"

lemma window_ok_iff:
  "window_ok lim r amount \<longleftrightarrow> (\<forall>l. lim = Some l \<longrightarrow> (\<exists>tot. r = Inr tot \<and> tot + amount \<le> l))"
  by (auto simp: window_ok_def split: option.splits sum.splits)

text \<open>
  C10: the policy fails closed. Whatever the store answers, \<open>Check\<close> allows a withdrawal only if the
  amount is positive, the user is not the zero address, the token has limits, and for each of the
  global and per-user windows that is limited the store's answer was a total that stays within the
  limit with the amount added; a failed query blocks the withdrawal.
\<close>

theorem check_fails_closed:
  "Check G c ng nu user token amount s = None \<longleftrightarrow>
     0 < amount \<and> user \<noteq> 0 \<and>
     (\<exists>l. globalLimits c token = Some l \<and>
        window_ok (Hourly l) (GetTotalWithdrawn (store c) token (time_truncate hour ng) s) amount \<and>
        window_ok (Daily l) (GetTotalWithdrawn (store c) token (time_truncate day ng) s) amount) \<and>
     (case resolveUserLimit c user token of None \<Rightarrow> True
      | Some l \<Rightarrow>
          window_ok (Hourly l)
            (GetTotalWithdrawnByUser (store c) user token (time_truncate hour nu) s) amount \<and>
          window_ok (Daily l)
            (GetTotalWithdrawnByUser (store c) user token (time_truncate day nu) s) amount)"
  unfolding Check_None_iff checkGlobalLimits_None_iff checkUserLimits_None_iff window_ok_iff
  by (cases "resolveUserLimit c user token") auto

text \<open>The sentinel an error wraps, which \<open>errors.Is\<close> finds, and the policy without error texts.\<close>

fun sentinel_of :: "go_error \<Rightarrow> string option" where
  "sentinel_of (Sentinel m) = Some m"
| "sentinel_of (Opaque m) = None"
| "sentinel_of (Wrap pre e post) = sentinel_of e"

lemma errors_is_sentinel: "errors_is e t \<longleftrightarrow> sentinel_of e = Some t"
  by (induction e) auto

definition exceeded :: "int option \<Rightarrow> int \<Rightarrow> int \<Rightarrow> bool" where
  "exceeded lim tot amount \<longleftrightarrow> (case lim of None \<Rightarrow> False | Some l \<Rightarrow> tot + amount > l)"

definition policy_verdict ::
    "limit option \<Rightarrow> limit option \<Rightarrow> (time \<Rightarrow> int) \<Rightarrow> (time \<Rightarrow> int) \<Rightarrow> time \<Rightarrow> time \<Rightarrow>
     address \<Rightarrow> int \<Rightarrow> string option" where
  "policy_verdict gl ul tot utot ng nu user amount =
     (if amount \<le> 0 then Some ErrInvalidAmount
      else if user = 0 then Some ErrInvalidUser
      else case gl of
        None \<Rightarrow> Some ErrNoLimitsConfigured
      | Some l \<Rightarrow>
          if exceeded (Hourly l) (tot (time_truncate hour ng)) amount then Some ErrHourlyLimitExceeded
          else if exceeded (Daily l) (tot (time_truncate day ng)) amount then Some ErrDailyLimitExceeded
          else case ul of
            None \<Rightarrow> None
          | Some l \<Rightarrow>
              if exceeded (Hourly l) (utot (time_truncate hour nu)) amount
              then Some ErrUserHourlyLimitExceeded
              else if exceeded (Daily l) (utot (time_truncate day nu)) amount
              then Some ErrUserDailyLimitExceeded
              else None)"

lemma window_check_verdict:
  assumes "q (time_truncate d now) = Inr tot" "\<And>l n. sentinel_of (ex l n) = Some t"
  shows "map_option sentinel_of
      (case lim of None \<Rightarrow> None | Some l \<Rightarrow> window_check f (ex l) q d now amount l) =
    (if exceeded lim tot amount then Some (Some t) else None)"
  using assms by (cases lim) (simp_all add: window_check_def exceeded_def)

lemma map_first_error:
  "map_option g (case r of None \<Rightarrow> k | Some e \<Rightarrow> Some e) =
     (case map_option g r of None \<Rightarrow> map_option g k | Some x \<Rightarrow> Some x)"
  by (cases r) simp_all

lemma global_verdict:
  assumes "\<And>t. GetTotalWithdrawn (store c) token t s = Inr (tot t)"
  shows "map_option sentinel_of (checkGlobalLimits G c now token amount s) =
    (case globalLimits c token of
       None \<Rightarrow> Some (Some ErrNoLimitsConfigured)
     | Some l \<Rightarrow>
         if exceeded (Hourly l) (tot (time_truncate hour now)) amount
         then Some (Some ErrHourlyLimitExceeded)
         else if exceeded (Daily l) (tot (time_truncate day now)) amount
         then Some (Some ErrDailyLimitExceeded)
         else None)"
  by (cases "globalLimits c token")
    (simp_all add: checkGlobalLimits_def Let_def map_first_error window_check_verdict assms)

lemma user_verdict:
  assumes "\<And>t. GetTotalWithdrawnByUser (store c) user token t s = Inr (tot t)"
  shows "map_option sentinel_of (checkUserLimits G c now user token amount s) =
    (case resolveUserLimit c user token of
       None \<Rightarrow> None
     | Some l \<Rightarrow>
         if exceeded (Hourly l) (tot (time_truncate hour now)) amount
         then Some (Some ErrUserHourlyLimitExceeded)
         else if exceeded (Daily l) (tot (time_truncate day now)) amount
         then Some (Some ErrUserDailyLimitExceeded)
         else None)"
  by (cases "resolveUserLimit c user token")
    (simp_all add: checkUserLimits_def Let_def map_first_error window_check_verdict assms)

lemma Check_verdict:
  assumes "\<And>t. GetTotalWithdrawn (store c) token t s = Inr (tot t)"
    and "\<And>t. GetTotalWithdrawnByUser (store c) user token t s = Inr (utot t)"
  shows "map_option sentinel_of (Check G c ng nu user token amount s) =
    map_option Some (policy_verdict (globalLimits c token) (resolveUserLimit c user token)
      tot utot ng nu user amount)"
proof -
  note verdicts = global_verdict [of c token s tot, OF assms(1)]
    user_verdict [of c user token s utot, OF assms(2)]
  show ?thesis
    by (cases "globalLimits c token"; cases "resolveUserLimit c user token")
      (simp_all add: Check_def policy_verdict_def map_first_error verdicts del: first_error_None)
qed

section \<open>Correctness over any store that keeps its contract\<close>

text \<open>
  A checker whose store is an implementation of the interface. The limits may be any.
\<close>

locale checked_store = withdrawal_store impl lawful inv spent
  for impl :: "'p \<Rightarrow> 's withdrawal_store"
    and lawful :: "'p \<Rightarrow> bool"
    and inv :: "'s \<Rightarrow> bool"
    and spent :: "'p \<Rightarrow> address option \<Rightarrow> address \<Rightarrow> time \<Rightarrow> 's \<Rightarrow> int" +
  fixes chk :: "'p \<Rightarrow> 's checker"
  assumes store_chk: "store (chk p) = impl p"
begin

lemma global_sound:
  assumes "lawful p" "inv s" "checkGlobalLimits G (chk p) now token amount s = None"
  shows "globalLimits (chk p) token \<noteq> None"
    and "limit_respected (globalLimits (chk p) token) (\<lambda>since. spent p None token since s) now amount"
  using assms(3) total [OF assms(1,2)] unfolding checkGlobalLimits_None_iff store_chk
  by (fastforce simp: limit_respected_def within_def split: option.splits)+

lemma user_sound:
  assumes "lawful p" "inv s" "checkUserLimits G (chk p) now user token amount s = None"
  shows "limit_respected (resolveUserLimit (chk p) user token)
    (\<lambda>since. spent p (Some user) token since s) now amount"
  using assms(3) total_by_user [OF assms(1,2)] unfolding checkUserLimits_None_iff store_chk
  by (fastforce simp: limit_respected_def within_def split: option.splits)

lemma check_sound:
  assumes "lawful p" "inv s" "Check G (chk p) ng nu user token amount s = None"
  shows "0 < amount" "user \<noteq> 0" "globalLimits (chk p) token \<noteq> None"
    and "limit_respected (globalLimits (chk p) token) (\<lambda>since. spent p None token since s) ng amount"
    and "limit_respected (resolveUserLimit (chk p) user token)
      (\<lambda>since. spent p (Some user) token since s) nu amount"
  using assms(3) global_sound [OF assms(1,2)] user_sound [OF assms(1,2)]
  by (auto simp: Check_None_iff)

lemma check_complete:
  assumes "lawful p" "inv s"
    and "\<And>since. \<not> isl (GetTotalWithdrawn (impl p) token since s)"
    and "\<And>since. \<not> isl (GetTotalWithdrawnByUser (impl p) user token since s)"
    and "0 < amount" "user \<noteq> 0" "globalLimits (chk p) token \<noteq> None"
    and "limit_respected (globalLimits (chk p) token) (\<lambda>since. spent p None token since s) ng amount"
    and "limit_respected (resolveUserLimit (chk p) user token)
      (\<lambda>since. spent p (Some user) token since s) nu amount"
  shows "Check G (chk p) ng nu user token amount s = None"
proof -
  have "\<exists>n. GetTotalWithdrawn (impl p) token since s = Inr n \<and> n = spent p None token since s" for since
    using assms(3) [of since] total [OF assms(1,2)]
    by (cases "GetTotalWithdrawn (impl p) token since s") auto
  moreover have "\<exists>n. GetTotalWithdrawnByUser (impl p) user token since s = Inr n \<and>
      n = spent p (Some user) token since s" for since
    using assms(4) [of since] total_by_user [OF assms(1,2)]
    by (cases "GetTotalWithdrawnByUser (impl p) user token since s") auto
  ultimately show ?thesis
    using assms(5-9)
    unfolding Check_None_iff checkGlobalLimits_None_iff checkUserLimits_None_iff store_chk
    by (auto simp: limit_respected_def within_def split: option.splits)
qed

end

end
