(* ===== verification/Limits.thy ===== *)
theory Limits
  imports Config Checker
begin

text \<open>
  From the configuration to the checker's limits: \<open>parseLimitsConfig\<close> and \<open>parseUserOverrides\<close> of
  \<open>service/service.go\<close>. The loops build a Go map keyed by the parsed address, so a later entry with
  the same address replaces an earlier one.
\<close>

section \<open>The parsers\<close>

definition parse_limit_text :: "string \<Rightarrow> go_error \<Rightarrow> go_error + int option" where
  "parse_limit_text s err =
     (if s \<noteq> [] then (case set_string s of None \<Rightarrow> Inl err | Some val \<Rightarrow> Inr (Some val))
      else Inr None)"

fun parse_limits_loop ::
    "geth \<Rightarrow> limits_config \<Rightarrow> (address \<Rightarrow> limit option) \<Rightarrow> go_error + (address \<Rightarrow> limit option)" where
  "parse_limits_loop G [] limits = Inr limits"
| "parse_limits_loop G ((addrStr, conf) # rest) limits =
     (if \<not> is_hex_address G addrStr then Inl (Opaque (''invalid address: '' @ addrStr))
      else
        (let addr = hex_to_address G addrStr in
         case parse_limit_text (lc_Hourly conf)
                (Opaque (''invalid hourly limit for '' @ addrStr @ '': '' @ lc_Hourly conf)) of
           Inl err \<Rightarrow> Inl err
         | Inr hourly \<Rightarrow>
             (case parse_limit_text (lc_Daily conf)
                     (Opaque (''invalid daily limit for '' @ addrStr @ '': '' @ lc_Daily conf)) of
                Inl err \<Rightarrow> Inl err
              | Inr daily \<Rightarrow>
                  parse_limits_loop G rest (limits(addr \<mapsto> \<lparr>Hourly = hourly, Daily = daily\<rparr>)))))"

definition parseLimitsConfig :: "geth \<Rightarrow> limits_config \<Rightarrow> go_error + (address \<Rightarrow> limit option)" where
  "parseLimitsConfig G lc = parse_limits_loop G lc Map.empty"

fun parse_overrides_loop ::
    "geth \<Rightarrow> (string \<times> limits_config) list \<Rightarrow> (address \<Rightarrow> (address \<Rightarrow> limit option) option) \<Rightarrow>
     go_error + (address \<Rightarrow> (address \<Rightarrow> limit option) option)" where
  "parse_overrides_loop G [] result = Inr result"
| "parse_overrides_loop G ((userAddrStr, tokenLimits) # rest) result =
     (if \<not> is_hex_address G userAddrStr
      then Inl (Opaque (''invalid user address in per_user_overrides: '' @ userAddrStr))
      else
        (let userAddr = hex_to_address G userAddrStr in
         case parseLimitsConfig G tokenLimits of
           Inl err \<Rightarrow> Inl (Wrap (''per-user overrides for '' @ userAddrStr @ '': '') err '''')
         | Inr parsed \<Rightarrow> parse_overrides_loop G rest (result(userAddr \<mapsto> parsed))))"

definition parseUserOverrides ::
    "geth \<Rightarrow> (string \<times> limits_config) list \<Rightarrow>
     go_error + (address \<Rightarrow> (address \<Rightarrow> limit option) option)" where
  "parseUserOverrides G os = parse_overrides_loop G os Map.empty"

section \<open>Their results\<close>

text \<open>The limit an entry of the configuration stands for.\<close>

definition limit_of :: "limit_config \<Rightarrow> limit" where
  "limit_of conf = \<lparr>Hourly = set_string (lc_Hourly conf), Daily = set_string (lc_Daily conf)\<rparr>"

definition limit_entries :: "geth \<Rightarrow> limits_config \<Rightarrow> (address \<times> limit) list" where
  "limit_entries G lc = map (\<lambda>(a, conf). (hex_to_address G a, limit_of conf)) lc"

lemma parse_limit_text_iff:
  "parse_limit_text s err = Inr v \<longleftrightarrow> limit_text_ok s \<and> v = set_string s"
  by (auto simp: parse_limit_text_def limit_text_ok_def set_string_def split: option.splits)

lemma parse_limit_text_ok: "limit_text_ok s \<Longrightarrow> parse_limit_text s err = Inr (set_string s)"
  by (simp add: parse_limit_text_iff)

lemma map_of_rev_Cons: "m ++ map_of (rev ((k, v) # es)) = m(k \<mapsto> v) ++ map_of (rev es)"
  by simp

lemma parse_limits_loop_iff:
  "parse_limits_loop G lc m = Inr r \<longleftrightarrow>
     limits_ok G lc \<and> r = m ++ map_of (rev (limit_entries G lc))"
proof (induction lc arbitrary: m)
  case (Cons p rest)
  obtain a conf where p: "p = (a, conf)" by (cases p)
  have ents: "limit_entries G (p # rest) = (hex_to_address G a, limit_of conf) # limit_entries G rest"
    by (simp add: p limit_entries_def)
  show ?case
  proof (cases "is_hex_address G a \<and> limit_text_ok (lc_Hourly conf) \<and> limit_text_ok (lc_Daily conf)")
    case True
    then have step: "parse_limits_loop G (p # rest) m =
        parse_limits_loop G rest (m(hex_to_address G a \<mapsto> limit_of conf))"
      by (simp add: p parse_limit_text_ok limit_of_def)
    have "limits_ok G (p # rest) = limits_ok G rest"
      using True by (simp add: p)
    then show ?thesis
      by (simp only: step ents map_of_rev_Cons Cons.IH)
  next
    case False
    then have "\<nexists>r. parse_limits_loop G (p # rest) m = Inr r"
      by (auto simp: p parse_limit_text_iff Let_def split: sum.splits)
    with False show ?thesis by (auto simp: p)
  qed
qed (auto simp: limit_entries_def)

lemma parseLimitsConfig_iff:
  "parseLimitsConfig G lc = Inr r \<longleftrightarrow> limits_ok G lc \<and> r = map_of (rev (limit_entries G lc))"
  by (simp add: parseLimitsConfig_def parse_limits_loop_iff)

lemma limits_ok_set: "set lc = set lc' \<Longrightarrow> limits_ok G lc = limits_ok G lc'"
  by (simp add: limits_ok_def)

definition override_entries ::
    "geth \<Rightarrow> (string \<times> limits_config) list \<Rightarrow> (address \<times> (address \<Rightarrow> limit option)) list" where
  "override_entries G os =
     map (\<lambda>(u, lc). (hex_to_address G u, map_of (rev (limit_entries G lc)))) os"

lemma parse_overrides_loop_iff:
  "parse_overrides_loop G os m = Inr r \<longleftrightarrow>
     overrides_ok G os \<and> r = m ++ map_of (rev (override_entries G os))"
proof (induction os arbitrary: m)
  case (Cons p rest)
  obtain u lc where p: "p = (u, lc)" by (cases p)
  have ents: "override_entries G (p # rest) =
      (hex_to_address G u, map_of (rev (limit_entries G lc))) # override_entries G rest"
    by (simp add: p override_entries_def)
  show ?case
  proof (cases "is_hex_address G u \<and> limits_ok G lc")
    case True
    then have "parseLimitsConfig G lc = Inr (map_of (rev (limit_entries G lc)))"
      by (simp add: parseLimitsConfig_iff)
    then have step: "parse_overrides_loop G (p # rest) m =
        parse_overrides_loop G rest (m(hex_to_address G u \<mapsto> map_of (rev (limit_entries G lc))))"
      using True by (simp add: p)
    have "overrides_ok G (p # rest) = overrides_ok G rest"
      using True by (simp add: p)
    then show ?thesis
      by (simp only: step ents map_of_rev_Cons Cons.IH)
  next
    case False
    then have "\<nexists>r. parse_overrides_loop G (p # rest) m = Inr r"
      by (auto simp: p parseLimitsConfig_iff Let_def split: sum.splits)
    with False show ?thesis by (auto simp: p)
  qed
qed (auto simp: override_entries_def)

lemma parseUserOverrides_iff:
  "parseUserOverrides G os = Inr r \<longleftrightarrow> overrides_ok G os \<and> r = map_of (rev (override_entries G os))"
  by (simp add: parseUserOverrides_def parse_overrides_loop_iff)

lemma map_of_rev_perm:
  assumes "distinct (map fst xs)" "mset xs = mset ys"
  shows "map_of (rev xs) = map_of (rev ys)"
proof -
  have "distinct (map fst ys)"
    using assms mset_eq_imp_distinct_iff [of "map fst xs" "map fst ys"] by (metis mset_map)
  then show ?thesis
    using assms(1) mset_eq_setD [OF assms(2)]
    by (simp add: map_of_inject_set rev_map [symmetric])
qed

section \<open>Properties of the limits\<close>

text \<open>
  C30: validation and parsing, which are written separately in two packages, agree: limits and
  overrides pass \<open>Validate\<close>'s loops exactly when the service's parsers accept them, and \<open>Validate\<close>
  accepts a configuration exactly when its blockchain part is valid, it has a limit and both parse.
\<close>

theorem validation_agrees_with_parsing:
  "(validateLimitsConfig G lc section = None \<longleftrightarrow> (\<exists>m. parseLimitsConfig G lc = Inr m)) \<and>
   (validateOverrides G os = None \<longleftrightarrow> (\<exists>m. parseUserOverrides G os = Inr m)) \<and>
   (Validate G c = None \<longleftrightarrow>
      validateBlockchain G (Blockchain c) = None \<and> Limits c \<noteq> [] \<and>
      (\<exists>m. parseLimitsConfig G (Limits c) = Inr m) \<and>
      (\<exists>m. parseUserOverrides G (PerUserOverrides c) = Inr m))"
proof -
  note iffs = validateLimitsConfig_iff validateOverrides_iff parseLimitsConfig_iff parseUserOverrides_iff
  have "Validate G c = None \<longleftrightarrow> validateBlockchain G (Blockchain c) = None \<and> Limits c \<noteq> [] \<and>
      limits_ok G (Limits c) \<and> overrides_ok G (PerUserOverrides c)"
    by (simp add: Validate_def iffs split: option.split)
  then show ?thesis by (simp add: iffs)
qed

text \<open>
  So a configuration that \<open>Validate\<close> accepts always parses: the service cannot fail on its limits
  after validation.
\<close>

theorem validated_config_parses:
  assumes "Validate G c = None" "set lims = set (Limits c)" "set os = set (PerUserOverrides c)"
  shows "(\<exists>m. parseLimitsConfig G lims = Inr m) \<and> (\<exists>m. parseUserOverrides G os = Inr m)"
proof -
  have "limits_ok G (Limits c)" "overrides_ok G (PerUserOverrides c)"
    using assms(1)
    by (auto simp: Validate_def validateLimitsConfig_iff validateOverrides_iff
        split: option.splits if_splits)
  then have "limits_ok G lims" "overrides_ok G os"
    using assms(2,3) by (simp_all add: limits_ok_def overrides_ok_def)
  then show ?thesis by (simp add: parseLimitsConfig_iff parseUserOverrides_iff)
qed

definition valid_config :: config where
  "valid_config = sample_config\<lparr>Blockchain := \<lparr>RPCURL = ''ws://node'', ContractAddr = ''0x1'', PrivateKey = ''1''\<rparr>\<rparr>"

lemma sample_limits_ok: "limits_ok plain_geth (Limits sample_config)"
  by (simp add: sample_config_def plain_geth_def digit_val_def limit_text_ok_def set_string_def
      scan_nat_def)

lemma valid_config_valid: "Validate plain_geth valid_config = None"
proof -
  have "is_hex_address plain_geth ''0x1''"
    by (simp add: plain_geth_def digit_val_def)
  moreover have "Limits sample_config \<noteq> []" "PerUserOverrides sample_config = []"
    by (simp_all add: sample_config_def)
  ultimately show ?thesis
    using sample_limits_ok
    by (simp add: Validate_def validateBlockchain_def valid_config_def validateLimitsConfig_iff)
qed

lemma validated_config_parses_witness:
  "\<exists>m. parseLimitsConfig plain_geth (Limits valid_config) = Inr m"
  using validated_config_parses [OF valid_config_valid refl refl] by blast

text \<open>
  When no two entries of the limits name the same token, the parsed limits hold exactly the
  configured ones and do not depend on the order in which the map is visited.
\<close>

theorem limits_order_independent:
  assumes "parseLimitsConfig G lc = Inr m" "distinct (map (\<lambda>(a, conf). hex_to_address G a) lc)"
    and "mset lc' = mset lc"
  shows "parseLimitsConfig G lc' = Inr m \<and>
    (\<forall>(a, conf) \<in> set lc. m (hex_to_address G a) =
       Some \<lparr>Hourly = set_string (lc_Hourly conf), Daily = set_string (lc_Daily conf)\<rparr>) \<and>
    dom m = (\<lambda>(a, conf). hex_to_address G a) ` set lc"
proof -
  from assms(1) have ok: "limits_ok G lc" and m: "m = map_of (rev (limit_entries G lc))"
    by (simp_all add: parseLimitsConfig_iff)
  have fst: "map fst (limit_entries G lc) = map (\<lambda>(a, conf). hex_to_address G a) lc"
    by (auto simp: limit_entries_def)
  then have dist: "distinct (map fst (limit_entries G lc))" using assms(2) by simp
  have "mset (limit_entries G lc) = mset (limit_entries G lc')"
    using assms(3) by (simp add: limit_entries_def)
  then have "parseLimitsConfig G lc' = Inr m"
    using ok assms(3) map_of_rev_perm [OF dist] m
    by (metis limits_ok_set mset_eq_setD parseLimitsConfig_iff)
  moreover have "m (hex_to_address G a) = Some (limit_of conf)" if "(a, conf) \<in> set lc" for a conf
  proof -
    have "(hex_to_address G a, limit_of conf) \<in> set (rev (limit_entries G lc))"
      using that by (force simp: limit_entries_def)
    moreover have "distinct (map fst (rev (limit_entries G lc)))"
      using dist by (simp add: rev_map [symmetric])
    ultimately show ?thesis by (simp add: m map_of_is_SomeI)
  qed
  moreover have "dom m = (\<lambda>(a, conf). hex_to_address G a) ` set lc"
    using arg_cong [OF fst, of set] by (simp add: m dom_map_of_conv_image_fst)
  ultimately show ?thesis by (auto simp: limit_of_def)
qed

definition two_tokens :: limits_config where
  "two_tokens =
     [(''0x5'', \<lparr>lc_Hourly = ''100'', lc_Daily = ''''\<rparr>), (''0xa'', \<lparr>lc_Hourly = '''', lc_Daily = ''7''\<rparr>)]"

lemma limits_order_independent_witness:
  "\<exists>m. parseLimitsConfig plain_geth two_tokens = Inr m \<and>
    parseLimitsConfig plain_geth (rev two_tokens) = Inr m"
proof -
  have "limits_ok plain_geth two_tokens"
    by (simp add: two_tokens_def plain_geth_def digit_val_def limit_text_ok_def set_string_def
        scan_nat_def)
  then obtain m where m: "parseLimitsConfig plain_geth two_tokens = Inr m"
    by (simp add: parseLimitsConfig_iff)
  have "distinct (map (\<lambda>(a, conf). hex_to_address plain_geth a) two_tokens)"
    by (simp add: two_tokens_def plain_geth_def digit_val_def)
  from limits_order_independent [OF m this, of "rev two_tokens"] m show ?thesis by simp
qed

text \<open>
  Two spellings of one address make the limit depend on the order in which Go visits the map: the
  entry visited last wins, and validation accepts both.
\<close>

theorem spelling_decides_by_order:
  "let e1 = (''0xa'', \<lparr>lc_Hourly = ''100'', lc_Daily = ''''\<rparr>);
       e2 = (''0xA'', \<lparr>lc_Hourly = ''9'', lc_Daily = ''''\<rparr>)
   in validateLimitsConfig plain_geth [e1, e2] ''limits'' = None \<and>
      map_option Hourly (projr (parseLimitsConfig plain_geth [e1, e2]) 10) = Some (Some 9) \<and>
      map_option Hourly (projr (parseLimitsConfig plain_geth [e2, e1]) 10) = Some (Some 100)"
  by (simp add: Let_def plain_geth_def digit_val_def set_string_def scan_nat_def
      parseLimitsConfig_def parse_limit_text_def)

end
