(* ===== verification/Service.thy ===== *)
theory Service
  imports Store Listener Limits
begin

text \<open>
  \<open>service/service.go\<close>: building the service from its configuration, the decision on one
  withdrawal (\<open>processWithdrawal\<close>) and the worker's loop over the events of the listener. The node
  and the database are parameters: for every event a \<open>step_env\<close> says how they behave while it is
  handled and what the clock shows. The logger has no effect on the state; how the goroutines of the
  worker start and end together is in theory Lifecycle.
\<close>

section \<open>The service and its construction\<close>

text \<open>The health endpoint's server: an engine without routes behind an address.\<close>

record http_server =
  hs_Addr :: string

definition newHTTPServer :: "string \<Rightarrow> http_server" where
  "newHTTPServer addr = \<lparr>hs_Addr = addr\<rparr>"

record service =
  svc_Config :: config
  svc_web :: http_server
  svc_contract :: bound_contract
  svc_listener :: listener
  svc_auth :: transact_opts
  svc_checker :: "db checker"
  svc_store :: gorm
  svc_workerReady :: u32

text \<open>
  What \<open>New\<close> and \<open>NewWithBackend\<close> call outside \<open>src/\<close>: dialling the node, opening the database, the
  chain id, parsing the key, building the transactor, and the generic contract wrapper with the parsed
  ABI. \<open>'c\<close> is the client,
  \<open>'k\<close> the private key.
\<close>

record ('c, 'k) backends =
  be_Dial :: "string \<Rightarrow> go_error + 'c"
  be_GormOpen :: "string \<Rightarrow> go_error + gorm"
  be_ChainID :: "'c \<Rightarrow> go_error + int"
  be_HexToECDSA :: "string \<Rightarrow> go_error + 'k"
  be_NewTransactor :: "'k \<Rightarrow> int \<Rightarrow> go_error + transact_opts"
  be_GetAbi :: "go_error + abi"
  be_NewBoundContract :: "'c new_bound"

definition NewWithBackend ::
    "geth \<Rightarrow> ('c, 'k) backends \<Rightarrow> config \<Rightarrow> 'c \<Rightarrow> db \<Rightarrow> (go_error + service) \<times> db" where
  "NewWithBackend G B conf client d =
     (let srv = newHTTPServer (ListenAddr conf) in
      case be_GormOpen B (DBPath conf) of
        Inl err \<Rightarrow> (Inl (Wrap ''failed to open database: '' err ''''), d)
      | Inr gormDB \<Rightarrow>
     (case NewAdapter gormDB d of
        (Inl err, d) \<Rightarrow> (Inl (Wrap ''failed to initialize database: '' err ''''), d)
      | (Inr db, d) \<Rightarrow>
     (case parseLimitsConfig G (Limits conf) of
        Inl err \<Rightarrow> (Inl (Wrap ''failed to parse global limits: '' err ''''), d)
      | Inr glimits \<Rightarrow>
     (case parseUserOverrides G (PerUserOverrides conf) of
        Inl err \<Rightarrow> (Inl (Wrap ''failed to parse per-user overrides: '' err ''''), d)
      | Inr overrides \<Rightarrow>
     (let chk = checker_New glimits overrides (adapter (G, db)) in
      case be_ChainID B client of
        Inl err \<Rightarrow> (Inl (Wrap ''failed to get chain ID: '' err ''''), d)
      | Inr chainID \<Rightarrow>
     (case be_HexToECDSA B (PrivateKey (Blockchain conf)) of
        Inl err \<Rightarrow> (Inl (Wrap ''failed to parse private key: '' err ''''), d)
      | Inr key \<Rightarrow>
     (case be_NewTransactor B key chainID of
        Inl err \<Rightarrow> (Inl (Wrap ''failed to create transactor: '' err ''''), d)
      | Inr auth \<Rightarrow>
     (let addr = hex_to_address G (ContractAddr (Blockchain conf)) in
      case NewIWithdraw (be_GetAbi B) (be_NewBoundContract B) addr client of
        Inl err \<Rightarrow> (Inl (Wrap ''failed to bind IWithdraw contract: '' err ''''), d)
      | Inr withdrawContract \<Rightarrow>
          (Inr \<lparr>svc_Config = conf, svc_web = srv, svc_contract = withdrawContract,
                svc_listener = NewListener addr (Some withdrawContract) None, svc_auth = auth,
                svc_checker = chk, svc_store = db, svc_workerReady = 0\<rparr>, d)))))))))"

definition service_New ::
    "geth \<Rightarrow> ('c, 'k) backends \<Rightarrow> config \<Rightarrow> db \<Rightarrow> (go_error + service) \<times> db" where
  "service_New G B conf d =
     (case be_Dial B (RPCURL (Blockchain conf)) of
        Inl err \<Rightarrow> (Inl (Wrap ''failed to connect to Ethereum RPC: '' err ''''), d)
      | Inr client \<Rightarrow>
          (case NewWithBackend G B conf client d of
             (Inl err, d') \<Rightarrow> (Inl err, d')
           | (Inr svc, d') \<Rightarrow> (Inr svc, d')))"

definition IsWorkerReady :: "service \<Rightarrow> bool" where
  "IsWorkerReady svc \<longleftrightarrow> svc_workerReady svc = 1"

definition setWorkerReady :: "service \<Rightarrow> service" where
  "setWorkerReady svc = svc\<lparr>svc_workerReady := 1\<rparr>"

text \<open>
  \<open>cmd/nitewatch/main.go\<close>: the process exits with status 1, or runs the worker of a service.
\<close>

datatype main_result = Exit1 | RunWorker service

definition nitewatch_main ::
    "geth \<Rightarrow> ('c, 'k) backends \<Rightarrow> (string \<Rightarrow> go_error + string) \<Rightarrow> (string \<Rightarrow> string) \<Rightarrow>
     (string \<Rightarrow> go_error + config) \<Rightarrow> string list \<Rightarrow> db \<Rightarrow> main_result \<times> db" where
  "nitewatch_main G B readFile getenv unmarshal args d =
     (if length args < 2 \<or> args ! 1 \<noteq> ''worker'' then (Exit1, d)
      else
        (let configPath = getenv ''NITEWATCH_CONFIG'';
             configPath = (if configPath = [] then ''config.yaml'' else configPath)
         in case Load readFile getenv unmarshal configPath of
              Inl err \<Rightarrow> (Exit1, d)
            | Inr conf \<Rightarrow>
                (case service_New G B conf d of
                   (Inl err, d') \<Rightarrow> (Exit1, d')
                 | (Inr svc, d') \<Rightarrow> (RunWorker svc, d'))))"

section \<open>One withdrawal\<close>

record receipt =
  rc_Status :: u64
  rc_BlockNumber :: int

text \<open>
  How the database, the contract wrapper and the node behave during one event, and the clock at the
  three places it is read: in the two checks and for the record. \<open>env_auth\<close> is \<open>svc.auth\<close>.
\<close>

record step_env =
  env_gorm :: gorm
  env_contract :: bound_contract
  env_auth :: transact_opts
  env_wait_mined :: "eth_tx \<Rightarrow> go_error + receipt"
  now_global :: time
  now_user :: time
  now_record :: time

text \<open>The transactions the service got sent, in order.\<close>

datatype sent_tx = SentFinalize hash eth_tx | SentReject hash eth_tx

fun sent_id :: "sent_tx \<Rightarrow> hash" where
  "sent_id (SentFinalize i tx) = i"
| "sent_id (SentReject i tx) = i"

record svc_state =
  st_db :: db
  st_sent :: "sent_tx list"

definition recordEvent :: "gorm \<Rightarrow> withdraw_event_model \<Rightarrow> svc_state \<Rightarrow> svc_state" where
  "recordEvent E ev st = st\<lparr>st_db := snd (RecordWithdrawEvent E ev (st_db st))\<rparr>"

definition base_model :: "geth \<Rightarrow> withdraw_started_event \<Rightarrow> withdraw_event_model" where
  "base_model G event =
     \<lparr>we_ID = 0, we_WithdrawalID = hash_hex G (ws_WithdrawalID event),
      we_UserAddress = addr_hex G (ws_User event),
      we_TokenAddress = addr_hex G (ws_Token event),
      we_Amount = big_string (ws_Amount event),
      we_Decision = '''', we_Reason = '''',
      we_BlockNumber = ws_BlockNumber event,
      we_TxHash = hash_hex G (ws_TxHash event),
      we_LogIndex = ws_LogIndex event,
      we_CreatedAt = 0\<rparr>"

definition decide :: "withdraw_event_model \<Rightarrow> string \<Rightarrow> string \<Rightarrow> withdraw_event_model" where
  "decide m decision reason = m\<lparr>we_Decision := decision, we_Reason := reason\<rparr>"

text \<open>The branch of a withdrawal the policy blocks.\<close>

definition reject_withdrawal ::
    "geth \<Rightarrow> step_env \<Rightarrow> withdraw_started_event \<Rightarrow> go_error \<Rightarrow> svc_state \<Rightarrow> svc_state" where
  "reject_withdrawal G env event err st =
     (let E = env_gorm env; baseModel = base_model G event; txAuth = env_auth env in
      case RejectWithdraw (env_contract env) txAuth (ws_WithdrawalID event) of
        Inl txErr \<Rightarrow>
          recordEvent E (decide baseModel ''error'' (''reject tx failed: '' @ err_msg txErr)) st
      | Inr tx \<Rightarrow>
          (let st = st\<lparr>st_sent := st_sent st @ [SentReject (ws_WithdrawalID event) tx]\<rparr> in
           case env_wait_mined env tx of
             Inl txErr \<Rightarrow>
               recordEvent E
                 (decide baseModel ''error'' (''reject tx mining failed: '' @ err_msg txErr)) st
           | Inr _ \<Rightarrow> recordEvent E (decide baseModel ''rejected'' (err_msg err)) st))"

definition withdrawal_record ::
    "step_env \<Rightarrow> withdraw_started_event \<Rightarrow> eth_tx \<Rightarrow> receipt \<Rightarrow> withdrawal" where
  "withdrawal_record env event tx receipt =
     \<lparr>wd_WithdrawalID = ws_WithdrawalID event, wd_User = ws_User event, wd_Token = ws_Token event,
      wd_Amount = ws_Amount event, wd_BlockNumber = word_of_int (rc_BlockNumber receipt),
      wd_TxHash = tx_Hash tx, wd_Timestamp = now_record env\<rparr>"

text \<open>
  The branch of a withdrawal the policy allows. An error of \<open>Record\<close> is logged only.
\<close>

definition finalize_withdrawal ::
    "geth \<Rightarrow> db checker \<Rightarrow> step_env \<Rightarrow> withdraw_started_event \<Rightarrow> svc_state \<Rightarrow> svc_state" where
  "finalize_withdrawal G chk env event st =
     (let E = env_gorm env; baseModel = base_model G event; txAuth = env_auth env in
      case FinalizeWithdraw (env_contract env) txAuth (ws_WithdrawalID event) of
        Inl err \<Rightarrow>
          recordEvent E (decide baseModel ''error'' (''finalize tx failed: '' @ err_msg err)) st
      | Inr tx \<Rightarrow>
          (let st = st\<lparr>st_sent := st_sent st @ [SentFinalize (ws_WithdrawalID event) tx]\<rparr> in
           case env_wait_mined env tx of
             Inl err \<Rightarrow>
               recordEvent E
                 (decide baseModel ''error'' (''finalize tx mining failed: '' @ err_msg err)) st
           | Inr receipt \<Rightarrow>
               if rc_Status receipt = 1 then
                 (let record = withdrawal_record env event tx receipt;
                      st = st\<lparr>st_db := snd (Record chk record (st_db st))\<rparr>
                  in recordEvent E (decide baseModel ''approved'' '''') st)
               else
                 recordEvent E
                   (decide baseModel ''error'' ''finalize tx reverted on-chain'') st))"

text \<open>
  The checker's store is the adapter over the database as it behaves during this event.
\<close>

definition step_checker :: "geth \<Rightarrow> db checker \<Rightarrow> step_env \<Rightarrow> db checker" where
  "step_checker G chk env = chk\<lparr>store := adapter (G, env_gorm env)\<rparr>"

interpretation step_check: checked_store adapter lawful db_ok adapter_spent
  "\<lambda>p. c\<lparr>store := adapter p\<rparr>" for c
  by unfold_locales simp

definition processWithdrawal ::
    "geth \<Rightarrow> db checker \<Rightarrow> step_env \<Rightarrow> withdraw_started_event \<Rightarrow> svc_state \<Rightarrow> svc_state" where
  "processWithdrawal G chk0 env event st =
     (let wID = hash_hex G (ws_WithdrawalID event); chk = step_checker G chk0 env in
      if HasWithdrawEvent (env_gorm env) wID (st_db st) then st
      else case Check G chk (now_global env) (now_user env)
                  (ws_User event) (ws_Token event) (ws_Amount event) (st_db st) of
             Some err \<Rightarrow> reject_withdrawal G env event err st
           | None \<Rightarrow> finalize_withdrawal G chk env event st)"

section \<open>The worker\<close>

text \<open>
  Where the watcher starts: the stored cursor, or the zero values when reading it fails; and the
  loop \<open>for event := range withdrawals\<close>.
\<close>

definition worker_start :: "gorm \<Rightarrow> db \<Rightarrow> u64 \<times> u32" where
  "worker_start E d =
     (case GetCursor E withdraw_started_stream d of
        Inl err \<Rightarrow> (0, 0)
      | Inr c \<Rightarrow> c)"

fun worker_loop ::
    "geth \<Rightarrow> db checker \<Rightarrow> (step_env \<times> withdraw_started_event) list \<Rightarrow> svc_state \<Rightarrow> svc_state" where
  "worker_loop G chk [] st = st"
| "worker_loop G chk ((env, event) # rest) st =
     worker_loop G chk rest (processWithdrawal G chk env event st)"

text \<open>
  What a run of the worker meets: the connections of the listener, and for every event it hands over
  the \<open>step_env\<close> in which the event is handled.
\<close>

record run_env =
  run_gorm :: gorm
  run_abi :: "go_error + (string \<Rightarrow> hash)"
  run_listen :: "listen_input list"
  run_steps :: "step_env list"

text \<open>The transactions of a run are signed with the service's transactor.\<close>

definition with_auth :: "service \<Rightarrow> step_env \<Rightarrow> step_env" where
  "with_auth svc env = env\<lparr>env_auth := svc_auth svc\<rparr>"

text \<open>
  \<open>RunWorkerWithContext\<close>, the goroutine of the worker: read the cursor, watch from it, and handle
  every event that comes out of the channel. The other goroutines serve and stop the health endpoint
  and close the client.
\<close>

definition RunWorkerWithContext ::
    "geth \<Rightarrow> service \<Rightarrow> run_env \<Rightarrow> db \<Rightarrow> (svc_state \<times> watch_end) \<times> service" where
  "RunWorkerWithContext G svc R d =
     (let (fromBlock, fromLogIdx) = worker_start (run_gorm R) d;
          (withdrawals, watching) =
            listener_WatchWithdrawStarted (run_abi R) (svc_listener svc) fromBlock fromLogIdx
              (run_listen R)
      in ((worker_loop G (svc_checker svc) (zip (map (with_auth svc) (run_steps R)) withdrawals)
             \<lparr>st_db = d, st_sent = []\<rparr>, watching), setWorkerReady svc))"

section \<open>What one event does to the state\<close>

lemma recordEvent_sent [simp]: "st_sent (recordEvent E ev st) = st_sent st"
  by (simp add: recordEvent_def)

lemma recordEvent_withdrawals [simp]:
  "gorm_ok E \<Longrightarrow> withdrawals (st_db (recordEvent E ev st)) = withdrawals (st_db st)"
  using RecordWithdrawEvent_withdrawals [of E ev "st_db st" _ "snd (RecordWithdrawEvent E ev (st_db st))"]
  by (cases "RecordWithdrawEvent E ev (st_db st)") (simp add: recordEvent_def)

lemma recordEvent_inv: "gorm_ok E \<Longrightarrow> db_ok (st_db st) \<Longrightarrow> db_ok (st_db (recordEvent E ev st))"
  using RecordWithdrawEvent_inv [of E "st_db st" ev _ "snd (RecordWithdrawEvent E ev (st_db st))"]
  by (cases "RecordWithdrawEvent E ev (st_db st)") (simp add: recordEvent_def)

lemma reject_withdrawals [simp]:
  "gorm_ok (env_gorm env) \<Longrightarrow>
    withdrawals (st_db (reject_withdrawal G env event err st)) = withdrawals (st_db st)"
  by (simp add: reject_withdrawal_def Let_def split: sum.split)

lemma reject_inv:
  "gorm_ok (env_gorm env) \<Longrightarrow> db_ok (st_db st) \<Longrightarrow>
    db_ok (st_db (reject_withdrawal G env event err st))"
  by (simp add: reject_withdrawal_def Let_def recordEvent_inv split: sum.split)

text \<open>
  The ledger after an event is the ledger before it, or one row more, and a row is added only for
  an event that passed the policy.
\<close>

lemma finalize_cases:
  fixes st :: svc_state
  assumes G: "gorm_ok (env_gorm env)" and inv: "db_ok (st_db st)" and amt: "0 \<le> ws_Amount event"
    and st': "st' = finalize_withdrawal G (step_checker G chk env) env event st"
  shows "db_ok (st_db st') \<and>
    (withdrawals (st_db st') = withdrawals (st_db st) \<or>
     (\<exists>tx rc. withdrawals (st_db st') =
        withdrawals (st_db st) @ [to_model G (withdrawal_record env event tx rc)]))"
proof -
  have rec: "Record (step_checker G chk env) w d = adapter_Save G (env_gorm env) w d" for w d
    by (simp add: Record_def step_checker_def adapter_def)
  have save: "db_ok (snd (adapter_Save G (env_gorm env) (withdrawal_record env event tx rc) (st_db st))) \<and>
      (withdrawals (snd (adapter_Save G (env_gorm env) (withdrawal_record env event tx rc) (st_db st))) =
         withdrawals (st_db st) \<or>
       withdrawals (snd (adapter_Save G (env_gorm env) (withdrawal_record env event tx rc) (st_db st))) =
         withdrawals (st_db st) @ [to_model G (withdrawal_record env event tx rc)])" for tx rc
  proof -
    let ?w = "withdrawal_record env event tx rc"
    obtain r d' where s: "adapter_Save G (env_gorm env) ?w (st_db st) = (r, d')"
      by (cases "adapter_Save G (env_gorm env) ?w (st_db st)")
    have "0 \<le> wd_Amount ?w" using amt by (simp add: withdrawal_record_def)
    with adapter_Save_cases [OF G s] adapter_Save_inv [OF G inv, of ?w G d'] s inv show ?thesis
      by auto
  qed
  show ?thesis
    using save inv G
    by (auto simp: st' finalize_withdrawal_def Let_def rec recordEvent_inv split: sum.split)
qed

lemma process_cases:
  fixes st :: svc_state
  assumes L: "geth_ok G" "gorm_ok (env_gorm env)" and inv: "db_ok (st_db st)"
    and st': "st' = processWithdrawal G chk env event st"
  shows "db_ok (st_db st') \<and>
    (withdrawals (st_db st') = withdrawals (st_db st) \<or>
     (Check G (step_checker G chk env) (now_global env) (now_user env)
        (ws_User event) (ws_Token event) (ws_Amount event) (st_db st) = None \<and>
      (\<exists>tx rc. withdrawals (st_db st') =
        withdrawals (st_db st) @ [to_model G (withdrawal_record env event tx rc)])))"
proof (cases "HasWithdrawEvent (env_gorm env) (hash_hex G (ws_WithdrawalID event)) (st_db st)")
  case True
  then show ?thesis using inv by (simp add: st' processWithdrawal_def)
next
  case False
  show ?thesis
  proof (cases "Check G (step_checker G chk env) (now_global env) (now_user env)
      (ws_User event) (ws_Token event) (ws_Amount event) (st_db st)")
    case (Some err)
    then show ?thesis
      using False L inv by (simp add: st' processWithdrawal_def Let_def reject_inv)
  next
    case None
    then have "0 \<le> ws_Amount event" by (simp add: Check_None_iff)
    from finalize_cases [OF L(2) inv this refl, where G = G and chk = chk] None False show ?thesis
      by (simp add: st' processWithdrawal_def Let_def)
  qed
qed

section \<open>The checker over the adapter\<close>

text \<open>
  C9: over a database that answers, \<open>Check\<close> implements the policy: it returns nil exactly when the
  policy allows the withdrawal, and otherwise an error for which \<open>errors.Is\<close> finds the first rule the
  withdrawal breaks, in the order amount, user, token without limits, global hour, global day, user's
  hour, user's day; the totals are those of the recorded withdrawals.
\<close>

theorem check_implements_policy:
  assumes "gorm_ok E" "faultless E" "db_ok d"
  shows "map_option sentinel_of
      (Check G (c\<lparr>store := adapter (G, E)\<rparr>) ng nu user token amount d) =
    map_option Some
      (policy_verdict (globalLimits c token) (resolveUserLimit c user token)
        (\<lambda>since. total_of G token since d) (\<lambda>since. user_total_of G user token since d)
        ng nu user amount)"
proof -
  have "resolveUserLimit (c\<lparr>store := adapter (G, E)\<rparr>) user token = resolveUserLimit c user token"
    by (simp add: resolveUserLimit_def)
  with Check_verdict [of "c\<lparr>store := adapter (G, E)\<rparr>" token d "\<lambda>t. total_of G token t d" user
      "\<lambda>t. user_total_of G user token t d"] totals_faultless [OF assms]
  show ?thesis by (simp add: adapter_def)
qed

definition sample_checker :: "db checker" where
  "sample_checker =
     \<lparr>globalLimits = [5 \<mapsto> \<lparr>Hourly = Some 200, Daily = Some 1000\<rparr>],
      userOverrides = [7 \<mapsto> [5 \<mapsto> \<lparr>Hourly = Some 150, Daily = None\<rparr>]],
      store = adapter (plain_geth, sql_engine)\<rparr>"

lemma sample_total: "total_of plain_geth 5 0 sample_db = 130" "user_total_of plain_geth 7 5 0 sample_db = 100"
  by (simp_all add: total_of_def user_total_of_def sample_db_def empty_db_def)
    (simp_all add: sample_row_def addr_hex_eq [OF plain_geth_ok])

theorem check_implements_policy_witness:
  "map_option sentinel_of
     (Check plain_geth (sample_checker\<lparr>store := adapter (plain_geth, sql_engine)\<rparr>) 40 41 7 5 60 sample_db) =
   Some (Some ErrUserHourlyLimitExceeded)"
  unfolding check_implements_policy [OF sql_engine_ok sql_engine_faultless sample_db_ok]
  by (simp add: policy_verdict_def exceeded_def resolveUserLimit_def sample_checker_def
      time_truncate_def hour_def day_def second_def sample_total)

section \<open>Samples\<close>

definition sample_started :: "hash \<Rightarrow> int \<Rightarrow> withdraw_started_event" where
  "sample_started i amount =
     \<lparr>ws_WithdrawalID = i, ws_User = 7, ws_Token = 5, ws_Amount = amount, ws_Nonce = 0,
      ws_BlockNumber = 20, ws_TxHash = 9, ws_LogIndex = 1\<rparr>"

definition sample_auth :: transact_opts where
  "sample_auth = \<lparr>to_From = 2, to_Value = 0\<rparr>"

definition sample_env :: "gorm \<Rightarrow> time \<Rightarrow> step_env" where
  "sample_env E t =
     \<lparr>env_gorm = E, env_contract = sample_contract, env_auth = sample_auth,
      env_wait_mined = (\<lambda>_. Inr \<lparr>rc_Status = 1, rc_BlockNumber = 22\<rparr>),
      now_global = t, now_user = t, now_record = t\<rparr>"

definition new_state :: "db \<Rightarrow> svc_state" where
  "new_state d = \<lparr>st_db = d, st_sent = []\<rparr>"

lemma sample_env_simps [simp]:
  "env_gorm (sample_env E t) = E"
  "env_contract (sample_env E t) = sample_contract" "env_auth (sample_env E t) = sample_auth"
  "env_wait_mined (sample_env E t) tx = Inr \<lparr>rc_Status = 1, rc_BlockNumber = 22\<rparr>"
  "now_global (sample_env E t) = t" "now_user (sample_env E t) = t" "now_record (sample_env E t) = t"
  by (simp_all add: sample_env_def)

lemma new_state_simps [simp]: "st_db (new_state d) = d" "st_sent (new_state d) = []"
  by (simp_all add: new_state_def)

section \<open>Construction\<close>

text \<open>
  C29: a service enforces what its configuration says. When \<open>NewWithBackend\<close> succeeds, every address
  and amount in the limits was well formed, and, when no two entries name the same token, the
  checker's global limit of a token is the configured one, and a token outside the configuration has
  none, so that the checker refuses it; the overrides are the parsed ones, the store is the opened
  database, the listener watches the configured contract, and transactions are signed with the
  configured key for the chain of the client.
\<close>

theorem service_enforces_config:
  assumes "NewWithBackend G B conf client d = (Inr svc, d')"
  shows "limits_ok G (Limits conf) \<and> overrides_ok G (PerUserOverrides conf) \<and>
    be_GormOpen B (DBPath conf) = Inr (svc_store svc) \<and>
    store (svc_checker svc) = adapter (G, svc_store svc) \<and>
    parseUserOverrides G (PerUserOverrides conf) = Inr (userOverrides (svc_checker svc)) \<and>
    ln_contractAddr (svc_listener svc) = hex_to_address G (ContractAddr (Blockchain conf)) \<and>
    ln_withdrawFilterer (svc_listener svc) = Some (svc_contract svc) \<and> \<not> IsWorkerReady svc \<and>
    (\<exists>chainID key. be_ChainID B client = Inr chainID \<and>
       be_HexToECDSA B (PrivateKey (Blockchain conf)) = Inr key \<and>
       be_NewTransactor B key chainID = Inr (svc_auth svc)) \<and>
    dom (globalLimits (svc_checker svc)) = (\<lambda>(a, _). hex_to_address G a) ` set (Limits conf) \<and>
    (distinct (map (\<lambda>(a, _). hex_to_address G a) (Limits conf)) \<longrightarrow>
       (\<forall>(a, l) \<in> set (Limits conf). globalLimits (svc_checker svc) (hex_to_address G a) =
          Some \<lparr>Hourly = set_string (lc_Hourly l), Daily = set_string (lc_Daily l)\<rparr>))"
proof -
  from assms obtain gl where parse: "parseLimitsConfig G (Limits conf) = Inr gl"
    and gl: "globalLimits (svc_checker svc) = gl"
    and rest: "be_GormOpen B (DBPath conf) = Inr (svc_store svc)"
      "store (svc_checker svc) = adapter (G, svc_store svc)"
      "parseUserOverrides G (PerUserOverrides conf) = Inr (userOverrides (svc_checker svc))"
      "ln_contractAddr (svc_listener svc) = hex_to_address G (ContractAddr (Blockchain conf))"
      "ln_withdrawFilterer (svc_listener svc) = Some (svc_contract svc)" "\<not> IsWorkerReady svc"
      "\<exists>chainID key. be_ChainID B client = Inr chainID \<and>
         be_HexToECDSA B (PrivateKey (Blockchain conf)) = Inr key \<and>
         be_NewTransactor B key chainID = Inr (svc_auth svc)"
    by (auto simp: NewWithBackend_def Let_def checker_New_def NewListener_def IsWorkerReady_def
        NewAdapter_def split: sum.splits prod.splits option.splits)
  have ok: "limits_ok G (Limits conf)" and m: "gl = map_of (rev (limit_entries G (Limits conf)))"
    using parse by (simp_all add: parseLimitsConfig_iff)
  have fst: "map fst (limit_entries G (Limits conf)) = map (\<lambda>(a, _). hex_to_address G a) (Limits conf)"
    by (auto simp: limit_entries_def)
  have "dom gl = set (map fst (limit_entries G (Limits conf)))"
    by (simp add: m dom_map_of_conv_image_fst)
  then have "dom gl = (\<lambda>(a, _). hex_to_address G a) ` set (Limits conf)"
    unfolding fst by simp
  moreover have "gl (hex_to_address G a) = Some (limit_of l)"
    if "distinct (map (\<lambda>(a, _). hex_to_address G a) (Limits conf))" "(a, l) \<in> set (Limits conf)" for a l
  proof -
    have "(hex_to_address G a, limit_of l) \<in> set (rev (limit_entries G (Limits conf)))"
      using that(2) by (force simp: limit_entries_def)
    moreover have "distinct (map fst (rev (limit_entries G (Limits conf))))"
      using that(1) fst by (simp add: rev_map [symmetric])
    ultimately show ?thesis by (simp add: m map_of_is_SomeI)
  qed
  moreover have "overrides_ok G (PerUserOverrides conf)"
    using rest(3) by (simp add: parseUserOverrides_iff)
  ultimately show ?thesis
    using ok rest by (auto simp: gl limit_of_def)
qed

definition sample_backends :: "(unit, unit) backends" where
  "sample_backends =
     \<lparr>be_Dial = (\<lambda>_. Inr ()), be_GormOpen = (\<lambda>_. Inr sql_engine), be_ChainID = (\<lambda>_. Inr 1),
      be_HexToECDSA = (\<lambda>_. Inr ()), be_NewTransactor = (\<lambda>_ _. Inr sample_auth),
      be_GetAbi = Inr (\<lambda>_. 7), be_NewBoundContract = (\<lambda>_ _ _ _ _. sample_contract)\<rparr>"

lemma sample_service:
  "\<exists>svc. NewWithBackend plain_geth sample_backends sample_config () d = (Inr svc, d)"
proof -
  obtain m where m: "parseLimitsConfig plain_geth (Limits sample_config) = Inr m"
    using sample_limits_ok by (simp add: parseLimitsConfig_iff)
  have "parseUserOverrides plain_geth (PerUserOverrides sample_config) = Inr Map.empty"
    by (simp add: sample_config_def parseUserOverrides_def)
  with m show ?thesis
    by (simp add: NewWithBackend_def sample_backends_def NewAdapter_def sql_engine_def NewIWithdraw_def
        bindIWithdraw_def Let_def)
qed

lemma service_enforces_config_witness:
  "\<exists>svc. NewWithBackend plain_geth sample_backends sample_config () empty_db = (Inr svc, empty_db) \<and>
    globalLimits (svc_checker svc) 5 = Some \<lparr>Hourly = Some 100, Daily = None\<rparr>"
proof -
  obtain svc where svc: "NewWithBackend plain_geth sample_backends sample_config () empty_db =
      (Inr svc, empty_db)"
    using sample_service by blast
  have "hex_to_address plain_geth ''0x5'' = 5" "set_string ''100'' = Some 100" "set_string '''' = None"
    by (simp_all add: plain_geth_def digit_val_def set_string_def scan_nat_def)
  with service_enforces_config [OF svc] svc show ?thesis
    by (auto simp: sample_config_def)
qed

text \<open>
  Nothing on the way from \<open>main\<close> to the running worker calls \<open>Validate\<close>: the process runs the
  worker whenever the file loads and the service can be built, whatever \<open>Validate\<close> says.
\<close>

theorem main_does_not_validate:
  assumes "Load readFile getenv unmarshal ''config.yaml'' = Inr conf"
    and "getenv ''NITEWATCH_CONFIG'' = []"
    and "be_Dial B (RPCURL (Blockchain conf)) = Inr client"
    and "NewWithBackend G B conf client d = (Inr svc, d')"
  shows "nitewatch_main G B readFile getenv unmarshal [name, ''worker''] d = (RunWorker svc, d')"
  using assms by (simp add: nitewatch_main_def service_New_def)

text \<open>The witness runs the worker on a configuration whose RPC URL \<open>Validate\<close> refuses.\<close>

lemma main_does_not_validate_witness:
  "\<exists>conf svc. Validate plain_geth conf \<noteq> None \<and>
    nitewatch_main plain_geth sample_backends (\<lambda>_. Inr '''') (\<lambda>_. '''') (\<lambda>_. Inr conf)
      [''nitewatch'', ''worker''] empty_db = (RunWorker svc, empty_db)"
proof -
  let ?conf = "sample_config\<lparr>DBPath := ''nitewatch.db'', ListenAddr := '':8080''\<rparr>"
  have load: "Load (\<lambda>_. Inr '''') (\<lambda>_. '''') (\<lambda>_. Inr ?conf) ''config.yaml'' = Inr ?conf"
    by (simp add: Load_def)
  have invalid: "Validate plain_geth ?conf \<noteq> None"
    by (simp add: Validate_def validateBlockchain_def sample_config_def)
  obtain m where m: "parseLimitsConfig plain_geth (Limits ?conf) = Inr m"
    using sample_limits_ok by (simp add: parseLimitsConfig_iff)
  have "parseUserOverrides plain_geth (PerUserOverrides ?conf) = Inr Map.empty"
    by (simp add: sample_config_def parseUserOverrides_def)
  with m obtain svc where
    "NewWithBackend plain_geth sample_backends ?conf () empty_db = (Inr svc, empty_db)"
    by (simp add: NewWithBackend_def sample_backends_def NewAdapter_def sql_engine_def NewIWithdraw_def
        bindIWithdraw_def Let_def)
  from main_does_not_validate [OF load refl _ this] invalid show ?thesis
    by (fastforce simp: sample_backends_def)
qed

end
