(* ===== verification/Policy.thy ===== *)
theory Policy
  imports Service
begin

text \<open>
  The withdrawal policy over whole runs of the worker: in every hour and every day, and for every
  token and every user with an override, the recorded withdrawals stay within the limit. The check
  and the record read the clock at different moments, so the argument covers a withdrawal that is
  checked in one window and recorded in a later one.
\<close>

section \<open>Windows and totals\<close>

datatype window = HourWindow | DayWindow

fun win_len :: "window \<Rightarrow> time" where
  "win_len HourWindow = hour"
| "win_len DayWindow = day"

fun win_limit :: "window \<Rightarrow> limit \<Rightarrow> int option" where
  "win_limit HourWindow l = Hourly l"
| "win_limit DayWindow l = Daily l"

lemma win_len_pos [simp]: "0 < win_len w"
  by (cases w) simp_all

text \<open>
  The limit for withdrawals of a token, by all users or by one user.
\<close>

definition applicable :: "'s checker \<Rightarrow> address option \<Rightarrow> address \<Rightarrow> limit option" where
  "applicable c u tok =
     (case u of None \<Rightarrow> globalLimits c tok | Some a \<Rightarrow> resolveUserLimit c a tok)"

text \<open>What was recorded in the window that starts at \<open>b\<close>.\<close>

definition in_window :: "geth \<Rightarrow> address option \<Rightarrow> address \<Rightarrow> time \<Rightarrow> time \<Rightarrow> withdrawal_model \<Rightarrow> bool" where
  "in_window G u tok d b m \<longleftrightarrow> matches (query_of G u tok b) m \<and> wm_Timestamp m < b + d"

definition bucket_total :: "geth \<Rightarrow> address option \<Rightarrow> address \<Rightarrow> time \<Rightarrow> time \<Rightarrow> db \<Rightarrow> int" where
  "bucket_total G u tok d b db =
     sum_list (map row_amount (filter (in_window G u tok d b) (withdrawals db)))"

definition policy_inv :: "geth \<Rightarrow> 's checker \<Rightarrow> time \<Rightarrow> db \<Rightarrow> bool" where
  "policy_inv G c T db \<longleftrightarrow> db_ok db \<and> (\<forall>m \<in> set (withdrawals db). wm_Timestamp m \<le> T) \<and>
     (\<forall>u tok l w lim b. applicable c u tok = Some l \<longrightarrow> win_limit w l = Some lim \<longrightarrow>
        win_len w dvd b \<longrightarrow> bucket_total G u tok (win_len w) b db \<le> max 0 lim)"

text \<open>The clock is read in order and never goes back, within an event and from event to event.\<close>

fun clock_ordered :: "time \<Rightarrow> (step_env \<times> withdraw_started_event) list \<Rightarrow> bool" where
  "clock_ordered T [] = True"
| "clock_ordered T ((env, event) # rest) \<longleftrightarrow>
     T \<le> now_global env \<and> now_global env \<le> now_user env \<and> now_user env \<le> now_record env \<and>
     clock_ordered (now_record env) rest"

fun last_clock :: "time \<Rightarrow> (step_env \<times> withdraw_started_event) list \<Rightarrow> time" where
  "last_clock T [] = T"
| "last_clock T ((env, event) # rest) = last_clock (now_record env) rest"

section \<open>One record\<close>

lemma matches_query_timestamp: "matches (query_of G u tok b) m \<Longrightarrow> b \<le> wm_Timestamp m"
  by (auto simp: query_of_def split: option.splits)

lemma matches_since_mono:
  "matches (query_of G u tok b) m \<Longrightarrow> b' \<le> b \<Longrightarrow> matches (query_of G u tok b') m"
  by (auto simp: query_of_def split: option.splits)

lemma matches_since_change:
  "matches (query_of G u tok b) m \<longleftrightarrow> matches (query_of G u tok b') m"
  if "b \<le> wm_Timestamp m" "b' \<le> wm_Timestamp m"
  using that by (auto simp: query_of_def split: option.splits)

lemma bucket_total_snoc:
  "withdrawals db' = withdrawals db @ [m] \<Longrightarrow>
    bucket_total G u tok d b db' =
      bucket_total G u tok d b db + (if in_window G u tok d b m then row_amount m else 0)"
  by (simp add: bucket_total_def)

lemma bucket_total_le_spent:
  assumes "db_ok db"
  shows "bucket_total G u tok d b db \<le> adapter_spent (G, E) u tok b db"
  unfolding bucket_total_def adapter_spent_def ledger_total_def
  by (rule sum_list_filter_mono)
    (use assms in \<open>auto simp: db_ok_def amounts_ok_def in_window_def\<close>)

text \<open>
  The heart of the argument. A withdrawal passed the check at \<open>now\<close> and is recorded at \<open>ts\<close>.
  Either both lie in one window and the check bounds its total, or \<open>ts\<close> opens a window in which
  nothing is recorded yet, and the amount alone is within the limit.
\<close>

lemma bucket_step:
  assumes inv: "db_ok db" and old: "\<forall>m \<in> set (withdrawals db). wm_Timestamp m \<le> now"
    and d: "0 < d" "d dvd b"
    and chk: "adapter_spent (G, E) u tok (time_truncate d now) db + row_amount m \<le> lim"
    and m: "in_window G u tok d b m" and ts: "now \<le> wm_Timestamp m"
  shows "bucket_total G u tok d b db + row_amount m \<le> lim"
proof -
  have b: "time_truncate d (wm_Timestamp m) = b"
    using d m matches_query_timestamp [of G u tok b m]
    by (intro time_truncate_bucket) (auto simp: in_window_def)
  show ?thesis
  proof (cases "b \<le> now")
    case True
    then have "time_truncate d now = b"
      using d m ts by (intro time_truncate_bucket) (auto simp: in_window_def)
    with chk bucket_total_le_spent [OF inv, of G u tok d b E] show ?thesis by simp
  next
    case False
    have "\<not> in_window G u tok d b m'" if "m' \<in> set (withdrawals db)" for m'
      using old that False matches_query_timestamp [of G u tok b m'] by (auto simp: in_window_def)
    then have "bucket_total G u tok d b db = 0"
      unfolding bucket_total_def by (rule sum_list_filter_empty)
    moreover have "0 \<le> adapter_spent (G, E) u tok (time_truncate d now) db"
      using inv by (rule adapter_store.spent_nonneg)
    ultimately show ?thesis using chk by simp
  qed
qed

text \<open>Passing the check gives the bound the step needs, for every limit that applies.\<close>

lemma check_bounds:
  assumes L: "lawful (G, E)" and inv: "db_ok db"
    and chk: "Check G (c\<lparr>store := adapter (G, E)\<rparr>) ng nu user token amount db = None"
    and app: "applicable c u token = Some l" "win_limit w l = Some lim"
    and u: "case u of None \<Rightarrow> True | Some a \<Rightarrow> a = user"
  shows "adapter_spent (G, E) u token
    (time_truncate (win_len w) (case u of None \<Rightarrow> ng | Some _ \<Rightarrow> nu)) db + amount \<le> lim"
proof -
  note sound = step_check.check_sound(4,5) [OF L inv chk]
  show ?thesis
  proof (cases u)
    case None
    with app sound(1) show ?thesis
      by (cases w) (auto simp: applicable_def limit_respected_def within_def)
  next
    case (Some a)
    moreover have "resolveUserLimit (c\<lparr>store := adapter (G, E)\<rparr>) = resolveUserLimit c"
      by (intro ext) (simp add: resolveUserLimit_def)
    ultimately show ?thesis
      using app sound(2) u
      by (cases w) (auto simp: applicable_def limit_respected_def within_def)
  qed
qed

section \<open>One event, and a run\<close>

lemma policy_inv_same_ledger:
  assumes "policy_inv G c T db" "db_ok db'" "withdrawals db' = withdrawals db" "T \<le> T'"
  shows "policy_inv G c T' db'"
  using assms by (force simp: policy_inv_def bucket_total_def)

lemma policy_inv_save:
  fixes env :: step_env and event :: withdraw_started_event
  assumes G: "geth_ok G" "gorm_ok (env_gorm env)" and inv: "policy_inv G c T db" and ok: "db_ok db'"
    and clock: "T \<le> now_global env" "now_global env \<le> now_user env" "now_user env \<le> now_record env"
    and chk: "Check G (step_checker G c env) (now_global env) (now_user env)
      (ws_User event) (ws_Token event) (ws_Amount event) db = None"
    and save: "withdrawals db' = withdrawals db @ [to_model G (withdrawal_record env event tx rc)]"
  shows "policy_inv G c (now_record env) db'"
proof -
  let ?w = "withdrawal_record env event tx rc"
  let ?m = "to_model G ?w"
  have dbok: "db_ok db" and old: "\<forall>m \<in> set (withdrawals db). wm_Timestamp m \<le> T"
    using inv by (auto simp: policy_inv_def)
  have ts: "wm_Timestamp ?m = now_record env"
    by (simp add: to_model_def withdrawal_record_def)
  have "bucket_total G u tok (win_len w) b db' \<le> max 0 lim"
    if app: "applicable c u tok = Some l" "win_limit w l = Some lim" and b: "win_len w dvd b"
    for u tok l w lim b
  proof (cases "in_window G u tok (win_len w) b ?m")
    case False
    with inv app b show ?thesis
      by (simp add: bucket_total_snoc [OF save] policy_inv_def)
  next
    case True
    then have "counts ?w u tok b"
      using matches_to_model [OF G(1)] by (simp add: in_window_def)
    then have u: "case u of None \<Rightarrow> True | Some a \<Rightarrow> a = ws_User event" and tok: "tok = ws_Token event"
      by (auto simp: counts_def withdrawal_record_def split: option.splits)
    let ?now = "case u of None \<Rightarrow> now_global env | Some _ \<Rightarrow> now_user env"
    have now: "T \<le> ?now" "?now \<le> now_record env"
      using clock by (auto split: option.splits)
    have "adapter_spent (G, env_gorm env) u tok (time_truncate (win_len w) ?now) db + row_amount ?m
        \<le> lim"
      using check_bounds [OF _ dbok chk [unfolded step_checker_def] app [unfolded tok] u] G tok
      by (simp add: lawful_def withdrawal_record_def)
    moreover have "\<forall>m \<in> set (withdrawals db). wm_Timestamp m \<le> ?now"
      using old now by force
    ultimately have "bucket_total G u tok (win_len w) b db + row_amount ?m \<le> lim"
      using bucket_step [OF dbok _ win_len_pos b _ True] ts now by simp
    with True show ?thesis by (simp add: bucket_total_snoc [OF save])
  qed
  moreover have "\<forall>m \<in> set (withdrawals db'). wm_Timestamp m \<le> now_record env"
    using old clock ts by (auto simp: save)
  ultimately show ?thesis using ok by (auto simp: policy_inv_def)
qed

lemma policy_inv_step:
  assumes G: "geth_ok G" "gorm_ok (env_gorm env)" and inv: "policy_inv G c T (st_db st)"
    and clock: "T \<le> now_global env" "now_global env \<le> now_user env" "now_user env \<le> now_record env"
  shows "policy_inv G c (now_record env) (st_db (processWithdrawal G c env event st))"
proof -
  have "db_ok (st_db st)" using inv by (simp add: policy_inv_def)
  note cases = process_cases [OF G this refl, where chk = c and event = event]
  show ?thesis
    using cases policy_inv_same_ledger [OF inv] policy_inv_save [OF G inv _ clock] clock
    by (metis order_trans)
qed

lemma policy_inv_run:
  assumes "geth_ok G" "\<forall>(env, event) \<in> set steps. gorm_ok (env_gorm env)"
    and "policy_inv G c T (st_db st)" "clock_ordered T steps"
  shows "policy_inv G c (last_clock T steps) (st_db (worker_loop G c steps st))"
  using assms
proof (induction T steps arbitrary: st rule: clock_ordered.induct)
  case (2 T env event rest)
  then have "policy_inv G c (now_record env) (st_db (processWithdrawal G c env event st))"
    by (intro policy_inv_step) auto
  with 2 show ?case by simp
qed simp

section \<open>The policy\<close>

lemma policy_inv_empty: "policy_inv G c T empty_db"
  by (simp add: policy_inv_def bucket_total_def) (simp add: empty_db_def)

text \<open>
  C4: the policy is enforced. Whatever events arrive in whatever order, however often, and however the
  database and the node fail in between, in no clock hour and on no clock day does the sum of the
  recorded withdrawals of a token exceed its global limit, nor that of a user with an override the
  user's limit (a negative limit counts as zero). Needed are only a clock that does not go back and a
  ledger that kept the limits at the start, as an empty one does.
\<close>

theorem worker_keeps_limits:
  assumes "geth_ok G" "\<forall>(env, event) \<in> set steps. gorm_ok (env_gorm env)"
    and "policy_inv G c T (st_db st)" "clock_ordered T steps"
    and "applicable c u tok = Some l" "win_limit w l = Some lim" "win_len w dvd b"
  shows "(\<Sum>m \<leftarrow> filter (\<lambda>m. wm_Token m = addr_hex G tok \<and>
        (case u of None \<Rightarrow> True | Some a \<Rightarrow> wm_User m = addr_hex G a) \<and>
        b \<le> wm_Timestamp m \<and> wm_Timestamp m < b + win_len w)
      (withdrawals (st_db (worker_loop G c steps st))). row_amount m) \<le> max 0 lim"
proof -
  have "bucket_total G u tok (win_len w) b (st_db (worker_loop G c steps st)) \<le> max 0 lim"
    using policy_inv_run [OF assms(1-4)] assms(5-7) by (simp add: policy_inv_def)
  moreover have "in_window G u tok (win_len w) b = (\<lambda>m. wm_Token m = addr_hex G tok \<and>
      (case u of None \<Rightarrow> True | Some a \<Rightarrow> wm_User m = addr_hex G a) \<and>
      b \<le> wm_Timestamp m \<and> wm_Timestamp m < b + win_len w)"
    by (auto simp: in_window_def query_of_def fun_eq_iff split: option.splits)
  ultimately show ?thesis by (simp add: bucket_total_def)
qed

definition sample_steps :: "(step_env \<times> withdraw_started_event) list" where
  "sample_steps =
     [(sample_env sql_engine 10, sample_started 1 120), (sample_env full_engine 15, sample_started 2 20),
      (sample_env sql_engine 20, sample_started 3 60)]"

lemma worker_keeps_limits_witness:
  "(\<Sum>m \<leftarrow> filter (\<lambda>m. wm_Token m = addr_hex plain_geth 5 \<and> wm_User m = addr_hex plain_geth 7 \<and>
        0 \<le> wm_Timestamp m \<and> wm_Timestamp m < hour)
      (withdrawals (st_db (worker_loop plain_geth sample_checker sample_steps (new_state empty_db)))).
     row_amount m) \<le> 150"
  using worker_keeps_limits [where w = HourWindow and u = "Some 7" and tok = 5 and b = 0 and T = 0
      and c = sample_checker and lim = 150 and steps = sample_steps and st = "new_state empty_db",
      OF plain_geth_ok _ _ _ _ _ dvd_0_right]
  by (simp add: policy_inv_empty sample_steps_def applicable_def resolveUserLimit_def
      sample_checker_def)

end
