(* ===== verification/Worker.thy ===== *)
theory Worker
  imports Service
begin

text \<open>
  The worker over a database that answers every statement: what one event does, seen from outside
  (\<open>outcome\<close>), and what a run does: at most one transaction per withdrawal, and a ledger that holds
  exactly the approved withdrawals. The events may come in any order and any number of times, as a
  listener that reconnects delivers them.
\<close>

section \<open>A database that answers\<close>

lemma create_event_faultless:
  assumes "gorm_ok E" "faultless E"
  shows "\<exists>i t. create_event E ev d = (None, d\<lparr>events := insert_event i t ev (events d)\<rparr>)"
proof -
  have "fst (create_event E ev d) = None" using assms(2) by (simp add: faultless_def)
  with event_okD [OF assms(1), of ev d] show ?thesis by auto
qed

lemma record_faultless:
  assumes "gorm_ok E" "faultless E"
  shows "\<exists>d'. RecordWithdrawEvent E ev d = (None, d')"
proof -
  let ?f = "\<lambda>tx. case create_event E ev tx of
      (Some err, tx') \<Rightarrow> (Some err, tx')
    | (None, tx') \<Rightarrow>
        upsertCursor E withdraw_started_stream (we_BlockNumber ev) (we_LogIndex ev) tx'"
  have "fst (upsertCursor E s b i x) = None" for s b i x
    using assms(2) by (simp add: upsertCursor_def faultless_def)
  then have "fst (?f d) = None"
    using create_event_faultless [OF assms, of ev d] by auto
  then have "fst (transaction E ?f d) = None" using assms(2) by (simp add: faultless_def)
  then show ?thesis
    by (cases "transaction E ?f d") (auto simp: RecordWithdrawEvent_def)
qed

lemma save_faultless:
  assumes "gorm_ok E" "faultless E" "hash_hex G (wd_WithdrawalID w) \<notin> wm_WithdrawalID ` set (withdrawals d)"
  shows "adapter_Save G E w d = (None, d\<lparr>withdrawals := withdrawals d @ [to_model G w]\<rparr>)"
proof -
  have "fst (create_withdrawal E (to_model G w) d) = None"
    using assms(2,3) by (auto simp: faultless_def to_model_def)
  then show ?thesis
    using adapter_Save_cases [OF assms(1), of G w d]
    by (cases "create_withdrawal E (to_model G w) d") (auto simp: adapter_Save_def)
qed

lemma has_faultless:
  "gorm_ok E \<Longrightarrow> faultless E \<Longrightarrow> HasWithdrawEvent E wid d \<longleftrightarrow> wid \<in> we_WithdrawalID ` set (events d)"
  by (rule HasWithdrawEvent_iff) (simp_all add: faultless_def)

text \<open>The row of an event, up to the id and the time gorm fills in.\<close>

definition same_row :: "withdraw_event_model \<Rightarrow> withdraw_event_model \<Rightarrow> bool" where
  "same_row m ev \<longleftrightarrow> (\<exists>i t. ev = m\<lparr>we_ID := i, we_CreatedAt := t\<rparr>)"

lemma recordEvent_fresh:
  assumes "gorm_ok E" "faultless E" "we_WithdrawalID m \<notin> we_WithdrawalID ` set (events (st_db st))"
  shows "\<exists>ev. same_row m ev \<and> events (st_db (recordEvent E m st)) = events (st_db st) @ [ev] \<and>
    cursor_at withdraw_started_stream (st_db (recordEvent E m st)) = {(we_BlockNumber m, we_LogIndex m)}"
proof -
  obtain d' where d': "RecordWithdrawEvent E m (st_db st) = (None, d')"
    using record_faultless [OF assms(1,2)] by blast
  with RecordWithdrawEvent_cases [OF assms(1) d'] obtain i t where
    "events d' = insert_event i t m (events (st_db st))" by auto
  then have "events d' = events (st_db st) @ [m\<lparr>we_ID := i, we_CreatedAt := t\<rparr>]"
    using assms(3) by (simp add: insert_event_def)
  with record_event_facts(4) [OF assms(1) d'] d' show ?thesis
    by (auto simp: recordEvent_def same_row_def)
qed

section \<open>One event\<close>

text \<open>
  What an event that was not handled before leads to: the decision, the transactions sent and the
  withdrawal entered into the ledger.
\<close>

definition outcome ::
    "step_env \<Rightarrow> withdraw_started_event \<Rightarrow> go_error option \<Rightarrow>
     string \<times> sent_tx list \<times> withdrawal option" where
  "outcome env event verdict =
     (let i = ws_WithdrawalID event in
      case verdict of
        Some err \<Rightarrow>
          (case RejectWithdraw (env_contract env) (env_auth env) i of
             Inl _ \<Rightarrow> (''error'', [], None)
           | Inr tx \<Rightarrow>
               (case env_wait_mined env tx of
                  Inl _ \<Rightarrow> (''error'', [SentReject i tx], None)
                | Inr _ \<Rightarrow> (''rejected'', [SentReject i tx], None)))
      | None \<Rightarrow>
          (case FinalizeWithdraw (env_contract env) (env_auth env) i of
             Inl _ \<Rightarrow> (''error'', [], None)
           | Inr tx \<Rightarrow>
               (case env_wait_mined env tx of
                  Inl _ \<Rightarrow> (''error'', [SentFinalize i tx], None)
                | Inr rc \<Rightarrow>
                    if rc_Status rc = 1
                    then (''approved'', [SentFinalize i tx], Some (withdrawal_record env event tx rc))
                    else (''error'', [SentFinalize i tx], None))))"

definition ledger_rows :: "geth \<Rightarrow> withdrawal option \<Rightarrow> withdrawal_model list" where
  "ledger_rows G w = (case w of None \<Rightarrow> [] | Some w \<Rightarrow> [to_model G w])"

definition handled ::
    "geth \<Rightarrow> withdraw_started_event \<Rightarrow> string \<times> sent_tx list \<times> withdrawal option \<Rightarrow> svc_state \<Rightarrow>
     svc_state \<Rightarrow> bool" where
  "handled G event out st st' \<longleftrightarrow>
     (case out of (decision, txs, w) \<Rightarrow>
        (\<exists>ev. events (st_db st') = events (st_db st) @ [ev] \<and>
           we_WithdrawalID ev = hash_hex G (ws_WithdrawalID event) \<and> we_Decision ev = decision) \<and>
        st_sent st' = st_sent st @ txs \<and>
        withdrawals (st_db st') = withdrawals (st_db st) @ ledger_rows G w \<and>
        cursor_at withdraw_started_stream (st_db st') = {(ws_BlockNumber event, ws_LogIndex event)})"

definition fresh_id :: "geth \<Rightarrow> withdraw_started_event \<Rightarrow> db \<Rightarrow> bool" where
  "fresh_id G event d \<longleftrightarrow>
     hash_hex G (ws_WithdrawalID event) \<notin> we_WithdrawalID ` set (events d) \<and>
     hash_hex G (ws_WithdrawalID event) \<notin> wm_WithdrawalID ` set (withdrawals d)"

lemma handled_recordEvent:
  assumes E: "gorm_ok E" "faultless E" and fresh: "fresh_id G event (st_db st)"
    and st1: "events (st_db st1) = events (st_db st)" "st_sent st1 = st_sent st @ txs"
      "withdrawals (st_db st1) = withdrawals (st_db st) @ ledger_rows G w"
  shows "handled G event (decision, txs, w) st
    (recordEvent E (decide (base_model G event) decision reason) st1)"
proof -
  let ?m = "decide (base_model G event) decision reason"
  have "we_WithdrawalID ?m \<notin> we_WithdrawalID ` set (events (st_db st1))"
    using fresh by (simp add: st1 fresh_id_def decide_def base_model_def)
  from recordEvent_fresh [OF E this] show ?thesis
    using E by (auto simp: handled_def same_row_def st1 decide_def base_model_def)
qed

lemma process_handled:
  assumes E: "gorm_ok (env_gorm env)" "faultless (env_gorm env)" and fresh: "fresh_id G event (st_db st)"
  shows "handled G event
    (outcome env event (Check G (step_checker G c env) (now_global env) (now_user env)
       (ws_User event) (ws_Token event) (ws_Amount event) (st_db st)))
    st (processWithdrawal G c env event st)"
proof -
  have new: "\<not> HasWithdrawEvent (env_gorm env) (hash_hex G (ws_WithdrawalID event)) (st_db st)"
    using has_faultless [OF E] fresh by (simp add: fresh_id_def)
  have save: "Record (step_checker G c env) (withdrawal_record env event tx rc) (st_db st) =
      (None, (st_db st)\<lparr>withdrawals := withdrawals (st_db st) @
         [to_model G (withdrawal_record env event tx rc)]\<rparr>)" for tx rc
    using save_faultless [OF E, of G "withdrawal_record env event tx rc" "st_db st"] fresh
    by (simp add: Record_def step_checker_def adapter_def fresh_id_def withdrawal_record_def)
  show ?thesis
    using new
    by (auto simp: processWithdrawal_def outcome_def reject_withdrawal_def finalize_withdrawal_def
        save Let_def ledger_rows_def intro!: handled_recordEvent [OF E fresh]
        split: option.splits sum.splits)
qed

section \<open>Runs\<close>

text \<open>
  The ledger and the transactions are in step with the recorded events: an id is in the ledger
  exactly when its event is recorded as approved, in the same order, every transaction belongs to a
  recorded event, and no id has two.
\<close>

definition approved_ids :: "db \<Rightarrow> string list" where
  "approved_ids d = map we_WithdrawalID (filter (\<lambda>ev. we_Decision ev = ''approved'') (events d))"

definition worker_inv :: "geth \<Rightarrow> svc_state \<Rightarrow> bool" where
  "worker_inv G st \<longleftrightarrow>
     map wm_WithdrawalID (withdrawals (st_db st)) = approved_ids (st_db st) \<and>
     distinct (map sent_id (st_sent st)) \<and>
     (\<forall>i \<in> sent_id ` set (st_sent st). hash_hex G i \<in> we_WithdrawalID ` set (events (st_db st)))"

lemma ledger_ids:
  assumes "worker_inv G st"
  shows "wm_WithdrawalID ` set (withdrawals (st_db st)) \<subseteq> we_WithdrawalID ` set (events (st_db st))"
proof -
  have "wm_WithdrawalID ` set (withdrawals (st_db st)) = set (approved_ids (st_db st))"
    using assms by (metis list.set_map worker_inv_def)
  then show ?thesis by (auto simp: approved_ids_def)
qed

lemma outcome_shape:
  assumes "outcome env event v = (decision, txs, w)"
  shows "(txs = [] \<or> (\<exists>x. txs = [x] \<and> sent_id x = ws_WithdrawalID event)) \<and>
    (decision = ''approved'' \<longleftrightarrow> w \<noteq> None) \<and>
    (\<forall>x. w = Some x \<longrightarrow> wd_WithdrawalID x = ws_WithdrawalID event)"
  using assms
  by (auto simp: outcome_def Let_def withdrawal_record_def
      split: option.splits sum.splits if_splits)

lemma worker_inv_handled:
  assumes inv: "worker_inv G st" and fresh: "fresh_id G event (st_db st)"
    and h: "handled G event (outcome env event v) st st'"
  shows "worker_inv G st'"
proof -
  obtain decision txs w where out: "outcome env event v = (decision, txs, w)"
    by (cases "outcome env event v")
  note shape = outcome_shape [OF out]
  obtain ev where ev: "events (st_db st') = events (st_db st) @ [ev]"
    "we_WithdrawalID ev = hash_hex G (ws_WithdrawalID event)" "we_Decision ev = decision"
    and sent: "st_sent st' = st_sent st @ txs"
    and led: "withdrawals (st_db st') = withdrawals (st_db st) @ ledger_rows G w"
    using h by (auto simp: out handled_def)
  have "map wm_WithdrawalID (ledger_rows G w) = (if decision = ''approved'' then [we_WithdrawalID ev] else [])"
    using shape ev(2) by (auto simp: ledger_rows_def to_model_def split: option.splits)
  then have "map wm_WithdrawalID (withdrawals (st_db st')) = approved_ids (st_db st')"
    using inv by (simp add: led worker_inv_def approved_ids_def ev)
  moreover have "\<forall>x \<in> set (st_sent st). sent_id x \<noteq> ws_WithdrawalID event"
    using inv fresh by (auto simp: worker_inv_def fresh_id_def)
  ultimately show ?thesis
    using inv shape ev by (auto simp: worker_inv_def sent)
qed

lemma worker_inv_step:
  assumes E: "gorm_ok (env_gorm env)" "faultless (env_gorm env)" and inv: "worker_inv G st"
  shows "worker_inv G (processWithdrawal G c env event st)"
proof (cases "hash_hex G (ws_WithdrawalID event) \<in> we_WithdrawalID ` set (events (st_db st))")
  case True
  then show ?thesis
    using inv by (simp add: processWithdrawal_def has_faultless [OF E])
next
  case False
  then have fresh: "fresh_id G event (st_db st)"
    using ledger_ids [OF inv] by (auto simp: fresh_id_def)
  from worker_inv_handled [OF inv fresh process_handled [OF E fresh]] show ?thesis .
qed

definition answering :: "(step_env \<times> withdraw_started_event) list \<Rightarrow> bool" where
  "answering steps \<longleftrightarrow> (\<forall>(env, event) \<in> set steps. gorm_ok (env_gorm env) \<and> faultless (env_gorm env))"

lemma worker_inv_run: "answering steps \<Longrightarrow> worker_inv G st \<Longrightarrow> worker_inv G (worker_loop G c steps st)"
proof (induction steps arbitrary: st)
  case (Cons step steps)
  then show ?case
    by (cases step) (auto simp: answering_def intro!: Cons.IH worker_inv_step)
qed simp

text \<open>Every event of a run ends up recorded, and no record is lost.\<close>

lemma process_records:
  assumes E: "gorm_ok (env_gorm env)" "faultless (env_gorm env)" and inv: "worker_inv G st"
  shows "we_WithdrawalID ` set (events (st_db (processWithdrawal G c env event st))) =
    insert (hash_hex G (ws_WithdrawalID event)) (we_WithdrawalID ` set (events (st_db st)))"
proof (cases "hash_hex G (ws_WithdrawalID event) \<in> we_WithdrawalID ` set (events (st_db st))")
  case True
  then show ?thesis
    by (simp add: processWithdrawal_def has_faultless [OF E] insert_absorb)
next
  case False
  then have fresh: "fresh_id G event (st_db st)"
    using ledger_ids [OF inv] by (auto simp: fresh_id_def)
  from process_handled [OF E fresh, of c] show ?thesis
    by (auto simp: handled_def)
qed

lemma worker_records:
  "answering steps \<Longrightarrow> worker_inv G st \<Longrightarrow>
    we_WithdrawalID ` set (events (st_db (worker_loop G c steps st))) =
      (hash_hex G \<circ> ws_WithdrawalID \<circ> snd) ` set steps \<union> we_WithdrawalID ` set (events (st_db st))"
proof (induction steps arbitrary: st)
  case (Cons step steps)
  obtain env event where step: "step = (env, event)" by (cases step)
  have E: "gorm_ok (env_gorm env)" "faultless (env_gorm env)" and rest: "answering steps"
    using Cons.prems(1) by (auto simp: answering_def step)
  show ?case
    using Cons.IH [OF rest worker_inv_step [OF E Cons.prems(2)], of c event]
      process_records [OF E Cons.prems(2), of c event]
    by (auto simp: step)
qed simp

lemma worker_db_ok:
  "geth_ok G \<Longrightarrow> answering steps \<Longrightarrow> db_ok (st_db st) \<Longrightarrow> db_ok (st_db (worker_loop G c steps st))"
proof (induction steps arbitrary: st)
  case (Cons step steps)
  then show ?case
    using process_cases [of G _ st _ c]
    by (cases step) (auto simp: answering_def intro!: Cons.IH)
qed simp

section \<open>Properties\<close>

lemma worker_inv_empty: "worker_inv G (new_state empty_db)"
  by (simp add: worker_inv_def approved_ids_def empty_db_def)

text \<open>
  C5: over a whole run on an answering database, from a fresh start and whatever the listener delivers
  (duplicates included), the service sends at most one transaction per withdrawal id, each for an id
  it has recorded, and its ledger holds exactly the withdrawals recorded as approved, in order.
\<close>

theorem one_transaction_per_withdrawal:
  assumes "answering steps"
  shows "let st = worker_loop G c steps (new_state empty_db) in
    distinct (map sent_id (st_sent st)) \<and>
    (\<forall>i \<in> sent_id ` set (st_sent st). hash_hex G i \<in> we_WithdrawalID ` set (events (st_db st))) \<and>
    map wm_WithdrawalID (withdrawals (st_db st)) =
      map we_WithdrawalID (filter (\<lambda>ev. we_Decision ev = ''approved'') (events (st_db st)))"
  using worker_inv_run [OF assms worker_inv_empty, of G c]
  by (simp add: Let_def worker_inv_def approved_ids_def)

lemma one_transaction_per_withdrawal_witness:
  "distinct (map sent_id (st_sent (worker_loop plain_geth sample_checker
     [(sample_env sql_engine 10, sample_started 1 120), (sample_env sql_engine 12, sample_started 1 120)]
     (new_state empty_db))))"
  using one_transaction_per_withdrawal [of "[(sample_env sql_engine 10, sample_started 1 120),
     (sample_env sql_engine 12, sample_started 1 120)]" plain_geth sample_checker]
  by (simp add: answering_def Let_def)

lemma sample_check_passes:
  "Check plain_geth (step_checker plain_geth sample_checker (sample_env sql_engine t)) t t
     7 5 120 empty_db = None"
proof -
  have "filter (matches q) (withdrawals empty_db) = []" for q
    by (simp add: empty_db_def)
  then show ?thesis
    by (simp add: Check_def checkGlobalLimits_def checkUserLimits_def resolveUserLimit_def
        window_check_def step_checker_def sample_checker_def adapter_def
        adapter_GetTotalWithdrawn_def adapter_GetTotalWithdrawnByUser_def sql_engine_def
        sumAmounts_def)
qed

text \<open>
  C7: what one new withdrawal leads to, on every branch. The event is recorded with its decision, the
  cursor moves to it, and: a blocked withdrawal is rejected, an allowed one finalized, with at most
  one transaction; only an allowed one whose transaction was mined with status 1 is approved and
  entered into the ledger; every failure to send or to wait ends in the decision \<open>error\<close>.
\<close>

theorem process_outcome:
  assumes "gorm_ok (env_gorm env)" "faultless (env_gorm env)" "fresh_id G event (st_db st)"
  shows "handled G event
    (outcome env event (Check G (step_checker G c env) (now_global env) (now_user env)
       (ws_User event) (ws_Token event) (ws_Amount event) (st_db st)))
    st (processWithdrawal G c env event st)"
  by (rule process_handled [OF assms])

lemma process_outcome_witness:
  "handled plain_geth (sample_started 1 120)
    (''approved'', [SentFinalize 1 \<lparr>tx_Hash = 5\<rparr>],
     Some (withdrawal_record (sample_env sql_engine 10) (sample_started 1 120) \<lparr>tx_Hash = 5\<rparr>
       \<lparr>rc_Status = 1, rc_BlockNumber = 22\<rparr>))
    (new_state empty_db)
    (processWithdrawal plain_geth sample_checker (sample_env sql_engine 10) (sample_started 1 120)
       (new_state empty_db))"
proof -
  have "Check plain_geth (step_checker plain_geth sample_checker (sample_env sql_engine 10)) 10 10
      7 5 120 empty_db = None"
    by (rule sample_check_passes)
  moreover have "fresh_id plain_geth (sample_started 1 120) empty_db"
    by (simp add: fresh_id_def empty_db_def)
  ultimately show ?thesis
    using process_outcome [of "sample_env sql_engine 10" plain_geth "sample_started 1 120"
        "new_state empty_db" sample_checker]
    by (simp add: outcome_def sample_started_def FinalizeWithdraw_def sample_contract_def)
qed

text \<open>
  Handling is idempotent: an event handled on an answering database changes nothing when it is
  delivered again, at any later time and whatever the node would answer.
\<close>

theorem redelivery_ignored:
  assumes "gorm_ok (env_gorm env)" "faultless (env_gorm env)" "fresh_id G event (st_db st)"
    and "gorm_ok (env_gorm env')" "faultless (env_gorm env')"
  shows "processWithdrawal G c env' event (processWithdrawal G c env event st) =
    processWithdrawal G c env event st"
proof -
  have "hash_hex G (ws_WithdrawalID event) \<in>
      we_WithdrawalID ` set (events (st_db (processWithdrawal G c env event st)))"
    using process_handled [OF assms(1-3), of c] by (auto simp: handled_def)
  then have "HasWithdrawEvent (env_gorm env') (hash_hex G (ws_WithdrawalID event))
      (st_db (processWithdrawal G c env event st))"
    using has_faultless [OF assms(4,5)] by simp
  then show ?thesis by (subst processWithdrawal_def) simp
qed

lemma redelivery_ignored_witness:
  "processWithdrawal plain_geth sample_checker (sample_env sql_engine 99) (sample_started 1 120)
     (processWithdrawal plain_geth sample_checker (sample_env sql_engine 10) (sample_started 1 120)
       (new_state empty_db)) =
   processWithdrawal plain_geth sample_checker (sample_env sql_engine 10) (sample_started 1 120)
     (new_state empty_db)"
  by (rule redelivery_ignored) (simp_all add: fresh_id_def empty_db_def)

lemma recordEvent_ids:
  assumes "gorm_ok E"
  shows "we_WithdrawalID ` set (events (st_db (recordEvent E ev st))) \<subseteq>
    insert (we_WithdrawalID ev) (we_WithdrawalID ` set (events (st_db st)))"
proof -
  obtain r d' where d': "RecordWithdrawEvent E ev (st_db st) = (r, d')"
    by (cases "RecordWithdrawEvent E ev (st_db st)")
  then show ?thesis
    using RecordWithdrawEvent_cases [OF assms d'] record_event_facts(2) [OF assms, of ev "st_db st" d']
    by (cases r) (auto simp: recordEvent_def)
qed

lemma process_event_ids:
  assumes "gorm_ok (env_gorm env)"
  shows "we_WithdrawalID ` set (events (st_db (processWithdrawal G c env event st))) \<subseteq>
    insert (hash_hex G (ws_WithdrawalID event)) (we_WithdrawalID ` set (events (st_db st)))"
proof -
  have save: "events (snd (adapter_Save G (env_gorm env) w d)) = events d" for w d
    using adapter_Save_cases [OF assms, of G w d]
    by (cases "adapter_Save G (env_gorm env) w d") auto
  have id: "we_WithdrawalID (decide (base_model G event) decision reason) =
      hash_hex G (ws_WithdrawalID event)" for decision reason
    by (simp add: decide_def base_model_def)
  have rec: "we_WithdrawalID ` set (events (st_db (recordEvent (env_gorm env)
        (decide (base_model G event) decision reason) st1))) \<subseteq>
      insert (hash_hex G (ws_WithdrawalID event)) (we_WithdrawalID ` set (events (st_db st)))"
    if "events (st_db st1) = events (st_db st)" for decision reason st1
    using recordEvent_ids [OF assms, of "decide (base_model G event) decision reason" st1] that
    by (simp add: id)
  show ?thesis
    by (simp add: processWithdrawal_def reject_withdrawal_def finalize_withdrawal_def Let_def rec
        Record_def step_checker_def adapter_def save subset_insertI split: option.split sum.split)
qed

text \<open>
  C28: a finalized withdrawal whose ledger entry cannot be written is not counted. The error of
  \<open>Record\<close> is logged only, so the transaction is out, the ledger is as before, and the next check
  does not see the amount: the limit can be exceeded on the chain.
\<close>

theorem unsaved_withdrawal_not_counted:
  assumes "gorm_ok (env_gorm env)"
    and "\<not> HasWithdrawEvent (env_gorm env) (hash_hex G (ws_WithdrawalID event)) (st_db st)"
    and "Check G (step_checker G c env) (now_global env) (now_user env)
       (ws_User event) (ws_Token event) (ws_Amount event) (st_db st) = None"
    and "FinalizeWithdraw (env_contract env) (env_auth env) (ws_WithdrawalID event) = Inr tx"
    and "env_wait_mined env tx = Inr rc" "rc_Status rc = 1"
    and "fst (adapter_Save G (env_gorm env) (withdrawal_record env event tx rc) (st_db st)) \<noteq> None"
  shows "st_sent (processWithdrawal G c env event st) =
      st_sent st @ [SentFinalize (ws_WithdrawalID event) tx] \<and>
    withdrawals (st_db (processWithdrawal G c env event st)) = withdrawals (st_db st)"
proof -
  let ?w = "withdrawal_record env event tx rc"
  obtain r d' where s: "adapter_Save G (env_gorm env) ?w (st_db st) = (r, d')"
    by (cases "adapter_Save G (env_gorm env) ?w (st_db st)")
  then have "withdrawals d' = withdrawals (st_db st)"
    using adapter_Save_cases [OF assms(1) s] assms(7) by auto
  with assms s show ?thesis
    by (simp add: processWithdrawal_def finalize_withdrawal_def Let_def Record_def step_checker_def
        adapter_def)
qed

text \<open>The witness sends two withdrawals of 120 within an hour for a user whose limit is 150.\<close>

definition full_disk_run :: svc_state where
  "full_disk_run = processWithdrawal plain_geth sample_checker (sample_env full_engine 20)
     (sample_started 2 120)
     (processWithdrawal plain_geth sample_checker (sample_env full_engine 10) (sample_started 1 120)
       (new_state empty_db))"

lemma full_check_passes:
  assumes "withdrawals d = []"
  shows "Check plain_geth (step_checker plain_geth sample_checker (sample_env full_engine t)) t t
    7 5 120 d = None"
  using assms
  by (simp add: Check_def checkGlobalLimits_def checkUserLimits_def resolveUserLimit_def
      window_check_def step_checker_def sample_checker_def adapter_def
      adapter_GetTotalWithdrawn_def adapter_GetTotalWithdrawnByUser_def sql_engine_def full_engine_def
      sumAmounts_def)

lemma unsaved_withdrawal_not_counted_witness:
  "map sent_id (st_sent full_disk_run) = [1, 2] \<and> withdrawals (st_db full_disk_run) = []"
proof -
  let ?st = "processWithdrawal plain_geth sample_checker (sample_env full_engine 10) (sample_started 1 120)
    (new_state empty_db)"
  have step: "st_sent (processWithdrawal plain_geth sample_checker (sample_env full_engine t)
        (sample_started i 120) st) = st_sent st @ [SentFinalize i \<lparr>tx_Hash = 5\<rparr>] \<and>
      withdrawals (st_db (processWithdrawal plain_geth sample_checker (sample_env full_engine t)
        (sample_started i 120) st)) = []"
    if "withdrawals (st_db st) = []" "\<not> HasWithdrawEvent full_engine (hash_hex plain_geth i) (st_db st)"
    for t i st
    using unsaved_withdrawal_not_counted [of "sample_env full_engine t" plain_geth "sample_started i 120"
        st sample_checker "\<lparr>tx_Hash = 5\<rparr>" "\<lparr>rc_Status = 1, rc_BlockNumber = 22\<rparr>"]
      full_check_passes [OF that(1)] that
    by (simp add: sample_started_def FinalizeWithdraw_def sample_contract_def adapter_Save_def)
      (simp add: full_engine_def)
  have "\<not> HasWithdrawEvent full_engine (hash_hex plain_geth i) empty_db" for i
    by (simp add: HasWithdrawEvent_def full_engine_def sql_engine_def empty_db_def)
  then have 1: "st_sent ?st = [SentFinalize 1 \<lparr>tx_Hash = 5\<rparr>] \<and> withdrawals (st_db ?st) = []"
    using step [of "new_state empty_db" 1 10] by (simp add: empty_db_def)
  have "we_WithdrawalID ` set (events (st_db ?st)) \<subseteq> {hash_hex plain_geth 1}"
    using process_event_ids [of "sample_env full_engine 10" plain_geth sample_checker
        "sample_started 1 120" "new_state empty_db"]
    by (simp add: empty_db_def sample_started_def)
  then have "\<not> HasWithdrawEvent full_engine (hash_hex plain_geth 2) (st_db ?st)"
    using hash_hex_eq [OF plain_geth_ok, of 2 1]
    by (force simp: HasWithdrawEvent_def full_engine_def sql_engine_def filter_empty_conv)
  with step [of ?st 2 20] 1 show ?thesis by (simp add: full_disk_run_def)
qed

section \<open>Only events lead to transactions\<close>

lemma reject_sent_ids:
  "sent_id ` set (st_sent (reject_withdrawal G env event err st)) \<subseteq>
     insert (ws_WithdrawalID event) (sent_id ` set (st_sent st))"
  by (auto simp: reject_withdrawal_def Let_def split: sum.splits)

lemma finalize_sent_ids:
  "sent_id ` set (st_sent (finalize_withdrawal G c env event st)) \<subseteq>
     insert (ws_WithdrawalID event) (sent_id ` set (st_sent st))"
  by (auto simp: finalize_withdrawal_def Let_def split: sum.splits if_splits)

lemma process_sent_ids:
  "sent_id ` set (st_sent (processWithdrawal G c env event st)) \<subseteq>
     insert (ws_WithdrawalID event) (sent_id ` set (st_sent st))"
  using reject_sent_ids finalize_sent_ids
  by (simp add: processWithdrawal_def Let_def subset_insertI split: option.split)

lemma worker_sent_ids:
  "sent_id ` set (st_sent (worker_loop G c steps st)) \<subseteq>
     sent_id ` set (st_sent st) \<union> (ws_WithdrawalID \<circ> snd) ` set steps"
proof (induction steps arbitrary: st)
  case (Cons step steps)
  obtain env event where step: "step = (env, event)" by (cases step)
  show ?case
    using Cons [of "processWithdrawal G c env event st"] process_sent_ids [of G c env event st]
    by (auto simp: step)
qed simp

end
