(* ===== verification/Simple_Custody_Bindings.thy ===== *)
theory Simple_Custody_Bindings
  imports Bindings
begin

text \<open>
  \<open>custody/simple_custody.go\<close>: the bindings of the deployed contract \<open>SimpleCustody\<close>, with its view
  methods, its transactors and the six events it can emit. The generator is that of the other two
  bindings, so iterators and watchers are the ones of theory Bindings at each event's struct; the
  structs the contract shares with its interfaces have the same fields there and here.
\<close>

section \<open>Calling view methods\<close>

text \<open>
  A call returns the converted results or the error; a result that is missing or of another type
  makes the generated code panic.
\<close>

datatype 'a call_result = Returned 'a | Failed go_error | Panics

definition call_with ::
    "(abi_arg list \<Rightarrow> 'a option) \<Rightarrow> bound_contract \<Rightarrow> call_opts \<Rightarrow> string \<Rightarrow> abi_arg list \<Rightarrow>
     'a call_result" where
  "call_with conv C opts m args =
     (case Call C opts m args of
        Inl err \<Rightarrow> Failed err
      | Inr out \<Rightarrow> (case conv out of None \<Rightarrow> Panics | Some x \<Rightarrow> Returned x))"

definition as_bytes32 :: "abi_arg list \<Rightarrow> hash option" where
  "as_bytes32 out = (case out of ABytes32 x # _ \<Rightarrow> Some x | _ \<Rightarrow> None)"

definition as_bool :: "abi_arg list \<Rightarrow> bool option" where
  "as_bool out = (case out of ABool x # _ \<Rightarrow> Some x | _ \<Rightarrow> None)"

record withdrawal_info =
  wi_User :: address
  wi_Token :: address
  wi_Amount :: int
  wi_Exists :: bool
  wi_Finalized :: bool

definition as_withdrawal :: "abi_arg list \<Rightarrow> withdrawal_info option" where
  "as_withdrawal out =
     (case out of
        AAddress u # AAddress t # AUint a # ABool e # ABool f # _ \<Rightarrow>
          Some \<lparr>wi_User = u, wi_Token = t, wi_Amount = a, wi_Exists = e, wi_Finalized = f\<rparr>
      | _ \<Rightarrow> None)"

definition sc_DEFAULTADMINROLE :: "bound_contract \<Rightarrow> call_opts \<Rightarrow> hash call_result" where
  "sc_DEFAULTADMINROLE C opts = call_with as_bytes32 C opts ''DEFAULT_ADMIN_ROLE'' []"

definition sc_NEODAXROLE :: "bound_contract \<Rightarrow> call_opts \<Rightarrow> hash call_result" where
  "sc_NEODAXROLE C opts = call_with as_bytes32 C opts ''NEODAX_ROLE'' []"

definition sc_NITEWATCHROLE :: "bound_contract \<Rightarrow> call_opts \<Rightarrow> hash call_result" where
  "sc_NITEWATCHROLE C opts = call_with as_bytes32 C opts ''NITEWATCH_ROLE'' []"

definition sc_GetRoleAdmin :: "bound_contract \<Rightarrow> call_opts \<Rightarrow> hash \<Rightarrow> hash call_result" where
  "sc_GetRoleAdmin C opts role = call_with as_bytes32 C opts ''getRoleAdmin'' [ABytes32 role]"

definition sc_HasRole :: "bound_contract \<Rightarrow> call_opts \<Rightarrow> hash \<Rightarrow> address \<Rightarrow> bool call_result" where
  "sc_HasRole C opts role account = call_with as_bool C opts ''hasRole'' [ABytes32 role, AAddress account]"

definition sc_SupportsInterface :: "bound_contract \<Rightarrow> call_opts \<Rightarrow> 32 word \<Rightarrow> bool call_result" where
  "sc_SupportsInterface C opts interfaceId =
     call_with as_bool C opts ''supportsInterface'' [ABytes4 interfaceId]"

definition sc_Withdrawals :: "bound_contract \<Rightarrow> call_opts \<Rightarrow> hash \<Rightarrow> withdrawal_info call_result" where
  "sc_Withdrawals C opts arg0 = call_with as_withdrawal C opts ''withdrawals'' [ABytes32 arg0]"

section \<open>Transactors\<close>

definition sc_Deposit ::
    "bound_contract \<Rightarrow> transact_opts \<Rightarrow> address \<Rightarrow> int \<Rightarrow> go_error + eth_tx" where
  "sc_Deposit C opts token amount =
     Transact C opts ''deposit'' [AAddress token, AUint amount]"

definition sc_FinalizeWithdraw ::
    "bound_contract \<Rightarrow> transact_opts \<Rightarrow> hash \<Rightarrow> go_error + eth_tx" where
  "sc_FinalizeWithdraw C opts withdrawalId =
     Transact C opts ''finalizeWithdraw'' [ABytes32 withdrawalId]"

definition sc_GrantRole ::
    "bound_contract \<Rightarrow> transact_opts \<Rightarrow> hash \<Rightarrow> address \<Rightarrow> go_error + eth_tx" where
  "sc_GrantRole C opts role account =
     Transact C opts ''grantRole'' [ABytes32 role, AAddress account]"

definition sc_RejectWithdraw ::
    "bound_contract \<Rightarrow> transact_opts \<Rightarrow> hash \<Rightarrow> go_error + eth_tx" where
  "sc_RejectWithdraw C opts withdrawalId =
     Transact C opts ''rejectWithdraw'' [ABytes32 withdrawalId]"

definition sc_RenounceRole ::
    "bound_contract \<Rightarrow> transact_opts \<Rightarrow> hash \<Rightarrow> address \<Rightarrow> go_error + eth_tx" where
  "sc_RenounceRole C opts role callerConfirmation =
     Transact C opts ''renounceRole'' [ABytes32 role, AAddress callerConfirmation]"

definition sc_RevokeRole ::
    "bound_contract \<Rightarrow> transact_opts \<Rightarrow> hash \<Rightarrow> address \<Rightarrow> go_error + eth_tx" where
  "sc_RevokeRole C opts role account =
     Transact C opts ''revokeRole'' [ABytes32 role, AAddress account]"

definition sc_StartWithdraw ::
    "bound_contract \<Rightarrow> transact_opts \<Rightarrow> address \<Rightarrow> address \<Rightarrow> int \<Rightarrow> int \<Rightarrow> go_error + eth_tx" where
  "sc_StartWithdraw C opts user token amount nonce =
     Transact C opts ''startWithdraw'' [AAddress user, AAddress token, AUint amount, AUint nonce]"

section \<open>The contract's events\<close>

text \<open>
  The structs of the three events of the interfaces have the fields of their counterparts there.
\<close>

type_synonym sc_deposited = i_deposited
type_synonym sc_withdraw_finalized = i_withdraw_finalized
type_synonym sc_withdraw_started = i_withdraw_started

record sc_role_admin_changed =
  rac_Role :: hash
  rac_PreviousAdminRole :: hash
  rac_NewAdminRole :: hash
  rac_Raw :: eth_log

record sc_role_granted =
  rg_Role :: hash
  rg_Account :: address
  rg_Sender :: address
  rg_Raw :: eth_log

record sc_role_revoked =
  rr_Role :: hash
  rr_Account :: address
  rr_Sender :: address
  rr_Raw :: eth_log

definition mk_role_admin_changed :: "abi_arg list \<Rightarrow> eth_log \<Rightarrow> go_error + sc_role_admin_changed" where
  "mk_role_admin_changed args raw =
     (case args of
        [ABytes32 r, ABytes32 p, ABytes32 n] \<Rightarrow>
          Inr \<lparr>rac_Role = r, rac_PreviousAdminRole = p, rac_NewAdminRole = n, rac_Raw = raw\<rparr>
      | _ \<Rightarrow> Inl cannot_unmarshal)"

definition mk_role_granted :: "abi_arg list \<Rightarrow> eth_log \<Rightarrow> go_error + sc_role_granted" where
  "mk_role_granted args raw =
     (case args of
        [ABytes32 r, AAddress a, AAddress s] \<Rightarrow>
          Inr \<lparr>rg_Role = r, rg_Account = a, rg_Sender = s, rg_Raw = raw\<rparr>
      | _ \<Rightarrow> Inl cannot_unmarshal)"

definition mk_role_revoked :: "abi_arg list \<Rightarrow> eth_log \<Rightarrow> go_error + sc_role_revoked" where
  "mk_role_revoked args raw =
     (case args of
        [ABytes32 r, AAddress a, AAddress s] \<Rightarrow>
          Inr \<lparr>rr_Role = r, rr_Account = a, rr_Sender = s, rr_Raw = raw\<rparr>
      | _ \<Rightarrow> Inl cannot_unmarshal)"

interpretation role_admin_changed: event_struct mk_role_admin_changed rac_Raw
  by unfold_locales (auto simp: mk_role_admin_changed_def split: list.splits abi_arg.splits)

interpretation role_granted: event_struct mk_role_granted rg_Raw
  by unfold_locales (auto simp: mk_role_granted_def split: list.splits abi_arg.splits)

interpretation role_revoked: event_struct mk_role_revoked rr_Raw
  by unfold_locales (auto simp: mk_role_revoked_def split: list.splits abi_arg.splits)

section \<open>Parsers, filters, iterators and watchers per event\<close>

definition sc_ParseDeposited :: "bound_contract \<Rightarrow> eth_log \<Rightarrow> go_error + sc_deposited" where
  "sc_ParseDeposited C log = unpack_event mk_deposited C ''Deposited'' log"

definition sc_FilterDeposited ::
    "bound_contract \<Rightarrow> filter_opts \<Rightarrow> address list \<Rightarrow> address list \<Rightarrow>
     go_error + sc_deposited log_iterator" where
  "sc_FilterDeposited C opts user token =
     (let userRule = map AAddress user;
          tokenRule = map AAddress token in
      case FilterLogs C opts ''Deposited'' [userRule, tokenRule] of
        Inl err \<Rightarrow> Inl err
      | Inr chans \<Rightarrow> Inr (new_iterator C ''Deposited'' chans))"

definition sc_NextDeposited ::
    "bool \<Rightarrow> sc_deposited log_iterator \<Rightarrow> (bool \<times> sc_deposited log_iterator) option" where
  "sc_NextDeposited = iter_next mk_deposited"

definition sc_WatchDeposited ::
    "bound_contract \<Rightarrow> address list \<Rightarrow> address list \<Rightarrow> watch_step list \<Rightarrow>
     go_error + (sc_deposited list \<times> go_error option option)" where
  "sc_WatchDeposited C user token steps =
     (let userRule = map AAddress user;
          tokenRule = map AAddress token in
      case WatchLogs C ''Deposited'' [userRule, tokenRule] of
        Some err \<Rightarrow> Inl err
      | None \<Rightarrow> Inr (watch_loop mk_deposited C ''Deposited'' steps))"

definition sc_ParseRoleAdminChanged :: "bound_contract \<Rightarrow> eth_log \<Rightarrow> go_error + sc_role_admin_changed" where
  "sc_ParseRoleAdminChanged C log = unpack_event mk_role_admin_changed C ''RoleAdminChanged'' log"

definition sc_FilterRoleAdminChanged ::
    "bound_contract \<Rightarrow> filter_opts \<Rightarrow> hash list \<Rightarrow> hash list \<Rightarrow> hash list \<Rightarrow>
     go_error + sc_role_admin_changed log_iterator" where
  "sc_FilterRoleAdminChanged C opts role previousAdminRole newAdminRole =
     (let roleRule = map ABytes32 role;
          previousAdminRoleRule = map ABytes32 previousAdminRole;
          newAdminRoleRule = map ABytes32 newAdminRole in
      case FilterLogs C opts ''RoleAdminChanged'' [roleRule, previousAdminRoleRule, newAdminRoleRule] of
        Inl err \<Rightarrow> Inl err
      | Inr chans \<Rightarrow> Inr (new_iterator C ''RoleAdminChanged'' chans))"

definition sc_NextRoleAdminChanged ::
    "bool \<Rightarrow> sc_role_admin_changed log_iterator \<Rightarrow> (bool \<times> sc_role_admin_changed log_iterator) option" where
  "sc_NextRoleAdminChanged = iter_next mk_role_admin_changed"

definition sc_WatchRoleAdminChanged ::
    "bound_contract \<Rightarrow> hash list \<Rightarrow> hash list \<Rightarrow> hash list \<Rightarrow> watch_step list \<Rightarrow>
     go_error + (sc_role_admin_changed list \<times> go_error option option)" where
  "sc_WatchRoleAdminChanged C role previousAdminRole newAdminRole steps =
     (let roleRule = map ABytes32 role;
          previousAdminRoleRule = map ABytes32 previousAdminRole;
          newAdminRoleRule = map ABytes32 newAdminRole in
      case WatchLogs C ''RoleAdminChanged'' [roleRule, previousAdminRoleRule, newAdminRoleRule] of
        Some err \<Rightarrow> Inl err
      | None \<Rightarrow> Inr (watch_loop mk_role_admin_changed C ''RoleAdminChanged'' steps))"

definition sc_ParseRoleGranted :: "bound_contract \<Rightarrow> eth_log \<Rightarrow> go_error + sc_role_granted" where
  "sc_ParseRoleGranted C log = unpack_event mk_role_granted C ''RoleGranted'' log"

definition sc_FilterRoleGranted ::
    "bound_contract \<Rightarrow> filter_opts \<Rightarrow> hash list \<Rightarrow> address list \<Rightarrow> address list \<Rightarrow>
     go_error + sc_role_granted log_iterator" where
  "sc_FilterRoleGranted C opts role account sender =
     (let roleRule = map ABytes32 role;
          accountRule = map AAddress account;
          senderRule = map AAddress sender in
      case FilterLogs C opts ''RoleGranted'' [roleRule, accountRule, senderRule] of
        Inl err \<Rightarrow> Inl err
      | Inr chans \<Rightarrow> Inr (new_iterator C ''RoleGranted'' chans))"

definition sc_NextRoleGranted ::
    "bool \<Rightarrow> sc_role_granted log_iterator \<Rightarrow> (bool \<times> sc_role_granted log_iterator) option" where
  "sc_NextRoleGranted = iter_next mk_role_granted"

definition sc_WatchRoleGranted ::
    "bound_contract \<Rightarrow> hash list \<Rightarrow> address list \<Rightarrow> address list \<Rightarrow> watch_step list \<Rightarrow>
     go_error + (sc_role_granted list \<times> go_error option option)" where
  "sc_WatchRoleGranted C role account sender steps =
     (let roleRule = map ABytes32 role;
          accountRule = map AAddress account;
          senderRule = map AAddress sender in
      case WatchLogs C ''RoleGranted'' [roleRule, accountRule, senderRule] of
        Some err \<Rightarrow> Inl err
      | None \<Rightarrow> Inr (watch_loop mk_role_granted C ''RoleGranted'' steps))"

definition sc_ParseRoleRevoked :: "bound_contract \<Rightarrow> eth_log \<Rightarrow> go_error + sc_role_revoked" where
  "sc_ParseRoleRevoked C log = unpack_event mk_role_revoked C ''RoleRevoked'' log"

definition sc_FilterRoleRevoked ::
    "bound_contract \<Rightarrow> filter_opts \<Rightarrow> hash list \<Rightarrow> address list \<Rightarrow> address list \<Rightarrow>
     go_error + sc_role_revoked log_iterator" where
  "sc_FilterRoleRevoked C opts role account sender =
     (let roleRule = map ABytes32 role;
          accountRule = map AAddress account;
          senderRule = map AAddress sender in
      case FilterLogs C opts ''RoleRevoked'' [roleRule, accountRule, senderRule] of
        Inl err \<Rightarrow> Inl err
      | Inr chans \<Rightarrow> Inr (new_iterator C ''RoleRevoked'' chans))"

definition sc_NextRoleRevoked ::
    "bool \<Rightarrow> sc_role_revoked log_iterator \<Rightarrow> (bool \<times> sc_role_revoked log_iterator) option" where
  "sc_NextRoleRevoked = iter_next mk_role_revoked"

definition sc_WatchRoleRevoked ::
    "bound_contract \<Rightarrow> hash list \<Rightarrow> address list \<Rightarrow> address list \<Rightarrow> watch_step list \<Rightarrow>
     go_error + (sc_role_revoked list \<times> go_error option option)" where
  "sc_WatchRoleRevoked C role account sender steps =
     (let roleRule = map ABytes32 role;
          accountRule = map AAddress account;
          senderRule = map AAddress sender in
      case WatchLogs C ''RoleRevoked'' [roleRule, accountRule, senderRule] of
        Some err \<Rightarrow> Inl err
      | None \<Rightarrow> Inr (watch_loop mk_role_revoked C ''RoleRevoked'' steps))"

definition sc_ParseWithdrawFinalized :: "bound_contract \<Rightarrow> eth_log \<Rightarrow> go_error + sc_withdraw_finalized" where
  "sc_ParseWithdrawFinalized C log = unpack_event mk_withdraw_finalized C ''WithdrawFinalized'' log"

definition sc_FilterWithdrawFinalized ::
    "bound_contract \<Rightarrow> filter_opts \<Rightarrow> hash list \<Rightarrow>
     go_error + sc_withdraw_finalized log_iterator" where
  "sc_FilterWithdrawFinalized C opts withdrawalId =
     (let withdrawalIdRule = map ABytes32 withdrawalId in
      case FilterLogs C opts ''WithdrawFinalized'' [withdrawalIdRule] of
        Inl err \<Rightarrow> Inl err
      | Inr chans \<Rightarrow> Inr (new_iterator C ''WithdrawFinalized'' chans))"

definition sc_NextWithdrawFinalized ::
    "bool \<Rightarrow> sc_withdraw_finalized log_iterator \<Rightarrow> (bool \<times> sc_withdraw_finalized log_iterator) option" where
  "sc_NextWithdrawFinalized = iter_next mk_withdraw_finalized"

definition sc_WatchWithdrawFinalized ::
    "bound_contract \<Rightarrow> hash list \<Rightarrow> watch_step list \<Rightarrow>
     go_error + (sc_withdraw_finalized list \<times> go_error option option)" where
  "sc_WatchWithdrawFinalized C withdrawalId steps =
     (let withdrawalIdRule = map ABytes32 withdrawalId in
      case WatchLogs C ''WithdrawFinalized'' [withdrawalIdRule] of
        Some err \<Rightarrow> Inl err
      | None \<Rightarrow> Inr (watch_loop mk_withdraw_finalized C ''WithdrawFinalized'' steps))"

definition sc_ParseWithdrawStarted :: "bound_contract \<Rightarrow> eth_log \<Rightarrow> go_error + sc_withdraw_started" where
  "sc_ParseWithdrawStarted C log = unpack_event mk_withdraw_started C ''WithdrawStarted'' log"

definition sc_FilterWithdrawStarted ::
    "bound_contract \<Rightarrow> filter_opts \<Rightarrow> hash list \<Rightarrow> address list \<Rightarrow> address list \<Rightarrow>
     go_error + sc_withdraw_started log_iterator" where
  "sc_FilterWithdrawStarted C opts withdrawalId user token =
     (let withdrawalIdRule = map ABytes32 withdrawalId;
          userRule = map AAddress user;
          tokenRule = map AAddress token in
      case FilterLogs C opts ''WithdrawStarted'' [withdrawalIdRule, userRule, tokenRule] of
        Inl err \<Rightarrow> Inl err
      | Inr chans \<Rightarrow> Inr (new_iterator C ''WithdrawStarted'' chans))"

definition sc_NextWithdrawStarted ::
    "bool \<Rightarrow> sc_withdraw_started log_iterator \<Rightarrow> (bool \<times> sc_withdraw_started log_iterator) option" where
  "sc_NextWithdrawStarted = iter_next mk_withdraw_started"

definition sc_WatchWithdrawStarted ::
    "bound_contract \<Rightarrow> hash list \<Rightarrow> address list \<Rightarrow> address list \<Rightarrow> watch_step list \<Rightarrow>
     go_error + (sc_withdraw_started list \<times> go_error option option)" where
  "sc_WatchWithdrawStarted C withdrawalId user token steps =
     (let withdrawalIdRule = map ABytes32 withdrawalId;
          userRule = map AAddress user;
          tokenRule = map AAddress token in
      case WatchLogs C ''WithdrawStarted'' [withdrawalIdRule, userRule, tokenRule] of
        Some err \<Rightarrow> Inl err
      | None \<Rightarrow> Inr (watch_loop mk_withdraw_started C ''WithdrawStarted'' steps))"

section \<open>Binding the contract\<close>

definition bindSimpleCustody ::
    "go_error + abi \<Rightarrow> 'c new_bound \<Rightarrow> address \<Rightarrow> 'c option \<Rightarrow> 'c option \<Rightarrow> 'c option \<Rightarrow>
     go_error + bound_contract" where
  "bindSimpleCustody abi new_bound addr caller transactor filterer =
     (case abi of
        Inl err \<Rightarrow> Inl err
      | Inr parsed \<Rightarrow> Inr (new_bound addr parsed caller transactor filterer))"

definition NewSimpleCustody ::
    "go_error + abi \<Rightarrow> 'c new_bound \<Rightarrow> address \<Rightarrow> 'c \<Rightarrow> go_error + bound_contract" where
  "NewSimpleCustody abi new_bound addr backend =
     (case bindSimpleCustody abi new_bound addr (Some backend) (Some backend) (Some backend) of
        Inl err \<Rightarrow> Inl err
      | Inr contract \<Rightarrow> Inr contract)"

end
