(* ===== verification/Custody_Contract.thy ===== *)
theory Custody_Contract
  imports Simple_Custody_Bindings
begin

text \<open>
  The contract the service works for, \<open>contracts/evm/src/SimpleCustody.sol\<close>: deposits, and the life
  of a withdrawal request from \<open>startWithdraw\<close> to \<open>finalizeWithdraw\<close> or \<open>rejectWithdraw\<close>. A call that
  reverts is an error value and leaves the state as it was. OpenZeppelin's \<open>AccessControl\<close>,
  \<open>SafeERC20\<close> and \<open>ReentrancyGuard\<close>, the tokens and \<open>keccak256\<close> are not under \<open>src/\<close>: their answers are
  fields of the call's environment. The guard keeps a call made from within a transfer out of all
  four functions, so a call is one step.
\<close>

section \<open>State, environment and events\<close>

type_synonym uint256 = "256 word"

record request =
  rq_user :: address
  rq_token :: address
  rq_amount :: uint256
  rq_exists :: bool
  rq_finalized :: bool

type_synonym custody = "hash \<Rightarrow> request"

text \<open>A mapping in storage is zero everywhere at first.\<close>

definition no_request :: request where
  "no_request =
     \<lparr>rq_user = 0, rq_token = 0, rq_amount = 0, rq_exists = False, rq_finalized = False\<rparr>"

text \<open>
  \<open>ce_neodax\<close>, \<open>ce_nitewatch\<close>: whether the sender has the role; \<open>ce_entered\<close>: the guard is taken;
  \<open>ce_request_id\<close>: the hash of the encoded arguments, with the chain and the contract;
  \<open>ce_balance\<close>: the contract's balance of a token (0 is Ether); \<open>ce_pull\<close>: the balance after
  \<open>safeTransferFrom\<close>, if it succeeds; \<open>ce_pay\<close>: whether the payment to a user succeeds.
\<close>

record call_env =
  ce_sender :: address
  ce_value :: uint256
  ce_neodax :: bool
  ce_nitewatch :: bool
  ce_entered :: bool
  ce_request_id :: "address \<Rightarrow> address \<Rightarrow> uint256 \<Rightarrow> uint256 \<Rightarrow> hash"
  ce_balance :: "address \<Rightarrow> uint256"
  ce_pull :: "address \<Rightarrow> uint256 \<Rightarrow> uint256 option"
  ce_pay :: "address \<Rightarrow> address \<Rightarrow> uint256 \<Rightarrow> bool"

datatype custody_error =
    ZeroAmount
  | MsgValueMismatch
  | NonZeroMsgValueForERC20
  | InsufficientLiquidity
  | ETHTransferFailed
  | WithdrawalAlreadyExists
  | WithdrawalNotFound
  | WithdrawalAlreadyFinalized
  | UnauthorizedAccount
  | ReentrantCall
  | TokenTransferFailed
  | ArithmeticPanic

datatype custody_event =
    Deposited address address uint256
  | WithdrawStarted hash address address uint256 uint256
  | WithdrawFinalized hash bool

text \<open>A payment out of the contract: the request, the receiver, the token and the amount.\<close>

type_synonym payment = "hash \<times> address \<times> address \<times> uint256"

type_synonym exec_result = "custody_error + (custody \<times> custody_event list \<times> payment list)"

section \<open>The contract's functions\<close>

definition contract_deposit :: "call_env \<Rightarrow> address \<Rightarrow> uint256 \<Rightarrow> custody \<Rightarrow> exec_result" where
  "contract_deposit ce token amount s =
     (if ce_entered ce then Inl ReentrantCall
      else if amount = 0 then Inl ZeroAmount
      else if token = 0 then
        (if ce_value ce \<noteq> amount then Inl MsgValueMismatch
         else Inr (s, [Deposited (ce_sender ce) token amount], []))
      else if ce_value ce \<noteq> 0 then Inl NonZeroMsgValueForERC20
      else
        (let balanceBefore = ce_balance ce token in
         case ce_pull ce token amount of
           None \<Rightarrow> Inl TokenTransferFailed
         | Some balanceAfter \<Rightarrow>
             if balanceAfter < balanceBefore then Inl ArithmeticPanic
             else Inr (s, [Deposited (ce_sender ce) token (balanceAfter - balanceBefore)], [])))"

definition contract_startWithdraw ::
    "call_env \<Rightarrow> address \<Rightarrow> address \<Rightarrow> uint256 \<Rightarrow> uint256 \<Rightarrow> custody \<Rightarrow> exec_result" where
  "contract_startWithdraw ce user token amount nonce s =
     (if \<not> ce_neodax ce then Inl UnauthorizedAccount
      else if ce_entered ce then Inl ReentrantCall
      else if amount = 0 then Inl ZeroAmount
      else
        (let withdrawalId = ce_request_id ce user token amount nonce in
         if rq_exists (s withdrawalId) then Inl WithdrawalAlreadyExists
         else Inr (s(withdrawalId := \<lparr>rq_user = user, rq_token = token, rq_amount = amount,
                       rq_exists = True, rq_finalized = False\<rparr>),
                   [WithdrawStarted withdrawalId user token amount nonce], [])))"

definition contract_finalizeWithdraw :: "call_env \<Rightarrow> hash \<Rightarrow> custody \<Rightarrow> exec_result" where
  "contract_finalizeWithdraw ce withdrawalId s =
     (if \<not> ce_nitewatch ce then Inl UnauthorizedAccount
      else if ce_entered ce then Inl ReentrantCall
      else
        (let request = s withdrawalId in
         if \<not> rq_exists request then Inl WithdrawalNotFound
         else if rq_finalized request then Inl WithdrawalAlreadyFinalized
         else
           (let user = rq_user request; token = rq_token request; amount = rq_amount request;
                s' = s(withdrawalId := request\<lparr>rq_finalized := True, rq_user := 0, rq_token := 0,
                         rq_amount := 0\<rparr>)
            in if ce_balance ce token < amount then Inl InsufficientLiquidity
               else if \<not> ce_pay ce token user amount
               then Inl (if token = 0 then ETHTransferFailed else TokenTransferFailed)
               else Inr (s', [WithdrawFinalized withdrawalId True],
                         [(withdrawalId, user, token, amount)]))))"

definition contract_rejectWithdraw :: "call_env \<Rightarrow> hash \<Rightarrow> custody \<Rightarrow> exec_result" where
  "contract_rejectWithdraw ce withdrawalId s =
     (if \<not> ce_nitewatch ce then Inl UnauthorizedAccount
      else if ce_entered ce then Inl ReentrantCall
      else
        (let request = s withdrawalId in
         if \<not> rq_exists request then Inl WithdrawalNotFound
         else if rq_finalized request then Inl WithdrawalAlreadyFinalized
         else Inr (s(withdrawalId := request\<lparr>rq_finalized := True\<rparr>),
                   [WithdrawFinalized withdrawalId False], [])))"

section \<open>Transactions and runs\<close>

datatype custody_call =
    DepositCall address uint256
  | StartCall address address uint256 uint256
  | FinalizeCall hash
  | RejectCall hash

fun custody_exec :: "call_env \<Rightarrow> custody_call \<Rightarrow> custody \<Rightarrow> exec_result" where
  "custody_exec ce (DepositCall token amount) s = contract_deposit ce token amount s"
| "custody_exec ce (StartCall user token amount nonce) s =
     contract_startWithdraw ce user token amount nonce s"
| "custody_exec ce (FinalizeCall i) s = contract_finalizeWithdraw ce i s"
| "custody_exec ce (RejectCall i) s = contract_rejectWithdraw ce i s"

fun_cases exec_depositE: "custody_exec ce (DepositCall token amount) s = Inr r"
  and exec_startE: "custody_exec ce (StartCall user token amount nonce) s = Inr r"
  and exec_finalizeE: "custody_exec ce (FinalizeCall i) s = Inr r"
  and exec_rejectE: "custody_exec ce (RejectCall i) s = Inr r"

text \<open>The contract on the chain: its storage, the events it emitted and the payments it made.\<close>

record ledgered_custody =
  lc_state :: custody
  lc_events :: "custody_event list"
  lc_paid :: "payment list"

definition contract_init :: ledgered_custody where
  "contract_init = \<lparr>lc_state = (\<lambda>_. no_request), lc_events = [], lc_paid = []\<rparr>"

definition custody_apply :: "call_env \<Rightarrow> custody_call \<Rightarrow> ledgered_custody \<Rightarrow> ledgered_custody" where
  "custody_apply ce call c =
     (case custody_exec ce call (lc_state c) of
        Inl err \<Rightarrow> c
      | Inr (s, evs, pays) \<Rightarrow>
          \<lparr>lc_state = s, lc_events = lc_events c @ evs, lc_paid = lc_paid c @ pays\<rparr>)"

fun custody_run :: "(call_env \<times> custody_call) list \<Rightarrow> ledgered_custody \<Rightarrow> ledgered_custody" where
  "custody_run [] c = c"
| "custody_run ((ce, call) # rest) c = custody_run rest (custody_apply ce call c)"

lemma custody_run_append: "custody_run (calls @ calls') c = custody_run calls' (custody_run calls c)"
  by (induction calls c rule: custody_run.induct) simp_all

section \<open>The life of a request\<close>

definition started :: "custody_event list \<Rightarrow> hash list" where
  "started evs = concat (map (\<lambda>e. case e of WithdrawStarted i _ _ _ _ \<Rightarrow> [i] | _ \<Rightarrow> []) evs)"

definition finalized :: "custody_event list \<Rightarrow> hash list" where
  "finalized evs = concat (map (\<lambda>e. case e of WithdrawFinalized i _ \<Rightarrow> [i] | _ \<Rightarrow> []) evs)"

lemma started_simps [simp]:
  "started [] = []" "started (evs @ evs') = started evs @ started evs'"
  "started [Deposited u t a] = []" "started [WithdrawStarted i u t a n] = [i]"
  "started [WithdrawFinalized i b] = []"
  by (simp_all add: started_def)

lemma finalized_simps [simp]:
  "finalized [] = []" "finalized (evs @ evs') = finalized evs @ finalized evs'"
  "finalized [Deposited u t a] = []" "finalized [WithdrawStarted i u t a n] = []"
  "finalized [WithdrawFinalized i b] = [i]"
  by (simp_all add: finalized_def)

lemma finalized_twice:
  assumes "WithdrawFinalized i b \<in> set evs" "WithdrawFinalized i b' \<in> set evs" "b \<noteq> b'"
  shows "\<not> distinct (finalized evs)"
  using assms
proof (induction evs)
  case (Cons e evs)
  have mem: "WithdrawFinalized i x \<in> set evs \<Longrightarrow> i \<in> set (finalized evs)" for x
    by (force simp: finalized_def)
  show ?case using Cons mem by (cases e) (auto simp: finalized_def)
qed simp

text \<open>
  Storage and history agree: a request exists when it was started, is finalized when an event says
  so, and holds the values it was started with until then; what was paid was started with just these
  values and finalized with success.
\<close>

definition custody_inv :: "ledgered_custody \<Rightarrow> bool" where
  "custody_inv c \<longleftrightarrow>
     distinct (started (lc_events c)) \<and> distinct (finalized (lc_events c)) \<and>
     distinct (map fst (lc_paid c)) \<and>
     (\<forall>i. rq_exists (lc_state c i) \<longleftrightarrow> i \<in> set (started (lc_events c))) \<and>
     (\<forall>i. rq_finalized (lc_state c i) \<longleftrightarrow> i \<in> set (finalized (lc_events c))) \<and>
     set (finalized (lc_events c)) \<subseteq> set (started (lc_events c)) \<and>
     (\<forall>i. rq_exists (lc_state c i) \<and> \<not> rq_finalized (lc_state c i) \<longrightarrow>
        (\<exists>n. WithdrawStarted i (rq_user (lc_state c i)) (rq_token (lc_state c i))
               (rq_amount (lc_state c i)) n \<in> set (lc_events c))) \<and>
     (\<forall>(i, u, t, a) \<in> set (lc_paid c). WithdrawFinalized i True \<in> set (lc_events c) \<and>
        (\<exists>n. WithdrawStarted i u t a n \<in> set (lc_events c)))"

lemma custody_inv_init: "custody_inv contract_init"
  by (simp add: custody_inv_def contract_init_def no_request_def)

lemma finalized_event: "WithdrawFinalized i b \<in> set evs \<Longrightarrow> i \<in> set (finalized evs)"
  by (force simp: finalized_def)

lemma started_event: "WithdrawStarted i u t a n \<in> set evs \<Longrightarrow> i \<in> set (started evs)"
  by (force simp: started_def)

lemma custody_inv_apply:
  assumes inv: "custody_inv c"
  shows "custody_inv (custody_apply ce call c)"
proof (cases "custody_exec ce call (lc_state c)")
  case (Inl err)
  then show ?thesis using inv by (simp add: custody_apply_def)
next
  case (Inr r)
  show ?thesis
  proof (cases call)
    case (DepositCall token amount)
    from Inr [unfolded DepositCall] have "contract_deposit ce token amount (lc_state c) = Inr r"
      by (rule exec_depositE) (erule sym)
    then have "\<exists>u a. r = (lc_state c, [Deposited u token a], [])"
      by (auto simp: contract_deposit_def Let_def split: if_splits option.splits)
    then obtain u a where r: "r = (lc_state c, [Deposited u token a], [])" by blast
    show ?thesis using inv by (auto simp: custody_apply_def Inr r custody_inv_def)
  next
    case (StartCall user token amount nonce)
    from Inr [unfolded StartCall] have run: "contract_startWithdraw ce user token amount nonce (lc_state c) = Inr r"
      by (rule exec_startE) (erule sym)
    let ?i = "ce_request_id ce user token amount nonce"
    from run have new: "\<not> rq_exists (lc_state c ?i)" and
      r: "r = ((lc_state c)(?i := \<lparr>rq_user = user, rq_token = token, rq_amount = amount,
                 rq_exists = True, rq_finalized = False\<rparr>),
               [WithdrawStarted ?i user token amount nonce], [])"
      by (auto simp: contract_startWithdraw_def Let_def split: if_splits)
    have "?i \<notin> set (started (lc_events c))" "?i \<notin> set (finalized (lc_events c))"
      using inv new by (auto simp: custody_inv_def)
    then show ?thesis
      using inv by (auto simp: custody_apply_def Inr r custody_inv_def split: if_splits)
  next
    case (FinalizeCall i)
    from Inr [unfolded FinalizeCall] have run: "contract_finalizeWithdraw ce i (lc_state c) = Inr r"
      by (rule exec_finalizeE) (erule sym)
    let ?q = "lc_state c i"
    from run have open_q: "rq_exists ?q" "\<not> rq_finalized ?q" and
      r: "r = ((lc_state c)(i := ?q\<lparr>rq_finalized := True, rq_user := 0, rq_token := 0, rq_amount := 0\<rparr>),
               [WithdrawFinalized i True], [(i, rq_user ?q, rq_token ?q, rq_amount ?q)])"
      by (auto simp: contract_finalizeWithdraw_def Let_def split: if_splits)
    have "i \<in> set (started (lc_events c))" "i \<notin> set (finalized (lc_events c))"
      using inv open_q by (auto simp: custody_inv_def)
    moreover have "i \<notin> fst ` set (lc_paid c)"
      using inv calculation(2) finalized_event by (fastforce simp: custody_inv_def)
    moreover obtain n where "WithdrawStarted i (rq_user ?q) (rq_token ?q) (rq_amount ?q) n \<in>
        set (lc_events c)"
      using inv open_q by (auto simp: custody_inv_def)
    ultimately show ?thesis
      using inv by (auto simp: custody_apply_def Inr r custody_inv_def)
  next
    case (RejectCall i)
    from Inr [unfolded RejectCall] have run: "contract_rejectWithdraw ce i (lc_state c) = Inr r"
      by (rule exec_rejectE) (erule sym)
    let ?q = "lc_state c i"
    from run have open_q: "rq_exists ?q" "\<not> rq_finalized ?q" and
      r: "r = ((lc_state c)(i := ?q\<lparr>rq_finalized := True\<rparr>), [WithdrawFinalized i False], [])"
      by (auto simp: contract_rejectWithdraw_def Let_def split: if_splits)
    have "i \<in> set (started (lc_events c))" "i \<notin> set (finalized (lc_events c))"
      using inv open_q by (auto simp: custody_inv_def)
    then show ?thesis
      using inv by (auto simp: custody_apply_def Inr r custody_inv_def)
  qed
qed

lemma custody_inv_run: "custody_inv c \<Longrightarrow> custody_inv (custody_run calls c)"
  by (induction calls c rule: custody_run.induct) (simp_all add: custody_inv_apply)

lemma custody_inv_paid:
  assumes inv: "custody_inv c"
  shows "distinct (map fst (lc_paid c)) \<and> distinct (finalized (lc_events c)) \<and>
    (\<forall>i u t a. (i, u, t, a) \<in> set (lc_paid c) \<longrightarrow>
       (\<exists>n. WithdrawStarted i u t a n \<in> set (lc_events c)) \<and>
       WithdrawFinalized i True \<in> set (lc_events c) \<and> WithdrawFinalized i False \<notin> set (lc_events c))"
proof -
  have "WithdrawFinalized i False \<notin> set (lc_events c)" if "WithdrawFinalized i True \<in> set (lc_events c)" for i
    using finalized_twice [OF that, of False] inv by (auto simp: custody_inv_def)
  with inv show ?thesis by (fastforce simp: custody_inv_def)
qed

section \<open>Properties\<close>

text \<open>
  C6: over any calls by anyone, in any order, every withdrawal request is finalized at most once and
  paid at most once; a payment goes to the user, in the token and the amount the request was started
  with, and only for a request finalized with success, never for a rejected one.
\<close>

theorem paid_once_as_requested:
  assumes "c = custody_run calls contract_init"
  shows "distinct (map fst (lc_paid c)) \<and> distinct (finalized (lc_events c)) \<and>
    (\<forall>i u t a. (i, u, t, a) \<in> set (lc_paid c) \<longrightarrow>
       (\<exists>n. WithdrawStarted i u t a n \<in> set (lc_events c)) \<and>
       WithdrawFinalized i True \<in> set (lc_events c) \<and> WithdrawFinalized i False \<notin> set (lc_events c))"
  unfolding assms by (rule custody_inv_paid [OF custody_inv_run [OF custody_inv_init]])

definition sample_call :: "address \<Rightarrow> call_env" where
  "sample_call sender =
     \<lparr>ce_sender = sender, ce_value = 0, ce_neodax = (sender = 1), ce_nitewatch = (sender = 2),
      ce_entered = False, ce_request_id = (\<lambda>user token amount nonce. ucast nonce),
      ce_balance = (\<lambda>_. 1000), ce_pull = (\<lambda>_ _. None), ce_pay = (\<lambda>_ _ _. True)\<rparr>"

definition sample_calls :: "(call_env \<times> custody_call) list" where
  "sample_calls =
     [(sample_call 1, StartCall 7 5 120 4), (sample_call 3, FinalizeCall 4),
      (sample_call 2, FinalizeCall 4), (sample_call 2, FinalizeCall 4), (sample_call 2, RejectCall 4)]"

lemma paid_once_as_requested_witness:
  "\<exists>c. c = custody_run sample_calls contract_init \<and> lc_paid c = [(4, 7, 5, 120)] \<and>
    WithdrawFinalized 4 False \<notin> set (lc_events c)"
proof -
  let ?c = "custody_run sample_calls contract_init"
  have paid: "lc_paid ?c = [(4, 7, 5, 120)]"
    by (simp add: sample_calls_def custody_apply_def contract_init_def no_request_def sample_call_def
        contract_startWithdraw_def contract_finalizeWithdraw_def contract_rejectWithdraw_def
        ucast_eq word_less_nat_alt)
  with paid_once_as_requested [OF refl, of sample_calls] show ?thesis by auto
qed


section \<open>Storage read through the bindings\<close>

text \<open>
  What the logs alone say of a request: the events are replayed over empty storage.
\<close>

fun replay_event :: "custody_event \<Rightarrow> custody \<Rightarrow> custody" where
  "replay_event (Deposited _ _ _) s = s"
| "replay_event (WithdrawStarted i u t a n) s =
     s(i := \<lparr>rq_user = u, rq_token = t, rq_amount = a, rq_exists = True, rq_finalized = False\<rparr>)"
| "replay_event (WithdrawFinalized i paid) s =
     s(i := (if paid then (s i)\<lparr>rq_finalized := True, rq_user := 0, rq_token := 0, rq_amount := 0\<rparr>
             else (s i)\<lparr>rq_finalized := True\<rparr>))"

definition replay :: "custody_event list \<Rightarrow> custody" where
  "replay evs = fold replay_event evs (\<lambda>_. no_request)"

lemma exec_replay:
  assumes "custody_exec ce call s = Inr (s', evs, pays)"
  shows "s' = fold replay_event evs s"
  using assms
  by (cases call)
    (auto simp: contract_deposit_def contract_startWithdraw_def contract_finalizeWithdraw_def
      contract_rejectWithdraw_def Let_def split: if_splits option.splits)

lemma replay_run:
  "lc_state c = replay (lc_events c) \<Longrightarrow>
    lc_state (custody_run calls c) = replay (lc_events (custody_run calls c))"
proof (induction calls c rule: custody_run.induct)
  case (2 ce call rest c)
  have "lc_state (custody_apply ce call c) = replay (lc_events (custody_apply ce call c))"
    using 2(2) exec_replay [of ce call "lc_state c"]
    by (auto simp: custody_apply_def replay_def split: sum.split)
  with 2(1) show ?case by simp
qed simp

text \<open>
  The node executes the getter of the public mapping on the contract's storage and returns the
  encoded fields.
\<close>

definition request_out :: "request \<Rightarrow> abi_arg list" where
  "request_out q = [AAddress (rq_user q), AAddress (rq_token q), AUint (uint (rq_amount q)),
     ABool (rq_exists q), ABool (rq_finalized q)]"

definition reads_storage :: "bound_contract \<Rightarrow> custody \<Rightarrow> bool" where
  "reads_storage C s \<longleftrightarrow> (\<forall>opts i. Call C opts ''withdrawals'' [ABytes32 i] = Inr (request_out (s i)))"

definition info_of :: "request \<Rightarrow> withdrawal_info" where
  "info_of q = \<lparr>wi_User = rq_user q, wi_Token = rq_token q, wi_Amount = uint (rq_amount q),
     wi_Exists = rq_exists q, wi_Finalized = rq_finalized q\<rparr>"

text \<open>
  C31: the bindings' \<open>Withdrawals\<close> and the contract's log tell the same story: what the method
  returns for an id, after any calls by anyone, is what replaying the emitted events gives for it,
  so a reader of the events knows the storage and the other way round.
\<close>

theorem withdrawals_view_replays_events:
  assumes "c = custody_run calls contract_init" "reads_storage C (lc_state c)"
  shows "sc_Withdrawals C opts i = Returned (info_of (replay (lc_events c) i))"
proof -
  have "lc_state contract_init = replay (lc_events contract_init)"
    by (simp add: contract_init_def replay_def)
  then have "lc_state c = replay (lc_events c)" using replay_run assms(1) by blast
  with assms(2) show ?thesis
    by (simp add: sc_Withdrawals_def call_with_def reads_storage_def request_out_def
        as_withdrawal_def info_of_def)
qed

definition reading_contract :: "custody \<Rightarrow> bound_contract" where
  "reading_contract s =
     \<lparr>Call = (\<lambda>opts m args. case args of
        [ABytes32 i] \<Rightarrow> Inr (request_out (s i)) | _ \<Rightarrow> Inl (Opaque ''execution reverted'')),
      Transact = (\<lambda>opts m args. Inl (Opaque ''no signer'')), PlainTransfer = (\<lambda>opts. Inl (Opaque ''no signer'')),
      FilterLogs = (\<lambda>opts name rules. Inr ([], None)), WatchLogs = (\<lambda>name rules. None),
      UnpackLog = (\<lambda>name log. Inr [])\<rparr>"

lemma withdrawals_view_replays_events_witness:
  "sc_Withdrawals (reading_contract (lc_state (custody_run sample_calls contract_init))) \<lparr>co_Pending = False, co_From = 0\<rparr> 4 =
    Returned (info_of (replay (lc_events (custody_run sample_calls contract_init)) 4))"
  by (rule withdrawals_view_replays_events [OF refl])
    (simp add: reads_storage_def reading_contract_def)

end
