(* ===== verification/World.thy ===== *)
theory World
  imports Policy Worker Custody_Contract
begin

text \<open>
  The service and the contract together. The chain executes the calls of others and the
  transactions the service sends; the service handles events the contract emitted. Shown: the
  payments of the contract are exactly the service's ledger, so the withdrawal policy bounds what
  leaves the contract.
\<close>

section \<open>Steps of the world\<close>

text \<open>
  Somebody else calls the contract, or the service handles an event, in a \<open>step_env\<close>, and its
  transaction, if it sends one, is executed in a \<open>call_env\<close>.
\<close>

datatype world_step =
    Other call_env custody_call
  | Serve step_env withdraw_started_event call_env

text \<open>\<open>w_times\<close>: for every payment of the contract, when the service recorded it.\<close>

record world =
  w_svc :: svc_state
  w_chain :: ledgered_custody
  w_times :: "time list"

fun tx_call :: "sent_tx \<Rightarrow> custody_call" where
  "tx_call (SentFinalize i tx) = FinalizeCall i"
| "tx_call (SentReject i tx) = RejectCall i"

definition new_txs :: "svc_state \<Rightarrow> svc_state \<Rightarrow> sent_tx list" where
  "new_txs st st' = drop (length (st_sent st)) (st_sent st')"

fun world_exec :: "geth \<Rightarrow> db checker \<Rightarrow> world_step \<Rightarrow> world \<Rightarrow> world" where
  "world_exec G c (Other ce call) w = w\<lparr>w_chain := custody_apply ce call (w_chain w)\<rparr>"
| "world_exec G c (Serve env event ce) w =
     (let st' = processWithdrawal G c env event (w_svc w);
          chain' = custody_run (map (\<lambda>tx. (ce, tx_call tx)) (new_txs (w_svc w) st')) (w_chain w);
          paid = length (lc_paid chain') - length (lc_paid (w_chain w))
      in \<lparr>w_svc = st', w_chain = chain', w_times = w_times w @ replicate paid (now_record env)\<rparr>)"

fun world_run :: "geth \<Rightarrow> db checker \<Rightarrow> world_step list \<Rightarrow> world \<Rightarrow> world" where
  "world_run G c [] w = w"
| "world_run G c (s # steps) w = world_run G c steps (world_exec G c s w)"

definition world_init :: world where
  "world_init = \<lparr>w_svc = new_state empty_db, w_chain = contract_init, w_times = []\<rparr>"

section \<open>What the world grants\<close>

text \<open>
  Only the service has the role that finalizes and rejects. An event it handles was emitted by the
  contract. The node answers: a sent transaction is mined, and the receipt says whether the contract
  executed it. The database answers and the clock does not go back.
\<close>

definition emitted :: "ledgered_custody \<Rightarrow> withdraw_started_event \<Rightarrow> bool" where
  "emitted chain event \<longleftrightarrow>
     (\<exists>a n. WithdrawStarted (ws_WithdrawalID event) (ws_User event) (ws_Token event) a n \<in>
        set (lc_events chain) \<and> ws_Amount event = uint a)"

definition tells_truth :: "step_env \<Rightarrow> withdraw_started_event \<Rightarrow> call_env \<Rightarrow> ledgered_custody \<Rightarrow> bool" where
  "tells_truth env event ce chain \<longleftrightarrow>
     (\<forall>tx. \<exists>rc. env_wait_mined env tx = Inr rc \<and>
        (FinalizeWithdraw (env_contract env) (env_auth env) (ws_WithdrawalID event) = Inr tx \<longrightarrow>
           (rc_Status rc = 1 \<longleftrightarrow>
            \<not> isl (contract_finalizeWithdraw ce (ws_WithdrawalID event) (lc_state chain)))))"

fun step_granted :: "time \<Rightarrow> world_step \<Rightarrow> world \<Rightarrow> bool" where
  "step_granted T (Other ce call) w \<longleftrightarrow> \<not> ce_nitewatch ce"
| "step_granted T (Serve env event ce) w \<longleftrightarrow>
     gorm_ok (env_gorm env) \<and> faultless (env_gorm env) \<and> emitted (w_chain w) event \<and>
     tells_truth env event ce (w_chain w) \<and>
     T \<le> now_global env \<and> now_global env \<le> now_user env \<and> now_user env \<le> now_record env"

fun step_time :: "time \<Rightarrow> world_step \<Rightarrow> time" where
  "step_time T (Other ce call) = T"
| "step_time T (Serve env event ce) = now_record env"

fun granted :: "geth \<Rightarrow> db checker \<Rightarrow> time \<Rightarrow> world_step list \<Rightarrow> world \<Rightarrow> bool" where
  "granted G c T [] w = True"
| "granted G c T (s # steps) w \<longleftrightarrow>
     step_granted T s w \<and> granted G c (step_time T s) steps (world_exec G c s w)"

section \<open>Payments and ledger\<close>

text \<open>A ledger row records a payment and its time.\<close>

definition row_of :: "geth \<Rightarrow> withdrawal_model \<Rightarrow> payment \<times> time \<Rightarrow> bool" where
  "row_of G m pt \<longleftrightarrow>
     (case pt of ((i, u, t, a), ts) \<Rightarrow>
        wm_WithdrawalID m = hash_hex G i \<and> wm_User m = addr_hex G u \<and> wm_Token m = addr_hex G t \<and>
        row_amount m = uint a \<and> wm_Timestamp m = ts)"

definition in_step :: "geth \<Rightarrow> world \<Rightarrow> bool" where
  "in_step G w \<longleftrightarrow> length (w_times w) = length (lc_paid (w_chain w)) \<and>
     list_all2 (row_of G) (withdrawals (st_db (w_svc w))) (zip (lc_paid (w_chain w)) (w_times w))"

definition world_inv :: "geth \<Rightarrow> db checker \<Rightarrow> time \<Rightarrow> world \<Rightarrow> bool" where
  "world_inv G c T w \<longleftrightarrow> policy_inv G c T (st_db (w_svc w)) \<and> worker_inv G (w_svc w) \<and>
     custody_inv (w_chain w) \<and> in_step G w"

lemma world_inv_init: "world_inv G c T world_init"
  by (simp add: world_inv_def world_init_def policy_inv_empty worker_inv_empty custody_inv_init
      in_step_def) (simp add: contract_init_def empty_db_def)

text \<open>Others cannot make the contract pay.\<close>

lemma others_do_not_pay:
  "\<not> ce_nitewatch ce \<Longrightarrow> lc_paid (custody_apply ce call chain) = lc_paid chain"
  by (cases call)
    (auto simp: custody_apply_def contract_deposit_def contract_startWithdraw_def
      contract_finalizeWithdraw_def contract_rejectWithdraw_def Let_def split: sum.splits option.splits)

text \<open>
  What a finalized request pays: if the contract executes the call, what the event said.
\<close>

lemma started_unique:
  assumes "distinct (started evs)" "WithdrawStarted i u t a n \<in> set evs"
    and "WithdrawStarted i u' t' a' n' \<in> set evs"
  shows "u = u' \<and> t = t' \<and> a = a'"
  using assms
proof (induction evs)
  case (Cons e evs)
  have mem: "WithdrawStarted i x y z k \<in> set evs \<Longrightarrow> i \<in> set (started evs)" for x y z k
    by (rule started_event)
  show ?case using Cons mem by (cases e) (auto simp: started_def)
qed simp

lemma finalize_pays:
  assumes inv: "custody_inv chain" and ev: "emitted chain event"
  shows "custody_apply ce (FinalizeCall (ws_WithdrawalID event)) chain = chain \<and>
      isl (contract_finalizeWithdraw ce (ws_WithdrawalID event) (lc_state chain)) \<or>
    \<not> isl (contract_finalizeWithdraw ce (ws_WithdrawalID event) (lc_state chain)) \<and>
    (\<exists>a. uint a = ws_Amount event \<and>
      lc_paid (custody_apply ce (FinalizeCall (ws_WithdrawalID event)) chain) =
        lc_paid chain @ [(ws_WithdrawalID event, ws_User event, ws_Token event, a)])"
proof (cases "contract_finalizeWithdraw ce (ws_WithdrawalID event) (lc_state chain)")
  case (Inl err)
  then show ?thesis by (simp add: custody_apply_def)
next
  case (Inr r)
  let ?i = "ws_WithdrawalID event"
  let ?q = "lc_state chain ?i"
  from Inr have q: "rq_exists ?q" "\<not> rq_finalized ?q" and
    pays: "snd (snd r) = [(?i, rq_user ?q, rq_token ?q, rq_amount ?q)]"
    by (auto simp: contract_finalizeWithdraw_def Let_def split: if_splits)
  obtain n where n: "WithdrawStarted ?i (rq_user ?q) (rq_token ?q) (rq_amount ?q) n \<in> set (lc_events chain)"
    using inv q by (auto simp: custody_inv_def)
  obtain a m where m: "WithdrawStarted ?i (ws_User event) (ws_Token event) a m \<in> set (lc_events chain)"
    and a: "ws_Amount event = uint a"
    using ev by (auto simp: emitted_def)
  have "rq_user ?q = ws_User event \<and> rq_token ?q = ws_Token event \<and> rq_amount ?q = a"
    using started_unique [OF _ n m] inv by (simp add: custody_inv_def)
  then show ?thesis
    using Inr pays a by (cases r) (auto simp: custody_apply_def)
qed

lemma reject_does_not_pay:
  "lc_paid (custody_apply ce (RejectCall i) chain) = lc_paid chain"
  by (auto simp: custody_apply_def contract_rejectWithdraw_def Let_def split: sum.splits if_splits)

section \<open>One step\<close>

text \<open>What the service's transactions of one event do to payments and ledger.\<close>

lemma serve_in_step:
  assumes G: "geth_ok G" and inv: "world_inv G c T w" and ok: "step_granted T (Serve env event ce) w"
  shows "in_step G (world_exec G c (Serve env event ce) w)"
proof -
  let ?st = "w_svc w" and ?chain = "w_chain w"
  let ?st' = "processWithdrawal G c env event ?st"
  have E: "gorm_ok (env_gorm env)" "faultless (env_gorm env)" using ok by simp_all
  have step: "in_step G w" and winv: "worker_inv G ?st" and cinv: "custody_inv ?chain"
    using inv by (simp_all add: world_inv_def)
  show ?thesis
  proof (cases "hash_hex G (ws_WithdrawalID event) \<in> we_WithdrawalID ` set (events (st_db ?st))")
    case True
    then have "?st' = ?st" by (simp add: processWithdrawal_def has_faultless [OF E])
    then show ?thesis
      using step by (simp add: new_txs_def in_step_def)
  next
    case False
    then have fresh: "fresh_id G event (st_db ?st)"
      using ledger_ids [OF winv] by (auto simp: fresh_id_def)
    let ?v = "Check G (step_checker G c env) (now_global env) (now_user env)
       (ws_User event) (ws_Token event) (ws_Amount event) (st_db ?st)"
    obtain decision txs wd where out: "outcome env event ?v = (decision, txs, wd)"
      by (cases "outcome env event ?v")
    have new: "new_txs ?st ?st' = txs" and
      led: "withdrawals (st_db ?st') = withdrawals (st_db ?st) @ ledger_rows G wd"
      using process_handled [OF E fresh, of c] by (auto simp: out handled_def new_txs_def)
    let ?chain' = "custody_run (map (\<lambda>tx. (ce, tx_call tx)) txs) ?chain"
    have truth: "tells_truth env event ce ?chain" and ev: "emitted ?chain event" using ok by simp_all
    consider "wd = None" "lc_paid ?chain' = lc_paid ?chain"
      | tx rc a where "wd = Some (withdrawal_record env event tx rc)" "uint a = ws_Amount event"
        "lc_paid ?chain' =
           lc_paid ?chain @ [(ws_WithdrawalID event, ws_User event, ws_Token event, a)]"
    proof (cases ?v)
      case (Some err)
      with out have "wd = None" and "txs = [] \<or> (\<exists>tx. txs = [SentReject (ws_WithdrawalID event) tx])"
        by (auto simp: outcome_def Let_def split: sum.splits)
      then show thesis using reject_does_not_pay that(1) by auto
    next
      case None
      show thesis
      proof (cases "FinalizeWithdraw (env_contract env) (env_auth env) (ws_WithdrawalID event)")
        case (Inl err)
        with None out that(1) show thesis by (simp add: outcome_def Let_def)
      next
        case (Inr tx)
        obtain rc where rc: "env_wait_mined env tx = Inr rc" "rc_Status rc = 1 \<longleftrightarrow>
            \<not> isl (contract_finalizeWithdraw ce (ws_WithdrawalID event) (lc_state ?chain))"
          using truth Inr by (auto simp: tells_truth_def)
        with None Inr out have "txs = [SentFinalize (ws_WithdrawalID event) tx]" and
          "wd = (if rc_Status rc = 1 then Some (withdrawal_record env event tx rc) else None)"
          by (auto simp: outcome_def Let_def split: if_splits)
        then show thesis
          using finalize_pays [OF cinv ev, of ce] rc(2) that by (auto split: if_splits)
      qed
    qed
    then show ?thesis
    proof cases
      case 1
      then show ?thesis
        using step led by (simp add: new in_step_def ledger_rows_def Let_def)
    next
      case (2 tx rc a)
      have "row_of G (to_model G (withdrawal_record env event tx rc))
          ((ws_WithdrawalID event, ws_User event, ws_Token event, a), now_record env)"
        using 2(2) by (simp add: row_of_def to_model_def withdrawal_record_def row_amount_def)
      then show ?thesis
        using step led 2
        by (simp add: new in_step_def ledger_rows_def Let_def list_all2_appendI)
    qed
  qed
qed

lemma world_inv_step:
  assumes G: "geth_ok G" and inv: "world_inv G c T w" and ok: "step_granted T s w"
  shows "world_inv G c (step_time T s) (world_exec G c s w)"
proof (cases s)
  case (Other ce call)
  then show ?thesis
    using inv ok others_do_not_pay [of ce call "w_chain w"]
    by (simp add: world_inv_def custody_inv_apply in_step_def)
next
  case (Serve env event ce)
  then have E: "gorm_ok (env_gorm env)" "faultless (env_gorm env)" and
    clock: "T \<le> now_global env" "now_global env \<le> now_user env" "now_user env \<le> now_record env"
    using ok by simp_all
  show ?thesis
    using serve_in_step [OF G inv ok [unfolded Serve]] inv
      policy_inv_step [OF G E(1) _ clock, of c "w_svc w" event]
      worker_inv_step [OF E, of G "w_svc w" c event]
    by (simp add: Serve world_inv_def Let_def custody_inv_run)
qed

fun end_time :: "time \<Rightarrow> world_step list \<Rightarrow> time" where
  "end_time T [] = T"
| "end_time T (s # steps) = end_time (step_time T s) steps"

lemma world_inv_run:
  "geth_ok G \<Longrightarrow> world_inv G c T w \<Longrightarrow> granted G c T steps w \<Longrightarrow>
    world_inv G c (end_time T steps) (world_run G c steps w)"
  by (induction steps arbitrary: T w) (auto intro: world_inv_step)

section \<open>Properties\<close>

text \<open>The payments of a token, to anyone or to one user, in the window that starts at \<open>b\<close>.\<close>

definition paid_in :: "address option \<Rightarrow> address \<Rightarrow> time \<Rightarrow> time \<Rightarrow> payment \<times> time \<Rightarrow> bool" where
  "paid_in u tok d b pt \<longleftrightarrow>
     (case pt of ((i, v, t, a), ts) \<Rightarrow>
        t = tok \<and> (case u of None \<Rightarrow> True | Some x \<Rightarrow> v = x) \<and> b \<le> ts \<and> ts < b + d)"

fun amount_paid :: "payment \<times> time \<Rightarrow> int" where
  "amount_paid ((i, v, t, a), ts) = uint a"

lemma ledger_sum:
  assumes "geth_ok G" "list_all2 (row_of G) ms ps"
  shows "(\<Sum>m \<leftarrow> filter (in_window G u tok d b) ms. row_amount m) =
    (\<Sum>p \<leftarrow> filter (paid_in u tok d b) ps. amount_paid p)"
  using assms(2)
proof (induction rule: list_all2_induct)
  case (Cons m ms p ps)
  have "in_window G u tok d b m \<longleftrightarrow> paid_in u tok d b p"
    using Cons(1) addr_hex_eq [OF assms(1)]
    by (auto simp: row_of_def in_window_def paid_in_def query_of_def split: prod.splits option.splits)
  moreover have "row_amount m = amount_paid p"
    using Cons(1) by (cases p rule: amount_paid.cases) (auto simp: row_of_def)
  ultimately show ?case using Cons.IH by simp
qed simp

text \<open>The limits and the books, in any state that keeps the invariant.\<close>

lemma world_inv_limits:
  assumes "geth_ok G" "world_inv G c T W"
    and "applicable c u tok = Some l" "win_limit w l = Some lim" "win_len w dvd b"
  shows "(\<Sum>p \<leftarrow> filter (paid_in u tok (win_len w) b) (zip (lc_paid (w_chain W)) (w_times W)).
    amount_paid p) \<le> max 0 lim"
proof -
  from assms(2) have rows: "list_all2 (row_of G) (withdrawals (st_db (w_svc W)))
      (zip (lc_paid (w_chain W)) (w_times W))"
    by (simp add: world_inv_def in_step_def)
  have "bucket_total G u tok (win_len w) b (st_db (w_svc W)) \<le> max 0 lim"
    using assms(2-5) by (simp add: world_inv_def policy_inv_def)
  then show ?thesis
    unfolding bucket_total_def ledger_sum [OF assms(1) rows] .
qed

lemma world_inv_books:
  assumes "world_inv G c T W"
  shows "map (\<lambda>m. (wm_WithdrawalID m, wm_User m, wm_Token m, row_amount m)) (withdrawals (st_db (w_svc W))) =
    map (\<lambda>(i, u, t, a). (hash_hex G i, addr_hex G u, addr_hex G t, uint a)) (lc_paid (w_chain W))"
proof -
  from assms have len: "length (w_times W) = length (lc_paid (w_chain W))" and
    rows: "list_all2 (row_of G) (withdrawals (st_db (w_svc W))) (zip (lc_paid (w_chain W)) (w_times W))"
    by (simp_all add: world_inv_def in_step_def)
  have "map (\<lambda>m. (wm_WithdrawalID m, wm_User m, wm_Token m, row_amount m)) ms =
      map (\<lambda>(i, u, t, a). (hash_hex G i, addr_hex G u, addr_hex G t, uint a)) (map fst ps)"
    if "list_all2 (row_of G) ms ps" for ms ps
    using that by (induction rule: list_all2_induct) (auto simp: row_of_def)
  from this [OF rows] len show ?thesis by simp
qed

text \<open>
  The limits hold on the chain. Whatever others call, whatever is requested and however often
  events are delivered, the payments the contract makes in any clock hour and on any clock day stay
  within the token's limit and within the user's override, as long as only the service can finalize,
  the node and the database answer, and the clock does not go back.
\<close>

theorem payments_within_limits:
  assumes "geth_ok G" "granted G c T steps world_init"
    and "applicable c u tok = Some l" "win_limit w l = Some lim" "win_len w dvd b"
    and "W = world_run G c steps world_init"
  shows "(\<Sum>p \<leftarrow> filter (paid_in u tok (win_len w) b) (zip (lc_paid (w_chain W)) (w_times W)).
    amount_paid p) \<le> max 0 lim"
  unfolding assms(6)
  by (rule world_inv_limits [OF assms(1) world_inv_run [OF assms(1) world_inv_init assms(2)] assms(3-5)])

definition sample_world :: "world_step list" where
  "sample_world =
     [Other (sample_call 1) (StartCall 7 5 120 4),
      Serve (sample_env sql_engine 10) (sample_started 4 120) (sample_call 2)]"

lemma sample_world_granted: "granted plain_geth sample_checker 0 sample_world world_init"
proof -
  let ?w = "world_exec plain_geth sample_checker (Other (sample_call 1) (StartCall 7 5 120 4)) world_init"
  have "WithdrawStarted 4 7 5 120 4 \<in> set (lc_events (w_chain ?w))"
    by (simp add: world_init_def custody_apply_def contract_startWithdraw_def contract_init_def
        no_request_def sample_call_def ucast_eq)
  then have "emitted (w_chain ?w) (sample_started 4 120)"
    by (force simp: emitted_def sample_started_def)
  moreover have "\<not> isl (contract_finalizeWithdraw (sample_call 2) 4 (lc_state (w_chain ?w)))"
    by (simp add: world_init_def custody_apply_def contract_startWithdraw_def contract_init_def
        no_request_def sample_call_def ucast_eq contract_finalizeWithdraw_def word_less_nat_alt)
  then have "tells_truth (sample_env sql_engine 10) (sample_started 4 120) (sample_call 2) (w_chain ?w)"
    by (simp add: tells_truth_def sample_started_def)
  ultimately show ?thesis
    by (simp add: sample_world_def) (simp add: sample_call_def)
qed

lemma payments_within_limits_witness:
  "\<exists>W. W = world_run plain_geth sample_checker sample_world world_init \<and>
    (\<Sum>p \<leftarrow> filter (paid_in (Some 7) 5 hour 0) (zip (lc_paid (w_chain W)) (w_times W)). amount_paid p)
      \<le> 150"
  using payments_within_limits [OF plain_geth_ok sample_world_granted _ _ dvd_0_right refl,
      of "Some 7" 5 _ HourWindow 150]
  by (simp add: applicable_def resolveUserLimit_def sample_checker_def)

text \<open>
  In the same runs the service's books are the contract's: its ledger lists the contract's
  payments one by one, in order, with receiver, token and amount.
\<close>

theorem ledger_is_payments:
  assumes "geth_ok G" "granted G c T steps world_init" "W = world_run G c steps world_init"
  shows "map (\<lambda>m. (wm_WithdrawalID m, wm_User m, wm_Token m, row_amount m)) (withdrawals (st_db (w_svc W))) =
    map (\<lambda>(i, u, t, a). (hash_hex G i, addr_hex G u, addr_hex G t, uint a)) (lc_paid (w_chain W))"
  unfolding assms(3) by (rule world_inv_books [OF world_inv_run [OF assms(1) world_inv_init assms(2)]])

lemma ledger_is_payments_witness:
  "\<exists>W. W = world_run plain_geth sample_checker sample_world world_init \<and>
    length (withdrawals (st_db (w_svc W))) = length (lc_paid (w_chain W))"
proof -
  let ?W = "world_run plain_geth sample_checker sample_world world_init"
  have "length (withdrawals (st_db (w_svc ?W))) = length (lc_paid (w_chain ?W))"
    using arg_cong [OF ledger_is_payments [OF plain_geth_ok sample_world_granted refl], of length]
    by simp
  then show ?thesis by blast
qed

end
