(* ===== verification/Chain_Logs.thy ===== *)
theory Chain_Logs
  imports World
begin

text \<open>
  From the events of the contract to the events of the Go code. A node keeps a log for every event of
  the contract, the generated parsers read it, and the handlers of \<open>custody/listener.go\<close> turn it into
  what the service sees. Shown: nothing is changed on the way.
\<close>

section \<open>Events as logs\<close>

text \<open>The name of an event in the ABI and its fields in order.\<close>

fun event_name :: "custody_event \<Rightarrow> string" where
  "event_name (Deposited user token amount) = ''Deposited''"
| "event_name (WithdrawStarted i user token amount nonce) = ''WithdrawStarted''"
| "event_name (WithdrawFinalized i success) = ''WithdrawFinalized''"

fun event_fields :: "custody_event \<Rightarrow> abi_arg list" where
  "event_fields (Deposited user token amount) = [AAddress user, AAddress token, AUint (uint amount)]"
| "event_fields (WithdrawStarted i user token amount nonce) =
     [ABytes32 i, AAddress user, AAddress token, AUint (uint amount), AUint (uint nonce)]"
| "event_fields (WithdrawFinalized i success) = [ABytes32 i, ABool success]"

text \<open>
  What Solidity's encoding and go-ethereum's decoding give together: the first topic is the event's,
  a log decodes as its own event to the values it was emitted with, and as no other event.
\<close>

definition encodes :: "bound_contract \<Rightarrow> abi \<Rightarrow> eth_log \<Rightarrow> custody_event \<Rightarrow> bool" where
  "encodes C ids l e \<longleftrightarrow>
     take 1 (log_Topics l) = [ids (event_name e)] \<and>
     UnpackLog C (event_name e) l = Inr (event_fields e) \<and>
     (\<forall>name. name \<noteq> event_name e \<longrightarrow> isl (UnpackLog C name l))"

lemma parses_only_own:
  assumes "encodes C ids l e" "unpack_event mk C name l = Inr raw"
  shows "name = event_name e \<and> mk (event_fields e) l = Inr raw"
  using assms by (cases "name = event_name e") (auto simp: encodes_def unpack_event_def isl_def split: sum.splits)

lemma parses_own:
  "encodes C ids l e \<Longrightarrow> unpack_event mk C (event_name e) l = mk (event_fields e) l"
  by (simp add: encodes_def unpack_event_def)

text \<open>The event the service sees for a request of the contract, at the log's place.\<close>

definition started_event_of :: "hash \<Rightarrow> address \<Rightarrow> address \<Rightarrow> uint256 \<Rightarrow> uint256 \<Rightarrow> eth_log \<Rightarrow>
    withdraw_started_event" where
  "started_event_of i user token amount nonce l =
     \<lparr>ws_WithdrawalID = i, ws_User = user, ws_Token = token, ws_Amount = uint amount,
      ws_Nonce = uint nonce, ws_BlockNumber = log_BlockNumber l, ws_TxHash = log_TxHash l,
      ws_LogIndex = log_Index l\<rparr>"

lemma parse_started:
  assumes "encodes C ids l e" "ParseWithdrawStarted C l = Inr raw"
  shows "\<exists>i u t a n. e = WithdrawStarted i u t a n \<and> withdraw_started_of raw = started_event_of i u t a n l"
proof -
  from parses_only_own [OF assms(1) assms(2) [unfolded ParseWithdrawStarted_def]]
  have "''WithdrawStarted'' = event_name e" "mk_withdraw_started (event_fields e) l = Inr raw" by simp_all
  then show ?thesis
    by (cases e) (auto simp: mk_withdraw_started_def withdraw_started_of_def started_event_of_def)
qed

lemma started_parses:
  assumes "encodes C ids l (WithdrawStarted i u t a n)"
  shows "\<exists>raw. ParseWithdrawStarted C l = Inr raw \<and> withdraw_started_of raw = started_event_of i u t a n l"
  using parses_own [OF assms, of mk_withdraw_started]
  by (auto simp: ParseWithdrawStarted_def mk_withdraw_started_def withdraw_started_of_def started_event_of_def)

section \<open>Property\<close>

definition as_started :: "go_error + i_withdraw_started \<Rightarrow> withdraw_started_event option" where
  "as_started r = (case r of Inl _ \<Rightarrow> None | Inr raw \<Rightarrow> Some (withdraw_started_of raw))"

definition as_finalized :: "go_error + i_withdraw_finalized \<Rightarrow> withdraw_finalized_event option" where
  "as_finalized r = (case r of Inl _ \<Rightarrow> None | Inr raw \<Rightarrow> Some (withdraw_finalized_of raw))"

definition as_deposited :: "go_error + i_deposited \<Rightarrow> deposited_event option" where
  "as_deposited r = (case r of Inl _ \<Rightarrow> None | Inr raw \<Rightarrow> Some (deposited_of raw))"

text \<open>
  C37: an event of the contract comes out of the Go code as it went in. The log of an event is read by
  its own parser and handler, and by no other, and what they give has the values the contract
  emitted, at the place of the log, with either binding.
\<close>

theorem contract_events_parse_back:
  assumes "encodes C ids l e"
  shows "as_started (ParseWithdrawStarted C l) = (case e of
      WithdrawStarted i u t a n \<Rightarrow> Some (started_event_of i u t a n l) | _ \<Rightarrow> None) \<and>
    as_finalized (ParseWithdrawFinalized C l) = (case e of
      WithdrawFinalized i b \<Rightarrow> Some \<lparr>wf_WithdrawalID = i, wf_Success = b,
        wf_BlockNumber = log_BlockNumber l, wf_TxHash = log_TxHash l, wf_LogIndex = log_Index l\<rparr>
      | _ \<Rightarrow> None) \<and>
    as_deposited (ParseDeposited C l) = (case e of
      Deposited u t a \<Rightarrow> Some \<lparr>dep_User = u, dep_Token = t, dep_Amount = uint a,
        dep_BlockNumber = log_BlockNumber l, dep_TxHash = log_TxHash l, dep_LogIndex = log_Index l\<rparr>
      | _ \<Rightarrow> None) \<and>
    sc_ParseWithdrawStarted C l = ParseWithdrawStarted C l \<and>
    sc_ParseWithdrawFinalized C l = ParseWithdrawFinalized C l \<and> sc_ParseDeposited C l = ParseDeposited C l"
proof -
  have none: "isl (unpack_event mk C name l)" if "name \<noteq> event_name e" for mk name
    using that parses_only_own [OF assms, of mk name] by (cases "unpack_event mk C name l") auto
  show ?thesis
    using parses_own [OF assms, of mk_withdraw_started] parses_own [OF assms, of mk_withdraw_finalized]
      parses_own [OF assms, of mk_deposited] none [of "''WithdrawStarted''" mk_withdraw_started]
      none [of "''WithdrawFinalized''" mk_withdraw_finalized] none [of "''Deposited''" mk_deposited]
    by (cases e)
      (auto simp: as_started_def as_finalized_def as_deposited_def ParseWithdrawStarted_def
        ParseWithdrawFinalized_def ParseDeposited_def sc_ParseWithdrawStarted_def sc_ParseWithdrawFinalized_def
        sc_ParseDeposited_def mk_withdraw_started_def mk_withdraw_finalized_def mk_deposited_def
        withdraw_started_of_def withdraw_finalized_of_def deposited_of_def started_event_of_def isl_def
        split: sum.splits)
qed

text \<open>
  A wrapper for the witnesses that decodes two logs: of the request for 120 of token 5 to user 7, with
  id 4, and of its success.
\<close>

definition wire_ids :: abi where
  "wire_ids name = (if name = ''WithdrawStarted'' then 7 else 8)"

definition wire_log :: "hash \<Rightarrow> u64 \<Rightarrow> eth_log" where
  "wire_log topic b =
     \<lparr>log_Address = 1, log_Topics = [topic], log_Data = '''', log_BlockNumber = b, log_TxHash = 9, log_Index = 0\<rparr>"

definition wire_contract :: bound_contract where
  "wire_contract = sample_contract\<lparr>UnpackLog := (\<lambda>name l.
     if name = ''WithdrawStarted'' \<and> log_Topics l = [7] then Inr (event_fields (WithdrawStarted 4 7 5 120 4))
     else if name = ''WithdrawFinalized'' \<and> log_Topics l = [8] then Inr (event_fields (WithdrawFinalized 4 True))
     else Inl cannot_unmarshal)\<rparr>"

lemma wire_encodes:
  "encodes wire_contract wire_ids (wire_log 7 b) (WithdrawStarted 4 7 5 120 4)"
  "encodes wire_contract wire_ids (wire_log 8 b) (WithdrawFinalized 4 True)"
  by (auto simp: encodes_def wire_contract_def wire_ids_def wire_log_def)

lemma contract_events_parse_back_witness:
  "as_started (ParseWithdrawStarted wire_contract (wire_log 7 13)) =
    Some (started_event_of 4 7 5 120 4 (wire_log 7 13)) \<and>
   as_finalized (ParseWithdrawFinalized wire_contract (wire_log 7 13)) = None"
  using contract_events_parse_back [OF wire_encodes(1)] by simp

end
