(* ===== verification/Delivery.thy ===== *)
theory Delivery
  imports Listener
begin

text \<open>
  The listener against a chain that grows: a step relation over the mining of blocks and the steps of
  \<open>listenEvents\<close> (its two halves, \<open>listen_connect\<close> and \<open>listen_select\<close>), with the contents of both
  channels. What a connection starts is what \<open>reconcileBlockRange\<close> delivers from an answering node.
  Shown: only logs of the chain are handed on, and over one connection without a gap at its start
  every log is, exactly once.
\<close>

section \<open>The system\<close>

text \<open>
  \<open>sy_chain\<close>: the contract's logs so far, in order. \<open>sy_hist\<close> and \<open>sy_live\<close>: what is still to come
  out of the historical and the current channel. \<open>sy_handled\<close>: the logs handed to the handler.
\<close>

record system =
  sy_chain :: "eth_log list"
  sy_head :: u64
  sy_listen :: listen_state
  sy_hist :: "eth_log list"
  sy_live :: "eth_log list"
  sy_handled :: "eth_log list"

text \<open>
  What the goroutine of a connection sends: the logs with the topics, up to the block it ends at.
\<close>

definition history :: "(eth_log \<Rightarrow> bool) \<Rightarrow> eth_log list \<Rightarrow> rec_params \<Rightarrow> eth_log list" where
  "history topic chain P =
     delivered P (filter topic chain) (rp_lastBlock P)
       (if skips_head P then rp_currentBlock P else rp_currentBlock P + 1)"

definition histories :: "(eth_log \<Rightarrow> bool) \<Rightarrow> eth_log list \<Rightarrow> listen_action list \<Rightarrow> eth_log list" where
  "histories topic chain acts =
     concat (map (\<lambda>a. case a of StartReconcile P \<Rightarrow> history topic chain P | _ \<Rightarrow> []) acts)"

definition block_ok :: "system \<Rightarrow> eth_log list \<Rightarrow> bool" where
  "block_ok s ls \<longleftrightarrow> unat (sy_head s) + 10002 < 2 ^ 64 \<and>
     (\<forall>l \<in> set ls. log_BlockNumber l = sy_head s + 1)"

inductive sys_step ::
    "address \<Rightarrow> hash list list \<Rightarrow> (eth_log \<Rightarrow> bool) \<Rightarrow> system \<Rightarrow> system \<Rightarrow> bool"
  for contract topics topic where
  mine: "block_ok s ls \<Longrightarrow>
    sys_step contract topics topic s
      (s\<lparr>sy_chain := sy_chain s @ ls, sy_head := sy_head s + 1,
         sy_live := (if ls_subscribed (sy_listen s) then sy_live s @ ls else sy_live s)\<rparr>)"
| connect: "\<not> ls_subscribed (sy_listen s) \<Longrightarrow> li_header i = Inr n \<Longrightarrow> n \<le> sy_head s \<Longrightarrow>
    listen_connect contract topics i (sy_listen s) = (r, st', acts) \<Longrightarrow> r \<noteq> Return \<Longrightarrow>
    sys_step contract topics topic s
      (s\<lparr>sy_listen := st', sy_hist := histories topic (sy_chain s) acts, sy_live := []\<rparr>)"
| take_hist: "ls_subscribed (sy_listen s) \<Longrightarrow> sy_hist s = l # rest \<Longrightarrow>
    listen_select (Historical l) (sy_listen s) = (Listening, st', acts) \<Longrightarrow>
    sys_step contract topics topic s
      (s\<lparr>sy_listen := st', sy_hist := rest, sy_handled := sy_handled s @ handled_logs acts\<rparr>)"
| take_live: "ls_subscribed (sy_listen s) \<Longrightarrow> sy_live s = l # rest \<Longrightarrow>
    listen_select (Current l) (sy_listen s) = (Listening, st', acts) \<Longrightarrow>
    sys_step contract topics topic s
      (s\<lparr>sy_listen := st', sy_live := rest, sy_handled := sy_handled s @ handled_logs acts\<rparr>)"
| drop: "ls_subscribed (sy_listen s) \<Longrightarrow>
    listen_select (SubEnded err) (sy_listen s) = (Listening, st', acts) \<Longrightarrow>
    sys_step contract topics topic s (s\<lparr>sy_listen := st'\<rparr>)"

inductive sys_reach ::
    "address \<Rightarrow> hash list list \<Rightarrow> (eth_log \<Rightarrow> bool) \<Rightarrow> system \<Rightarrow> system \<Rightarrow> bool"
  for contract topics topic s0 where
  start: "sys_reach contract topics topic s0 s0"
| step: "sys_reach contract topics topic s0 s \<Longrightarrow> sys_step contract topics topic s s' \<Longrightarrow>
    sys_reach contract topics topic s0 s'"

inductive_cases sys_stepE: "sys_step contract topics topic s s'"

text \<open>A start: a chain, and a listener that has just been called.\<close>

definition sys_start :: "eth_log list \<Rightarrow> u64 \<Rightarrow> u64 \<Rightarrow> u32 \<Rightarrow> system" where
  "sys_start chain head fromBlock fromLogIndex =
     \<lparr>sy_chain = chain, sy_head = head, sy_listen = listen_init fromBlock fromLogIndex,
      sy_hist = [], sy_live = [], sy_handled = []\<rparr>"

section \<open>Nothing is invented\<close>

lemma history_subset: "set (history topic chain P) \<subseteq> {l \<in> set chain. topic l}"
  by (auto simp: history_def delivered_def)

lemma histories_subset: "set (histories topic chain acts) \<subseteq> {l \<in> set chain. topic l}"
  using history_subset by (fastforce simp: histories_def split: listen_action.splits)

definition only_chain :: "system \<Rightarrow> bool" where
  "only_chain s \<longleftrightarrow> set (sy_hist s) \<union> set (sy_live s) \<union> set (sy_handled s) \<subseteq> set (sy_chain s)"

lemma sys_step_sound:
  assumes "sys_step contract topics topic s s'" "only_chain s"
  shows "only_chain s'"
  using assms(1)
proof (cases rule: sys_step.cases)
  case (connect i n r st' acts)
  then show ?thesis
    using assms(2) histories_subset [of topic "sy_chain s" acts] by (auto simp: only_chain_def)
qed (use assms(2) in \<open>auto simp: listen_select_def only_chain_def\<close>)

lemma sys_reach_sound:
  assumes "sys_reach contract topics topic s0 s" "only_chain s0"
  shows "only_chain s"
  using assms by (induction rule: sys_reach.induct) (auto intro: sys_step_sound)

section \<open>One connection\<close>

text \<open>A run in which the subscription stays up.\<close>

inductive connected_run ::
    "address \<Rightarrow> hash list list \<Rightarrow> (eth_log \<Rightarrow> bool) \<Rightarrow> system \<Rightarrow> system \<Rightarrow> bool"
  for contract topics topic s0 where
  here: "connected_run contract topics topic s0 s0"
| go: "connected_run contract topics topic s0 s \<Longrightarrow> ls_subscribed (sy_listen s) \<Longrightarrow>
    sys_step contract topics topic s s' \<Longrightarrow> ls_subscribed (sy_listen s') \<Longrightarrow>
    connected_run contract topics topic s0 s'"

text \<open>The steps such a run is made of.\<close>

lemma connected_step:
  assumes "sys_step contract topics topic s s'" "ls_subscribed (sy_listen s)" "ls_subscribed (sy_listen s')"
  shows "(\<exists>ls. block_ok s ls \<and> sy_chain s' = sy_chain s @ ls \<and> sy_head s' = sy_head s + 1 \<and>
      sy_live s' = sy_live s @ ls \<and> sy_hist s' = sy_hist s \<and> sy_handled s' = sy_handled s) \<or>
    (sy_chain s' = sy_chain s \<and> sy_head s' = sy_head s \<and>
      (\<exists>l. sy_handled s' = sy_handled s @ [l] \<and>
        (sy_hist s = l # sy_hist s' \<and> sy_live s' = sy_live s \<or>
         sy_live s = l # sy_live s' \<and> sy_hist s' = sy_hist s)))"
  using assms by (cases rule: sys_stepE) (auto simp: listen_select_def)

definition first_params :: "address \<Rightarrow> hash list list \<Rightarrow> u64 \<Rightarrow> u64 \<Rightarrow> u32 \<Rightarrow> rec_params" where
  "first_params contract topics current fromBlock fromLogIndex =
     \<lparr>rp_contract = contract, rp_currentBlock = current, rp_lastBlock = fromBlock,
      rp_lastIndex = fromLogIndex, rp_topics = topics\<rparr>"

lemma first_connection:
  assumes "listen_connect contract topics i (listen_init fromBlock fromLogIndex) = (Connected, st', acts)"
    and "li_header i = Inr n" "fromBlock \<noteq> 0"
  shows "acts = [StartReconcile (first_params contract topics n fromBlock fromLogIndex),
      SubscribeLogs contract True] \<and> ls_subscribed st'"
  using assms
  by (auto simp: listen_connect_def listen_init_def first_params_def Let_def
      split: option.splits if_splits)

definition connected_start ::
    "(eth_log \<Rightarrow> bool) \<Rightarrow> eth_log list \<Rightarrow> u64 \<Rightarrow> listen_state \<Rightarrow> listen_action list \<Rightarrow> system" where
  "connected_start topic chain head st acts =
     \<lparr>sy_chain = chain, sy_head = head, sy_listen = st, sy_hist = histories topic chain acts,
      sy_live = [], sy_handled = []\<rparr>"

lemma connected_start_reach:
  assumes "listen_connect contract topics i (listen_init fromBlock fromLogIndex) = (Connected, st', acts)"
    and "li_header i = Inr n" "n \<le> head"
  shows "sys_step contract topics topic (sys_start chain head fromBlock fromLogIndex)
    (connected_start topic chain head st' acts)"
  using sys_step.connect [of "sys_start chain head fromBlock fromLogIndex" i n contract topics
      Connected st' acts topic] assms
  by (simp add: sys_start_def connected_start_def listen_init_def)

text \<open>The logs the listener is asked for.\<close>

definition wanted :: "(eth_log \<Rightarrow> bool) \<Rightarrow> rec_params \<Rightarrow> eth_log \<Rightarrow> bool" where
  "wanted topic P l \<longleftrightarrow> topic l \<and> rp_lastBlock P \<le> log_BlockNumber l \<and> \<not> known P l"

definition all_on_the_way :: "(eth_log \<Rightarrow> bool) \<Rightarrow> rec_params \<Rightarrow> system \<Rightarrow> bool" where
  "all_on_the_way topic P s \<longleftrightarrow>
     rp_lastBlock P \<le> sy_head s \<and> (\<forall>l \<in> set (sy_hist s). topic l) \<and>
     mset (filter topic (sy_handled s)) + mset (sy_hist s) + mset (filter topic (sy_live s)) =
       mset (filter (wanted topic P) (sy_chain s))"

lemma next_head:
  assumes "unat (h :: u64) + 10002 < 2 ^ 64"
  shows "unat (h + 1) = unat h + 1" "x \<le> h \<Longrightarrow> x \<le> h + 1" "x \<le> h \<Longrightarrow> x < h + 1"
proof -
  show u: "unat (h + 1) = unat h + 1"
    using assms unat_add_small [of h 1] by simp
  show "x \<le> h \<Longrightarrow> x \<le> h + 1" "x \<le> h \<Longrightarrow> x < h + 1"
    by (simp_all add: word_le_nat_alt word_less_nat_alt u)
qed

lemma all_on_the_way_start:
  assumes "\<not> skips_head P" "unat (rp_currentBlock P) + 10002 < 2 ^ 64" "rp_lastBlock P \<le> head"
    and "rp_currentBlock P = head" "\<forall>l \<in> set chain. log_BlockNumber l \<le> head"
    and "acts = [StartReconcile P, SubscribeLogs contract True]"
  shows "all_on_the_way topic P (connected_start topic chain head st acts)"
proof -
  have "filter (wanted topic P) chain = history topic chain P"
    using assms next_head(3) [of head]
    by (auto simp: history_def delivered_def wanted_def intro!: filter_cong)
  then show ?thesis
    using assms history_subset [of topic chain P]
    by (auto simp: all_on_the_way_def connected_start_def histories_def)
qed

lemma all_on_the_way_step:
  assumes "all_on_the_way topic P s" "sys_step contract topics topic s s'"
    and "ls_subscribed (sy_listen s)" "ls_subscribed (sy_listen s')"
  shows "all_on_the_way topic P s'"
  using connected_step [OF assms(2-4)]
proof (elim disjE exE conjE)
  fix ls
  assume ok: "block_ok s ls" and s': "sy_chain s' = sy_chain s @ ls" "sy_head s' = sy_head s + 1"
    "sy_live s' = sy_live s @ ls" "sy_hist s' = sy_hist s" "sy_handled s' = sy_handled s"
  have "unat (sy_head s) + 10002 < 2 ^ 64" using ok by (simp add: block_ok_def)
  note head = next_head [OF this]
  have last: "rp_lastBlock P \<le> sy_head s" using assms(1) by (simp add: all_on_the_way_def)
  have "wanted topic P l \<longleftrightarrow> topic l" if "l \<in> set ls" for l
    using ok that head(2,3) [OF last] by (auto simp: block_ok_def wanted_def known_def)
  then have "filter (wanted topic P) ls = filter topic ls" by (auto intro: filter_cong)
  then show ?thesis
    using assms(1) head(2) [OF last] by (auto simp: all_on_the_way_def s' ac_simps)
qed (use assms(1) in \<open>auto simp: all_on_the_way_def\<close>)

text \<open>A lost range: blocks between the header the history stops at and the subscription.\<close>

definition outside :: "u64 \<Rightarrow> u64 \<Rightarrow> system \<Rightarrow> bool" where
  "outside n head s \<longleftrightarrow> head \<le> sy_head s \<and>
     (\<forall>l \<in> set (sy_hist s) \<union> set (sy_live s) \<union> set (sy_handled s).
        log_BlockNumber l \<le> n \<or> head < log_BlockNumber l)"

lemma outside_step:
  assumes "outside n head s" "sys_step contract topics topic s s'"
    and "ls_subscribed (sy_listen s)" "ls_subscribed (sy_listen s')"
  shows "outside n head s'"
  using connected_step [OF assms(2-4)]
proof (elim disjE exE conjE)
  fix ls
  assume ok: "block_ok s ls" and s': "sy_chain s' = sy_chain s @ ls" "sy_head s' = sy_head s + 1"
    "sy_live s' = sy_live s @ ls" "sy_hist s' = sy_hist s" "sy_handled s' = sy_handled s"
  have "unat (sy_head s) + 10002 < 2 ^ 64" using ok by (simp add: block_ok_def)
  note head = next_head [OF this]
  have "head \<le> sy_head s" using assms(1) by (simp add: outside_def)
  with head(2,3) [OF this] ok assms(1) show ?thesis
    by (auto simp: outside_def s' block_ok_def)
qed (use assms(1) in \<open>auto simp: outside_def\<close>)

section \<open>Properties\<close>

text \<open>
  Whatever the chain, the node and the connections do, every log handed on is a log of the chain:
  reconnecting, retrying and overlapping channels never invent one.
\<close>

theorem only_logs_of_the_chain:
  assumes "sys_reach contract topics topic (sys_start chain head fromBlock fromLogIndex) s"
  shows "set (sy_handled s) \<subseteq> set (sy_chain s)"
  using sys_reach_sound [OF assms] by (simp add: sys_start_def only_chain_def)

lemma sample_connect:
  "listen_connect 1 [[7]] (live_input n CtxDone) (listen_init 10 5) =
     (Connected, (listen_init 10 5)\<lparr>ls_subscribed := True\<rparr>,
      [StartReconcile (first_params 1 [[7]] n 10 5), SubscribeLogs 1 True])"
  by (simp add: listen_connect_def live_input_def listen_init_def first_params_def Let_def)

lemma sample_history:
  "history (\<lambda>_. True) [sample_log 11 0] (first_params 1 [[7]] 12 10 5) = [sample_log 11 0]"
  "history (\<lambda>_. True) [sample_log 11 0] (first_params 1 [[7]] 10 10 5) = []"
  by (simp_all add: history_def delivered_def first_params_def sample_log_def skips_head_def known_def)

lemma only_logs_of_the_chain_witness:
  "\<exists>s. sys_reach 1 [[7]] (\<lambda>_. True) (sys_start [sample_log 11 0] 12 10 5) s \<and>
    sy_handled s = [sample_log 11 0] \<and> set (sy_handled s) \<subseteq> set (sy_chain s)"
proof -
  let ?s0 = "sys_start [sample_log 11 0] 12 10 5"
  let ?st = "(listen_init 10 5)\<lparr>ls_subscribed := True\<rparr>"
  let ?acts = "[StartReconcile (first_params 1 [[7]] 12 10 5), SubscribeLogs 1 True]"
  let ?s1 = "connected_start (\<lambda>_. True) [sample_log 11 0] 12 ?st ?acts"
  let ?s2 = "?s1\<lparr>sy_listen := ?st, sy_hist := [], sy_handled := sy_handled ?s1 @ handled_logs [Handle (sample_log 11 0)]\<rparr>"
  have "sys_step 1 [[7]] (\<lambda>_. True) ?s0 ?s1"
    using connected_start_reach [OF sample_connect] by (simp add: live_input_def)
  moreover have "sys_step 1 [[7]] (\<lambda>_. True) ?s1 ?s2"
    by (rule take_hist) (simp_all add: connected_start_def histories_def sample_history listen_select_def)
  ultimately have reach: "sys_reach 1 [[7]] (\<lambda>_. True) ?s0 ?s2"
    by (blast intro: sys_reach.intros)
  moreover have "sy_handled ?s2 = [sample_log 11 0]" by (simp add: connected_start_def)
  ultimately show ?thesis using only_logs_of_the_chain [OF reach] by blast
qed

text \<open>
  C11: over one connection that starts without a gap (the header is still the head when the
  subscription begins, and the head is not the first block of a range) nothing is lost and nothing
  comes twice: at every moment the logs asked for that are on the chain are exactly those handed on
  and those on their way through one of the channels.
\<close>

theorem one_connection_complete:
  assumes "listen_connect contract topics i (listen_init fromBlock fromLogIndex) = (Connected, st', acts)"
    and "li_header i = Inr head" "fromBlock \<noteq> 0" "fromBlock \<le> head" "unat head + 10002 < 2 ^ 64"
    and "P = first_params contract topics head fromBlock fromLogIndex" "\<not> skips_head P"
    and "\<forall>l \<in> set chain. log_BlockNumber l \<le> head"
    and "connected_run contract topics topic (connected_start topic chain head st' acts) s"
  shows "mset (filter topic (sy_handled s)) + mset (sy_hist s) + mset (filter topic (sy_live s)) =
    mset (filter (\<lambda>l. topic l \<and> fromBlock \<le> log_BlockNumber l \<and>
      \<not> (log_BlockNumber l = fromBlock \<and> log_Index l \<le> ucast fromLogIndex)) (sy_chain s))"
proof -
  have P: "rp_currentBlock P = head" "rp_lastBlock P = fromBlock" "rp_lastIndex P = fromLogIndex"
    by (simp_all add: assms(6) first_params_def)
  have acts: "acts = [StartReconcile P, SubscribeLogs contract True]"
    using first_connection [OF assms(1,2,3)] assms(6) by simp
  have start: "all_on_the_way topic P (connected_start topic chain head st' acts)"
    using all_on_the_way_start [OF assms(7) _ _ P(1) assms(8) acts] assms(4,5) P by simp
  have "all_on_the_way topic P s"
    using assms(9) start
    by (induction rule: connected_run.induct) (auto intro: all_on_the_way_step)
  then show ?thesis
    by (simp add: all_on_the_way_def wanted_def known_def P)
qed

lemma one_connection_complete_witness:
  "mset (sy_hist (connected_start (\<lambda>_. True) [sample_log 11 0] 12
      ((listen_init 10 5)\<lparr>ls_subscribed := True\<rparr>)
      [StartReconcile (first_params 1 [[7]] 12 10 5), SubscribeLogs 1 True])) =
    {#sample_log 11 0#}"
proof -
  have "\<not> skips_head (first_params 1 [[7]] 12 10 5)"
    by (simp add: skips_head_def first_params_def)
  with one_connection_complete [OF sample_connect, where head = 12 and chain = "[sample_log 11 0]"
      and topic = "\<lambda>_. True", OF _ _ _ _ refl _ _ connected_run.here]
  show ?thesis
    by (simp add: live_input_def connected_start_def sample_log_def)
qed

text \<open>
  C33: the blocks mined between the request for the latest header and the subscription are lost. While
  the connection lasts, no log of theirs is ever handed on: the history ends at the header and the
  subscription begins after them.
\<close>

theorem race_loses_blocks:
  assumes "listen_connect contract topics i (listen_init fromBlock fromLogIndex) = (Connected, st', acts)"
    and "li_header i = Inr n" "fromBlock \<noteq> 0" "n \<le> head" "unat head + 10002 < 2 ^ 64"
    and "connected_run contract topics topic (connected_start topic chain head st' acts) s"
    and "n < log_BlockNumber l" "log_BlockNumber l \<le> head"
  shows "l \<notin> set (sy_handled s)"
proof -
  let ?P = "first_params contract topics n fromBlock fromLogIndex"
  have acts: "acts = [StartReconcile ?P, SubscribeLogs contract True]"
    using first_connection [OF assms(1,2,3)] by simp
  have "unat n + 10002 < 2 ^ 64" using assms(4,5) by (simp add: word_le_nat_alt)
  then have "unat (n + 1) = unat n + 1" by (rule next_head(1))
  then have "x \<le> n" if "x < n + 1" for x
    using that by (simp add: word_le_nat_alt word_less_nat_alt)
  then have "\<forall>l \<in> set (history topic chain ?P). log_BlockNumber l \<le> n"
    by (auto simp: history_def delivered_def first_params_def split: if_splits)
  then have start: "outside n head (connected_start topic chain head st' acts)"
    by (simp add: outside_def connected_start_def histories_def acts)
  have "outside n head s"
    using assms(6) start by (induction rule: connected_run.induct) (auto intro: outside_step)
  moreover have "\<not> (log_BlockNumber l \<le> n \<or> head < log_BlockNumber l)"
    using assms(7,8) by (simp add: not_le not_less)
  ultimately show ?thesis by (auto simp: outside_def)
qed

lemma race_loses_blocks_witness:
  "\<exists>s. connected_run 1 [[7]] (\<lambda>_. True) (connected_start (\<lambda>_. True) [sample_log 11 0] 12
      ((listen_init 10 5)\<lparr>ls_subscribed := True\<rparr>)
      [StartReconcile (first_params 1 [[7]] 10 10 5), SubscribeLogs 1 True]) s \<and>
    sample_log 11 0 \<in> set (sy_chain s) \<and> sy_hist s = [] \<and> sy_live s = [] \<and>
    sample_log 11 0 \<notin> set (sy_handled s)"
proof -
  let ?s = "connected_start (\<lambda>_. True) [sample_log 11 0] 12
    ((listen_init 10 5)\<lparr>ls_subscribed := True\<rparr>)
    [StartReconcile (first_params 1 [[7]] 10 10 5), SubscribeLogs 1 True]"
  have "sample_log 11 0 \<notin> set (sy_handled ?s)"
    using race_loses_blocks [OF sample_connect _ _ _ _ connected_run.here, where n = 10 and head = 12
        and l = "sample_log 11 0" and chain = "[sample_log 11 0]" and topic = "\<lambda>_. True"]
    by (simp add: live_input_def sample_log_def)
  moreover have "sample_log 11 0 \<in> set (sy_chain ?s) \<and> sy_hist ?s = [] \<and> sy_live ?s = []"
    by (simp add: connected_start_def histories_def sample_history)
  ultimately show ?thesis using connected_run.here by blast
qed

text \<open>
  C34: a reconnect forgets the history that was not read yet. Once a log received live has moved
  \<open>lastBlock\<close>, the next connection fetches nothing from before that log's block, whatever was still
  waiting in the historical channel of the connection before.
\<close>

theorem reconnect_skips_unread_history:
  assumes "listen_select (Current l) st = (Listening, st1, acts1)"
    and "listen_select (SubEnded err) st1 = (Listening, st2, acts2)"
    and "listen_connect contract topics i st2 = (r, st3, acts)"
    and "k \<in> set (histories topic chain acts)"
  shows "log_BlockNumber l \<le> log_BlockNumber k"
proof -
  have "ls_lastBlock st2 = log_BlockNumber l"
    using assms(1,2) by (auto simp: listen_select_def)
  then have "\<forall>P. StartReconcile P \<in> set acts \<longrightarrow> rp_lastBlock P = log_BlockNumber l"
    using assms(3)
    by (auto simp: listen_connect_def Let_def split: if_splits sum.splits option.splits)
  then show ?thesis
    using assms(4)
    by (auto simp: histories_def history_def delivered_def split: listen_action.splits)
qed

text \<open>
  The witness: log 0 of block 11 waits in the historical channel when a log of block 21 arrives live
  and the connection drops; the next connection does not bring it back.
\<close>

lemma reconnect_skips_unread_history_witness:
  "\<exists>st1 st2 st3 acts1 acts2 acts.
    listen_select (Current (sample_log 21 6)) ((listen_init 10 5)\<lparr>ls_subscribed := True\<rparr>) =
      (Listening, st1, acts1) \<and>
    listen_select (SubEnded None) st1 = (Listening, st2, acts2) \<and>
    listen_connect 1 [[7]] (live_input 25 CtxDone) st2 = (Connected, st3, acts) \<and>
    sample_log 11 0 \<notin> set (histories (\<lambda>_. True) [sample_log 11 0, sample_log 21 6] acts)"
proof -
  obtain st1 acts1 where 1: "listen_select (Current (sample_log 21 6))
      ((listen_init 10 5)\<lparr>ls_subscribed := True\<rparr>) = (Listening, st1, acts1)"
    and st1: "st1 = (listen_init 21 5)\<lparr>ls_subscribed := True\<rparr>"
    by (simp add: listen_select_def listen_init_def sample_log_def)
  obtain st2 acts2 where 2: "listen_select (SubEnded None) st1 = (Listening, st2, acts2)"
    and st2: "st2 = listen_init 21 5"
    by (simp add: listen_select_def listen_init_def st1)
  obtain st3 acts where 3: "listen_connect 1 [[7]] (live_input 25 CtxDone) st2 = (Connected, st3, acts)"
    by (simp add: listen_connect_def live_input_def listen_init_def st2 Let_def)
  have "sample_log 11 0 \<notin> set (histories (\<lambda>_. True) [sample_log 11 0, sample_log 21 6] acts)"
    using reconnect_skips_unread_history [OF 1 2 3, of "sample_log 11 0"] by (auto simp: sample_log_def)
  with 1 2 3 show ?thesis by blast
qed

end
