(* ===== verification/Positions.thy ===== *)
theory Positions
  imports Reconcile_Correct
begin

text \<open>
  The order of logs on the chain: by block, then by index in the block. The cursor the service stores
  is a position, and what a history goroutine sends are the logs after it.
\<close>

section \<open>The order\<close>

datatype position = At u64 u64

instantiation position :: linorder
begin

fun less_eq_position :: "position \<Rightarrow> position \<Rightarrow> bool" where
  "less_eq_position (At b i) (At b' i') \<longleftrightarrow> b < b' \<or> b = b' \<and> i \<le> i'"

fun less_position :: "position \<Rightarrow> position \<Rightarrow> bool" where
  "less_position (At b i) (At b' i') \<longleftrightarrow> b < b' \<or> b = b' \<and> i < i'"

instance
proof
  fix p q r :: position
  show "p < q \<longleftrightarrow> p \<le> q \<and> \<not> q \<le> p" by (cases p; cases q) auto
  show "p \<le> p" by (cases p) simp
  show "p \<le> q \<Longrightarrow> q \<le> r \<Longrightarrow> p \<le> r" by (cases p; cases q; cases r) auto
  show "p \<le> q \<Longrightarrow> q \<le> p \<Longrightarrow> p = q" by (cases p; cases q) auto
  show "p \<le> q \<or> q \<le> p" by (cases p; cases q) auto
qed

end

definition log_position :: "eth_log \<Rightarrow> position" where
  "log_position l = At (log_BlockNumber l) (log_Index l)"

text \<open>The cursor: the stored block and the 32-bit index.\<close>

definition cursor_position :: "u64 \<Rightarrow> u32 \<Rightarrow> position" where
  "cursor_position b i = At b (ucast i)"

lemma after_cursor:
  "cursor_position b i < log_position l \<longleftrightarrow>
     b \<le> log_BlockNumber l \<and> \<not> (log_BlockNumber l = b \<and> log_Index l \<le> ucast i)"
  by (auto simp: cursor_position_def log_position_def)

lemma delivered_after_cursor:
  "delivered P chain (rp_lastBlock P) t =
     filter (\<lambda>l. cursor_position (rp_lastBlock P) (rp_lastIndex P) < log_position l \<and>
       log_BlockNumber l < t) chain"
  by (auto simp: delivered_def known_def after_cursor intro!: filter_cong)

end
