(* ===== verification/Reconnects.thy ===== *)
theory Reconnects
  imports Delivery Positions
begin

text \<open>
  The listener over any number of connections. In general a reconnect can lose logs (theory
  Delivery); here are the conditions under which none is lost, and the proof: every connection drops
  when its channels are empty, and when the listener connects again the latest header is the head.
\<close>

section \<open>Quiet runs\<close>

definition next_params :: "address \<Rightarrow> hash list list \<Rightarrow> system \<Rightarrow> rec_params" where
  "next_params contract topics s =
     first_params contract topics (sy_head s) (ls_lastBlock (sy_listen s)) (ls_lastIndex (sy_listen s))"

text \<open>
  The history of a new connection is that of the head, which is not the first block of a later range
  of the goroutine. (A head that is \<open>lastBlock\<close> itself is not fetched either, but does no harm.)
\<close>

definition quiet :: "address \<Rightarrow> hash list list \<Rightarrow> (eth_log \<Rightarrow> bool) \<Rightarrow> system \<Rightarrow> system \<Rightarrow> bool" where
  "quiet contract topics topic s s' \<longleftrightarrow>
     (ls_subscribed (sy_listen s) \<and> \<not> ls_subscribed (sy_listen s') \<longrightarrow>
        sy_hist s = [] \<and> sy_live s = []) \<and>
     (\<not> ls_subscribed (sy_listen s) \<and> ls_subscribed (sy_listen s') \<longrightarrow>
        sy_hist s' = history topic (sy_chain s) (next_params contract topics s) \<and>
        (skips_head (next_params contract topics s) \<longrightarrow> sy_head s = ls_lastBlock (sy_listen s)))"

inductive quiet_reach ::
    "address \<Rightarrow> hash list list \<Rightarrow> (eth_log \<Rightarrow> bool) \<Rightarrow> system \<Rightarrow> system \<Rightarrow> bool"
  for contract topics topic s0 where
  quiet_start: "quiet_reach contract topics topic s0 s0"
| quiet_step: "quiet_reach contract topics topic s0 s \<Longrightarrow> sys_step contract topics topic s s' \<Longrightarrow>
    quiet contract topics topic s s' \<Longrightarrow> quiet_reach contract topics topic s0 s'"

lemma quiet_reach_sys: "quiet_reach contract topics topic s0 s \<Longrightarrow> sys_reach contract topics topic s0 s"
  by (induction rule: quiet_reach.induct) (auto intro: sys_reach.intros)

section \<open>The invariant\<close>

text \<open>The logs the listener was asked for when it started.\<close>

definition asked :: "(eth_log \<Rightarrow> bool) \<Rightarrow> u64 \<Rightarrow> u32 \<Rightarrow> eth_log \<Rightarrow> bool" where
  "asked topic fromBlock fromLogIndex l \<longleftrightarrow>
     topic l \<and> cursor_position fromBlock fromLogIndex < log_position l"

text \<open>
  A log the next connection is to fetch: after \<open>lastBlock\<close>, or in it when no log of a later block
  has been handled yet and there are later blocks.
\<close>

definition left_for_history :: "system \<Rightarrow> eth_log \<Rightarrow> bool" where
  "left_for_history s l \<longleftrightarrow>
     ls_lastBlock (sy_listen s) < log_BlockNumber l \<or>
     ls_lastBlock (sy_listen s) < sy_head s \<and> log_BlockNumber l = ls_lastBlock (sy_listen s) \<and>
       \<not> log_Index l \<le> ucast (ls_lastIndex (sy_listen s))"

definition accounted :: "(eth_log \<Rightarrow> bool) \<Rightarrow> u64 \<Rightarrow> u32 \<Rightarrow> system \<Rightarrow> bool" where
  "accounted topic fromBlock fromLogIndex s \<longleftrightarrow>
     ls_lastBlock (sy_listen s) \<le> sy_head s \<and>
     (\<forall>l \<in> set (sy_chain s). log_BlockNumber l \<le> sy_head s) \<and>
     set (sy_live s) \<subseteq> set (sy_chain s) \<and>
     (\<forall>l \<in> set (sy_chain s). asked topic fromBlock fromLogIndex l \<longrightarrow>
        l \<in> set (sy_handled s) \<or>
        (if ls_subscribed (sy_listen s) then l \<in> set (sy_hist s) \<union> set (sy_live s)
         else left_for_history s l))"

lemma accounted_start:
  assumes "fromBlock < head" "\<forall>l \<in> set chain. log_BlockNumber l \<le> head"
  shows "accounted topic fromBlock fromLogIndex (sys_start chain head fromBlock fromLogIndex)"
  using assms
  by (auto simp: accounted_def sys_start_def listen_init_def left_for_history_def asked_def after_cursor)

lemma connect_state:
  assumes "listen_connect contract topics i st = (r, st', acts)"
  shows "ls_lastBlock st' = ls_lastBlock st \<and> ls_lastIndex st' = ls_lastIndex st"
  using assms by (auto simp: listen_connect_def Let_def split: if_splits sum.splits option.splits)

text \<open>What is left for the history is what the next goroutine sends.\<close>

lemma left_in_history:
  assumes left: "left_for_history s l" and l: "l \<in> set (sy_chain s)" "topic l" "log_BlockNumber l \<le> sy_head s"
    and head: "unat (sy_head s) + 10002 < 2 ^ 64"
    and skips: "skips_head (next_params contract topics s) \<longrightarrow> sy_head s = ls_lastBlock (sy_listen s)"
  shows "l \<in> set (history topic (sy_chain s) (next_params contract topics s))"
proof -
  have later: "ls_lastBlock (sy_listen s) < sy_head s"
    using left l(3) by (auto simp: left_for_history_def)
  then have "\<not> skips_head (next_params contract topics s)" using skips by auto
  then show ?thesis
    using left l next_head(3) [OF head l(3)]
    by (auto simp: history_def delivered_def next_params_def first_params_def known_def
        left_for_history_def)
qed

lemma accounted_step:
  assumes inv: "accounted topic fromBlock fromLogIndex s" and step: "sys_step contract topics topic s s'"
    and quiet: "quiet contract topics topic s s'" and head: "unat (sy_head s) + 10002 < 2 ^ 64"
  shows "accounted topic fromBlock fromLogIndex s'"
  using step
proof (cases rule: sys_step.cases)
  case (mine ls)
  have last: "ls_lastBlock (sy_listen s) \<le> sy_head s" using inv by (simp add: accounted_def)
  note up = next_head(2,3) [OF head]
  have new: "ls_lastBlock (sy_listen s) < log_BlockNumber l \<and> log_BlockNumber l = sy_head s + 1"
    if "l \<in> set ls" for l
    using that mine up(2) [OF last] by (auto simp: block_ok_def)
  have old: "left_for_history s' l" if "left_for_history s l" for l
    using that up(2) [OF last] by (auto simp: left_for_history_def mine)
  show ?thesis
    using inv new old up last
    by (auto simp: accounted_def mine left_for_history_def)
next
  case (connect i n r st' acts)
  have same: "ls_lastBlock st' = ls_lastBlock (sy_listen s)" "ls_lastIndex st' = ls_lastIndex (sy_listen s)"
    using connect_state connect by blast+
  have fetched: "l \<in> set (sy_hist s')"
    if "ls_subscribed st'" "left_for_history s l" "l \<in> set (sy_chain s)" "asked topic fromBlock fromLogIndex l" for l
    using that quiet connect inv left_in_history [OF that(2,3), of topic contract topics] head
    by (auto simp: quiet_def accounted_def asked_def)
  show ?thesis
    using inv connect same fetched by (auto simp: accounted_def left_for_history_def)
next
  case (take_hist l rest st' acts)
  then show ?thesis
    using inv by (auto simp: accounted_def listen_select_def)
next
  case (take_live l rest st' acts)
  then show ?thesis
    using inv by (auto simp: accounted_def listen_select_def)
next
  case (drop err st' acts)
  then have "sy_hist s = [] \<and> sy_live s = []"
    using quiet by (auto simp: quiet_def listen_select_def)
  with drop inv show ?thesis
    by (auto simp: accounted_def listen_select_def)
qed

lemma head_grows:
  assumes "sys_step contract topics topic s s'" "unat (sy_head s') + 10002 < 2 ^ 64"
  shows "unat (sy_head s) + 10002 < 2 ^ 64"
  using assms by (cases rule: sys_step.cases) (auto simp: block_ok_def)

lemma quiet_reach_accounted:
  assumes "quiet_reach contract topics topic s0 s" "accounted topic fromBlock fromLogIndex s0"
    and "unat (sy_head s) + 10002 < 2 ^ 64"
  shows "accounted topic fromBlock fromLogIndex s"
  using assms
proof (induction rule: quiet_reach.induct)
  case (quiet_step s s')
  note low = head_grows [OF quiet_step.hyps(2) quiet_step.prems(2)]
  from accounted_step [OF quiet_step.IH [OF quiet_step.prems(1) low] quiet_step.hyps(2,3) low]
  show ?case .
qed

section \<open>Property\<close>

text \<open>
  C12: reconnecting quietly loses nothing. Over any number of connections, retries and blocks mined
  with or without a connection, while connected every log the listener was asked for has been handed
  on or is on its way in a channel; when the channels are empty, all have been handed on.
\<close>

theorem quiet_reconnects_lose_nothing:
  assumes "quiet_reach contract topics topic (sys_start chain head fromBlock fromLogIndex) s"
    and "fromBlock < head" "\<forall>l \<in> set chain. log_BlockNumber l \<le> head"
    and "ls_subscribed (sy_listen s)" "unat (sy_head s) + 10002 < 2 ^ 64"
  shows "{l \<in> set (sy_chain s). topic l \<and> cursor_position fromBlock fromLogIndex < log_position l} \<subseteq>
    set (sy_handled s) \<union> set (sy_hist s) \<union> set (sy_live s)"
  using quiet_reach_accounted [OF assms(1) accounted_start [OF assms(2,3)] assms(5)] assms(4)
  by (auto simp: accounted_def asked_def)

text \<open>A first connection for the witnesses: the history is one log, and it is read.\<close>

definition up_sample :: "eth_log list \<Rightarrow> u64 \<Rightarrow> eth_log list \<Rightarrow> eth_log list \<Rightarrow> system" where
  "up_sample chain head hist handled =
     \<lparr>sy_chain = chain, sy_head = head, sy_listen = (listen_init 10 5)\<lparr>ls_subscribed := True\<rparr>,
      sy_hist = hist, sy_live = [], sy_handled = handled\<rparr>"

abbreviation any_log :: "eth_log \<Rightarrow> bool" where
  "any_log \<equiv> \<lambda>l. True"

lemma sample_up:
  assumes "history any_log chain (first_params 1 [[7]] n 10 5) = logs"
    and "\<not> skips_head (first_params 1 [[7]] n 10 5)"
    and "quiet_reach 1 [[7]] any_log s0 s" "sy_chain s = chain" "sy_head s = n"
    and "sy_listen s = listen_init 10 5"
  shows "quiet_reach 1 [[7]] any_log s0 (up_sample chain n logs (sy_handled s))"
proof (rule quiet_reach.quiet_step [OF assms(3)])
  show "sys_step 1 [[7]] any_log s (up_sample chain n logs (sy_handled s))"
    using sys_step.connect [of s "live_input n CtxDone" n 1 "[[7]]" Connected
        "(listen_init 10 5)\<lparr>ls_subscribed := True\<rparr>" _ any_log] sample_connect [of n] assms
    by (cases s) (simp add: up_sample_def live_input_def histories_def listen_init_def)
  show "quiet 1 [[7]] any_log s (up_sample chain n logs (sy_handled s))"
    using assms by (simp add: quiet_def next_params_def up_sample_def listen_init_def)
qed

lemma sample_quiet_run:
  "quiet_reach 1 [[7]] any_log (sys_start [sample_log 11 0] 12 10 5)
    (up_sample [sample_log 11 0] 12 [] [sample_log 11 0])"
proof (rule quiet_reach.quiet_step)
  have "\<not> skips_head (first_params 1 [[7]] 12 10 5)"
    by (simp add: skips_head_def first_params_def)
  from sample_up [OF sample_history(1) this quiet_reach.quiet_start,
    of "sys_start [sample_log 11 0] 12 10 5"]
  show "quiet_reach 1 [[7]] any_log (sys_start [sample_log 11 0] 12 10 5)
      (up_sample [sample_log 11 0] 12 [sample_log 11 0] [])"
    by (simp add: sys_start_def)
  show "sys_step 1 [[7]] any_log (up_sample [sample_log 11 0] 12 [sample_log 11 0] [])
      (up_sample [sample_log 11 0] 12 [] [sample_log 11 0])"
    using sys_step.take_hist [of "up_sample [sample_log 11 0] 12 [sample_log 11 0] []" "sample_log 11 0"
        "[]" "(listen_init 10 5)\<lparr>ls_subscribed := True\<rparr>" "[Handle (sample_log 11 0)]" 1 "[[7]]" any_log]
    by (simp add: up_sample_def listen_select_def)
  show "quiet 1 [[7]] any_log (up_sample [sample_log 11 0] 12 [sample_log 11 0] [])
      (up_sample [sample_log 11 0] 12 [] [sample_log 11 0])"
    by (simp add: quiet_def up_sample_def)
qed

text \<open>
  The witness: after that run the connection drops, block 13 is mined with a log, and the next
  connection brings it.
\<close>

lemma quiet_reconnects_lose_nothing_witness:
  "\<exists>s. quiet_reach 1 [[7]] any_log (sys_start [sample_log 11 0] 12 10 5) s \<and>
    sy_chain s = [sample_log 11 0, sample_log 13 0] \<and> sy_handled s = [sample_log 11 0] \<and>
    sample_log 13 0 \<in> set (sy_hist s)"
proof -
  let ?two = "[sample_log 11 0, sample_log 13 0]"
  let ?up = "up_sample [sample_log 11 0] 12 [] [sample_log 11 0]"
  let ?down = "?up\<lparr>sy_listen := listen_init 10 5\<rparr>"
  let ?mined = "?down\<lparr>sy_chain := ?two, sy_head := 13\<rparr>"
  have "sys_step 1 [[7]] any_log ?up ?down"
    using sys_step.drop [of ?up None "listen_init 10 5" "[]" 1 "[[7]]" any_log]
    by (simp add: up_sample_def listen_select_def listen_init_def)
  then have down: "quiet_reach 1 [[7]] any_log (sys_start [sample_log 11 0] 12 10 5) ?down"
    using quiet_reach.quiet_step [OF sample_quiet_run] by (simp add: quiet_def up_sample_def listen_init_def)
  have "sys_step 1 [[7]] any_log ?down ?mined"
    using sys_step.mine [of ?down "[sample_log 13 0]" 1 "[[7]]" any_log]
    by (simp add: up_sample_def block_ok_def sample_log_def listen_init_def)
  then have mined: "quiet_reach 1 [[7]] any_log (sys_start [sample_log 11 0] 12 10 5) ?mined"
    using quiet_reach.quiet_step [OF down] by (simp add: quiet_def up_sample_def listen_init_def)
  have h: "history any_log ?two (first_params 1 [[7]] 13 10 5) = ?two"
    "\<not> skips_head (first_params 1 [[7]] 13 10 5)"
    by (simp_all add: history_def delivered_def first_params_def sample_log_def skips_head_def known_def)
  have reach: "quiet_reach 1 [[7]] any_log (sys_start [sample_log 11 0] 12 10 5)
      (up_sample ?two 13 ?two [sample_log 11 0])"
    using sample_up [OF h mined] by (simp add: up_sample_def)
  have "sample_log 13 0 \<in> set [sample_log 11 0] \<union> set ?two"
    using quiet_reconnects_lose_nothing [OF reach]
    by (simp add: up_sample_def after_cursor sample_log_def subset_iff)
  then show ?thesis
    using reach by (intro exI [of _ "up_sample ?two 13 ?two [sample_log 11 0]"]) (simp add: up_sample_def)
qed

end
