(* ===== verification/Nitewatch_System.thy ===== *)
theory Nitewatch_System
  imports Chain_Logs Reconnects
begin

text \<open>
  The whole system: the contract and its callers (World), its logs (Chain_Logs), the listener with its
  connections and channels (Delivery, Reconnects) and the worker, which handles what the listener
  hands on. That the service only sees the contract's own events, which World assumes, is here a
  consequence of how the logs travel. The process may be restarted at any time.
\<close>

section \<open>The system\<close>

text \<open>\<open>nw_done\<close>: how many of the events handed on the worker has taken from the channel.\<close>

record nitewatch =
  nw_world :: world
  nw_sys :: system
  nw_done :: nat
  nw_time :: time

definition handed_on :: "bound_contract \<Rightarrow> system \<Rightarrow> withdraw_started_event list" where
  "handed_on C s = parsed ParseWithdrawStarted withdraw_started_of C (sy_handled s)"

definition pending :: "bound_contract \<Rightarrow> nitewatch \<Rightarrow> withdraw_started_event list" where
  "pending C x = drop (nw_done x) (handed_on C (nw_sys x))"

definition started_topic :: "abi \<Rightarrow> eth_log \<Rightarrow> bool" where
  "started_topic ids l \<longleftrightarrow> take 1 (log_Topics l) = [ids ''WithdrawStarted'']"

text \<open>
  What the world grants a step (as in World, but for the origin of the event): nobody else has the
  service's role, node and database answer, receipts are true, and the clock does not go back.
\<close>

fun step_allowed :: "time \<Rightarrow> world_step \<Rightarrow> world \<Rightarrow> bool" where
  "step_allowed T (Other ce call) w \<longleftrightarrow> \<not> ce_nitewatch ce"
| "step_allowed T (Serve env event ce) w \<longleftrightarrow>
     gorm_ok (env_gorm env) \<and> faultless (env_gorm env) \<and> tells_truth env event ce (w_chain w) \<and>
     T \<le> now_global env \<and> now_global env \<le> now_user env \<and> now_user env \<le> now_record env"

fun allowed :: "geth \<Rightarrow> db checker \<Rightarrow> time \<Rightarrow> world_step list \<Rightarrow> world \<Rightarrow> bool" where
  "allowed G c T [] w = True"
| "allowed G c T (s # steps) w \<longleftrightarrow>
     step_allowed T s w \<and> allowed G c (step_time T s) steps (world_exec G c s w)"

fun served :: "world_step list \<Rightarrow> withdraw_started_event list" where
  "served [] = []"
| "served (Other ce call # steps) = served steps"
| "served (Serve env event ce # steps) = event # served steps"

text \<open>The events of the contract that a block adds.\<close>

definition new_events :: "world \<Rightarrow> world \<Rightarrow> custody_event list" where
  "new_events w w' = drop (length (lc_events (w_chain w))) (lc_events (w_chain w'))"

text \<open>
  A block executes calls of others and transactions of the service, which handles the next events for
  them, and adds a log for every event of the contract. Else the listener makes a step, or the process
  is started again, from the cursor in its database. \<open>restarts\<close> says whether it may be; \<open>keeps\<close> is a
  condition on the steps of the listener.
\<close>

inductive nw_step ::
    "geth \<Rightarrow> db checker \<Rightarrow> bound_contract \<Rightarrow> abi \<Rightarrow> address \<Rightarrow> bool \<Rightarrow>
     (system \<Rightarrow> system \<Rightarrow> bool) \<Rightarrow> nitewatch \<Rightarrow> nitewatch \<Rightarrow> bool"
  for G c C ids contract restarts keeps where
  block: "served steps = take (length (served steps)) (pending C x) \<Longrightarrow>
    allowed G c (nw_time x) steps (nw_world x) \<Longrightarrow> w' = world_run G c steps (nw_world x) \<Longrightarrow>
    list_all2 (encodes C ids) ls (new_events (nw_world x) w') \<Longrightarrow>
    sys_step contract [[ids ''WithdrawStarted'']] (started_topic ids) (nw_sys x) s' \<Longrightarrow>
    sy_chain s' = sy_chain (nw_sys x) @ ls \<Longrightarrow> keeps (nw_sys x) s' \<Longrightarrow>
    nw_step G c C ids contract restarts keeps x
      \<lparr>nw_world = w', nw_sys = s', nw_done = nw_done x + length (served steps),
       nw_time = end_time (nw_time x) steps\<rparr>"
| listen: "sys_step contract [[ids ''WithdrawStarted'']] (started_topic ids) (nw_sys x) s' \<Longrightarrow>
    sy_chain s' = sy_chain (nw_sys x) \<Longrightarrow> keeps (nw_sys x) s' \<Longrightarrow>
    nw_step G c C ids contract restarts keeps x (x\<lparr>nw_sys := s'\<rparr>)"
| restart: "restarts \<Longrightarrow> worker_start E (st_db (w_svc (nw_world x))) = (b, k) \<Longrightarrow>
    nw_step G c C ids contract restarts keeps x
      (x\<lparr>nw_sys := sys_start (sy_chain (nw_sys x)) (sy_head (nw_sys x)) b k, nw_done := 0\<rparr>)"

inductive nw_reach ::
    "geth \<Rightarrow> db checker \<Rightarrow> bound_contract \<Rightarrow> abi \<Rightarrow> address \<Rightarrow> bool \<Rightarrow>
     (system \<Rightarrow> system \<Rightarrow> bool) \<Rightarrow> nitewatch \<Rightarrow> nitewatch \<Rightarrow> bool"
  for G c C ids contract restarts keeps x0 where
  nw_here: "nw_reach G c C ids contract restarts keeps x0 x0"
| nw_go: "nw_reach G c C ids contract restarts keeps x0 x \<Longrightarrow>
    nw_step G c C ids contract restarts keeps x y \<Longrightarrow>
    nw_reach G c C ids contract restarts keeps x0 y"

inductive_cases nw_stepE: "nw_step G c C ids contract restarts keeps x y"

text \<open>A contract right after its deployment, an empty database, and the listener about to connect.\<close>

definition nw_start :: "u64 \<Rightarrow> u64 \<Rightarrow> u32 \<Rightarrow> time \<Rightarrow> nitewatch" where
  "nw_start head fromBlock fromLogIndex T =
     \<lparr>nw_world = world_init, nw_sys = sys_start [] head fromBlock fromLogIndex, nw_done = 0, nw_time = T\<rparr>"

section \<open>Events come from the contract\<close>

lemma custody_apply_events: "\<exists>evs. lc_events (custody_apply ce call chain) = lc_events chain @ evs"
  by (auto simp: custody_apply_def split: sum.split)

lemma custody_run_events: "\<exists>evs. lc_events (custody_run calls chain) = lc_events chain @ evs"
proof (induction calls chain rule: custody_run.induct)
  case (2 ce call rest chain)
  then show ?case using custody_apply_events [of ce call chain] by auto
qed simp

lemma world_exec_events: "\<exists>evs. lc_events (w_chain (world_exec G c s w)) = lc_events (w_chain w) @ evs"
  by (cases s) (auto simp: Let_def intro: custody_apply_events custody_run_events)

lemma world_run_events: "\<exists>evs. lc_events (w_chain (world_run G c steps w)) = lc_events (w_chain w) @ evs"
proof (induction G c steps w rule: world_run.induct)
  case (2 G c s steps w)
  then show ?case using world_exec_events [of G c s w] by auto
qed simp

lemma emitted_grows:
  "emitted (w_chain w) event \<Longrightarrow> emitted (w_chain (world_exec G c s w)) event"
  unfolding emitted_def using world_exec_events [of G c s w] by (metis UnCI set_append)

lemma allowed_granted:
  assumes "allowed G c T steps w" "\<forall>event \<in> set (served steps). emitted (w_chain w) event"
  shows "granted G c T steps w"
  using assms
proof (induction steps arbitrary: T w)
  case (Cons s steps)
  have "\<forall>event \<in> set (served steps). emitted (w_chain (world_exec G c s w)) event"
    using Cons.prems(2) emitted_grows [of w _ G c s] by (cases s) auto
  moreover have "step_granted T s w" using Cons.prems by (cases s) auto
  ultimately show ?case using Cons.IH [of "step_time T s" "world_exec G c s w"] Cons.prems(1) by simp
qed simp

text \<open>The logs on the chain are those of the contract's events, and only such logs travel.\<close>

definition nw_inv :: "geth \<Rightarrow> db checker \<Rightarrow> bound_contract \<Rightarrow> abi \<Rightarrow> nitewatch \<Rightarrow> bool" where
  "nw_inv G c C ids x \<longleftrightarrow>
     world_inv G c (nw_time x) (nw_world x) \<and>
     list_all2 (encodes C ids) (sy_chain (nw_sys x)) (lc_events (w_chain (nw_world x))) \<and>
     only_chain (nw_sys x)"

lemma handed_on_emitted:
  assumes inv: "nw_inv G c C ids x" and ev: "event \<in> set (handed_on C (nw_sys x))"
  shows "emitted (w_chain (nw_world x)) event"
proof -
  obtain l raw where l: "l \<in> set (sy_handled (nw_sys x))" "ParseWithdrawStarted C l = Inr raw"
      "event = withdraw_started_of raw"
    using ev by (auto simp: handed_on_def parsed_set)
  then have "l \<in> set (sy_chain (nw_sys x))" using inv by (auto simp: nw_inv_def only_chain_def)
  then obtain e where e: "e \<in> set (lc_events (w_chain (nw_world x)))" "encodes C ids l e"
    using inv unfolding nw_inv_def list_all2_conv_all_nth by (metis in_set_conv_nth)
  from parse_started [OF e(2) l(2)] e(1) l(3) show ?thesis
    by (force simp: emitted_def started_event_of_def)
qed

lemma served_emitted:
  assumes "nw_inv G c C ids x" "served steps = take (length (served steps)) (pending C x)"
  shows "\<forall>event \<in> set (served steps). emitted (w_chain (nw_world x)) event"
proof
  fix event assume "event \<in> set (served steps)"
  then have "event \<in> set (pending C x)" using assms(2) by (metis in_set_takeD)
  then show "emitted (w_chain (nw_world x)) event"
    by (intro handed_on_emitted [OF assms(1)]) (auto simp: pending_def dest: in_set_dropD)
qed

lemma nw_inv_step:
  assumes G: "geth_ok G" and step: "nw_step G c C ids contract restarts keeps x y" and inv: "nw_inv G c C ids x"
  shows "nw_inv G c C ids y"
  using step
proof (cases rule: nw_step.cases)
  case (block steps w' ls s')
  have "granted G c (nw_time x) steps (nw_world x)"
    using allowed_granted [OF block(3) served_emitted [OF inv block(2)]] .
  then have "world_inv G c (end_time (nw_time x) steps) w'"
    using world_inv_run [OF G] inv block(4) by (simp add: nw_inv_def)
  moreover obtain evs where "lc_events (w_chain w') = lc_events (w_chain (nw_world x)) @ evs"
    using world_run_events block(4) by blast
  ultimately show ?thesis
    using inv block(1,5,7) sys_step_sound [OF block(6)]
    by (auto simp: nw_inv_def new_events_def intro: list_all2_appendI)
next
  case (listen s')
  then show ?thesis using inv sys_step_sound [OF listen(2)] by (simp add: nw_inv_def)
next
  case (restart E b k)
  then show ?thesis using inv by (simp add: nw_inv_def sys_start_def only_chain_def)
qed

lemma nw_inv_start: "nw_inv G c C ids (nw_start head fromBlock fromLogIndex T)"
  by (simp add: nw_inv_def nw_start_def world_inv_init sys_start_def only_chain_def)
    (simp add: world_init_def contract_init_def)

lemma nw_inv_reach:
  assumes "geth_ok G" "nw_reach G c C ids contract restarts keeps x0 x" "nw_inv G c C ids x0"
  shows "nw_inv G c C ids x"
  using assms(2,3) by (induction rule: nw_reach.induct) (auto intro: nw_inv_step [OF assms(1)])

section \<open>Every request is decided\<close>

lemma sys_step_handled:
  assumes "sys_step contract topics topic s s'"
  shows "\<exists>more. sy_handled s' = sy_handled s @ more"
  using assms by (cases rule: sys_step.cases) auto

lemma handed_on_grows:
  assumes "sys_step contract topics topic s s'"
  shows "\<exists>more. handed_on C s' = handed_on C s @ more"
  using sys_step_handled [OF assms] by (auto simp: handed_on_def parsed_def)

lemma world_run_records:
  assumes "allowed G c T steps w" "worker_inv G (w_svc w)"
  shows "worker_inv G (w_svc (world_run G c steps w)) \<and>
    we_WithdrawalID ` set (events (st_db (w_svc (world_run G c steps w)))) =
      (hash_hex G \<circ> ws_WithdrawalID) ` set (served steps) \<union> we_WithdrawalID ` set (events (st_db (w_svc w)))"
  using assms
proof (induction steps arbitrary: T w)
  case (Cons s steps)
  show ?case
  proof (cases s)
    case (Other ce call)
    then show ?thesis using Cons.IH [of T "world_exec G c s w"] Cons.prems by simp
  next
    case (Serve env event ce)
    have E: "gorm_ok (env_gorm env)" "faultless (env_gorm env)" using Cons.prems(1) by (simp_all add: Serve)
    let ?w = "world_exec G c s w"
    have svc: "w_svc ?w = processWithdrawal G c env event (w_svc w)" by (simp add: Serve Let_def)
    have "worker_inv G (w_svc ?w)" using worker_inv_step [OF E Cons.prems(2)] by (simp add: svc)
    moreover have "allowed G c (step_time T s) steps ?w" using Cons.prems(1) by simp
    ultimately have
      "worker_inv G (w_svc (world_run G c steps ?w)) \<and>
       we_WithdrawalID ` set (events (st_db (w_svc (world_run G c steps ?w)))) =
         (hash_hex G \<circ> ws_WithdrawalID) ` set (served steps) \<union> we_WithdrawalID ` set (events (st_db (w_svc ?w)))"
      by (intro Cons.IH)
    then show ?thesis
      using process_records [OF E Cons.prems(2), of c event] by (simp add: svc) (simp add: Serve)
  qed
qed simp

text \<open>What is recorded is what the worker has taken.\<close>

definition records_done :: "geth \<Rightarrow> bound_contract \<Rightarrow> nitewatch \<Rightarrow> bool" where
  "records_done G C x \<longleftrightarrow> nw_done x \<le> length (handed_on C (nw_sys x)) \<and>
     we_WithdrawalID ` set (events (st_db (w_svc (nw_world x)))) =
       (hash_hex G \<circ> ws_WithdrawalID) ` set (take (nw_done x) (handed_on C (nw_sys x)))"

lemma records_step:
  assumes G: "geth_ok G" and step: "nw_step G c C ids contract False keeps x y" and inv: "nw_inv G c C ids x"
    and rec: "records_done G C x"
  shows "records_done G C y"
  using step
proof (cases rule: nw_step.cases)
  case (block steps w' ls s')
  let ?hs = "handed_on C (nw_sys x)" and ?n = "length (served steps)"
  obtain more where more: "handed_on C s' = ?hs @ more" using handed_on_grows [OF block(6)] by blast
  have n: "?n \<le> length (pending C x)" using arg_cong [OF block(2), of length] by simp
  then have le: "nw_done x + ?n \<le> length ?hs" using rec by (auto simp: pending_def records_done_def)
  have "take (nw_done x + ?n) (handed_on C s') = take (nw_done x) ?hs @ served steps"
    using le block(2) by (simp add: more take_add pending_def)
  moreover have "worker_inv G (w_svc (nw_world x))" using inv by (simp add: nw_inv_def world_inv_def)
  ultimately show ?thesis
    using world_run_records [OF block(3)] rec le
    by (auto simp: records_done_def block(1,4) more)
next
  case (listen s')
  obtain more where "handed_on C s' = handed_on C (nw_sys x) @ more" using handed_on_grows [OF listen(2)] by blast
  then show ?thesis using rec by (simp add: records_done_def listen(1))
qed simp

lemma quiet_projection:
  assumes "nw_reach G c C ids contract False (quiet contract [[ids ''WithdrawStarted'']] (started_topic ids)) x0 x"
  shows "quiet_reach contract [[ids ''WithdrawStarted'']] (started_topic ids) (nw_sys x0) (nw_sys x)"
  using assms
proof (induction rule: nw_reach.induct)
  case (nw_go x y)
  from nw_go(2) show ?case
    by (cases rule: nw_step.cases) (auto intro: quiet_reach.quiet_step [OF nw_go(3)])
qed (rule quiet_reach.quiet_start)

lemma later_logs:
  assumes "quiet_reach contract topics topic s0 s" "fromBlock < sy_head s0"
    "\<forall>l \<in> set (sy_chain s0). fromBlock < log_BlockNumber l" "unat (sy_head s) + 10002 < 2 ^ 64"
  shows "fromBlock < sy_head s \<and> (\<forall>l \<in> set (sy_chain s). fromBlock < log_BlockNumber l)"
  using assms
proof (induction rule: quiet_reach.induct)
  case (quiet_step s s')
  note low = head_grows [OF quiet_step.hyps(2) quiet_step.prems(3)]
  note IH = quiet_step.IH [OF quiet_step.prems(1,2) low]
  from quiet_step.hyps(2) show ?case
  proof (cases rule: sys_step.cases)
    case (mine ls)
    then show ?thesis using IH next_head(3) [OF low, of fromBlock] by (auto simp: block_ok_def)
  qed (use IH in auto)
qed simp

lemma records_reach:
  assumes G: "geth_ok G" and "nw_reach G c C ids contract False keeps x0 x"
    and "nw_inv G c C ids x0" "records_done G C x0"
  shows "records_done G C x"
  using assms(2-4)
proof (induction rule: nw_reach.induct)
  case (nw_go x y)
  then show ?case using records_step [OF G nw_go(2) nw_inv_reach [OF G nw_go(1)]] by blast
qed simp

text \<open>A request of the contract has a log, which the listener was asked for.\<close>

lemma started_log:
  assumes "nw_inv G c C ids x" "i \<in> set (started (lc_events (w_chain (nw_world x))))"
  shows "\<exists>l event. l \<in> set (sy_chain (nw_sys x)) \<and> started_topic ids l \<and> ws_WithdrawalID event = i \<and>
    (l \<in> set (sy_handled (nw_sys x)) \<longrightarrow> event \<in> set (handed_on C (nw_sys x)))"
proof -
  obtain u t a n where e: "WithdrawStarted i u t a n \<in> set (lc_events (w_chain (nw_world x)))"
    using assms(2) by (auto simp: started_def split: custody_event.splits)
  then obtain l where l: "l \<in> set (sy_chain (nw_sys x))" "encodes C ids l (WithdrawStarted i u t a n)"
    using assms(1) unfolding nw_inv_def list_all2_conv_all_nth by (metis in_set_conv_nth)
  obtain raw where raw: "ParseWithdrawStarted C l = Inr raw"
      "withdraw_started_of raw = started_event_of i u t a n l"
    using started_parses [OF l(2)] by blast
  have "started_topic ids l" using l(2) by (simp add: encodes_def started_topic_def)
  moreover have "ws_WithdrawalID (withdraw_started_of raw) = i" by (simp add: raw(2) started_event_of_def)
  ultimately show ?thesis
    using l(1) raw(1) by (intro exI [of _ l] exI [of _ "withdraw_started_of raw"]) (auto simp: handed_on_def parsed_set)
qed

end
