(* ===== verification/Nitewatch_Sample.thy ===== *)
theory Nitewatch_Sample
  imports Nitewatch_System
begin

text \<open>
  A run of the whole system for the witnesses: a request is made, the listener connects and reads it
  from the history, the worker finalizes it, and the log of that arrives live.
\<close>

section \<open>The world\<close>

definition requested_world :: world where
  "requested_world =
     world_exec plain_geth sample_checker (Other (sample_call 1) (StartCall 7 5 120 4)) world_init"

definition wire_event :: withdraw_started_event where
  "wire_event = started_event_of 4 7 5 120 4 (wire_log 7 13)"

definition paid_world :: world where
  "paid_world = world_exec plain_geth sample_checker
     (Serve (sample_env sql_engine 10) wire_event (sample_call 2)) requested_world"

lemma requested_world_simps:
  "w_svc requested_world = new_state empty_db"
  "w_chain requested_world = \<lparr>lc_state = (\<lambda>_. no_request)(4 :=
     \<lparr>rq_user = 7, rq_token = 5, rq_amount = 120, rq_exists = True, rq_finalized = False\<rparr>),
     lc_events = [WithdrawStarted 4 7 5 120 4], lc_paid = []\<rparr>"
  by (simp_all add: requested_world_def world_init_def custody_apply_def contract_startWithdraw_def
      contract_init_def no_request_def sample_call_def)

lemma wire_event_simps:
  "ws_WithdrawalID wire_event = 4" "ws_User wire_event = 7" "ws_Token wire_event = 5" "ws_Amount wire_event = 120"
  by (simp_all add: wire_event_def started_event_of_def)

lemma sample_pays:
  "contract_finalizeWithdraw (sample_call 2) 4 (lc_state (w_chain requested_world)) =
     Inr ((lc_state (w_chain requested_world))(4 :=
       \<lparr>rq_user = 0, rq_token = 0, rq_amount = 0, rq_exists = True, rq_finalized = True\<rparr>),
       [WithdrawFinalized 4 True], [(4, 7, 5, 120)])"
  by (simp add: requested_world_simps contract_finalizeWithdraw_def sample_call_def word_less_nat_alt)

lemma sample_finalizes:
  "new_txs (new_state empty_db) (processWithdrawal plain_geth sample_checker (sample_env sql_engine 10) wire_event
     (new_state empty_db)) = [SentFinalize 4 \<lparr>tx_Hash = 5\<rparr>]"
proof -
  have "fresh_id plain_geth wire_event (st_db (new_state empty_db))" by (simp add: fresh_id_def empty_db_def)
  from process_handled [OF _ _ this, of "sample_env sql_engine 10" sample_checker] sample_check_passes [of 10]
  show ?thesis
    by (auto simp: handled_def outcome_def new_txs_def wire_event_simps FinalizeWithdraw_def sample_contract_def)
qed

lemma paid_world_simps:
  "lc_events (w_chain paid_world) = [WithdrawStarted 4 7 5 120 4, WithdrawFinalized 4 True]"
  "lc_paid (w_chain paid_world) = [(4, 7, 5, 120)]"
proof -
  have "w_chain paid_world = custody_apply (sample_call 2) (FinalizeCall 4) (w_chain requested_world)"
    by (simp add: paid_world_def Let_def requested_world_simps(1) sample_finalizes)
  then show "lc_events (w_chain paid_world) = [WithdrawStarted 4 7 5 120 4, WithdrawFinalized 4 True]"
    "lc_paid (w_chain paid_world) = [(4, 7, 5, 120)]"
    by (simp_all add: custody_apply_def sample_pays) (simp_all add: requested_world_simps)
qed

lemma sample_allowed:
  "allowed plain_geth sample_checker 0 [Other (sample_call 1) (StartCall 7 5 120 4)] world_init"
  "allowed plain_geth sample_checker 0 [Serve (sample_env sql_engine 10) wire_event (sample_call 2)] requested_world"
  using sample_pays by (simp_all add: tells_truth_def wire_event_simps) (simp add: sample_call_def)

section \<open>The listener\<close>

definition wire_system :: "eth_log list \<Rightarrow> u64 \<Rightarrow> u64 \<Rightarrow> eth_log list \<Rightarrow> eth_log list \<Rightarrow> eth_log list \<Rightarrow> system" where
  "wire_system chain head lastBlock hist live taken =
     \<lparr>sy_chain = chain, sy_head = head,
      sy_listen = (listen_init 10 5)\<lparr>ls_lastBlock := lastBlock, ls_subscribed := True\<rparr>,
      sy_hist = hist, sy_live = live, sy_handled = taken\<rparr>"

abbreviation wire_step :: "system \<Rightarrow> system \<Rightarrow> bool" where
  "wire_step \<equiv> sys_step 1 [[wire_ids ''WithdrawStarted'']] (started_topic wire_ids)"

abbreviation wire_quiet :: "system \<Rightarrow> system \<Rightarrow> bool" where
  "wire_quiet \<equiv> quiet 1 [[wire_ids ''WithdrawStarted'']] (started_topic wire_ids)"

lemma wire_history:
  "history (started_topic wire_ids) [wire_log 7 13] (first_params 1 [[7]] 13 10 5) = [wire_log 7 13]"
  by (simp add: history_def delivered_def first_params_def wire_log_def skips_head_def known_def started_topic_def
      wire_ids_def)

lemma wire_steps:
  "wire_step (sys_start [] 12 10 5) (sys_start [wire_log 7 13] 13 10 5)"
  "wire_step (sys_start [wire_log 7 13] 13 10 5) (wire_system [wire_log 7 13] 13 10 [wire_log 7 13] [] [])"
  "wire_step (wire_system [wire_log 7 13] 13 10 [wire_log 7 13] [] [])
     (wire_system [wire_log 7 13] 13 10 [] [] [wire_log 7 13])"
  "wire_step (wire_system [wire_log 7 13] 13 10 [] [] [wire_log 7 13])
     (wire_system [wire_log 7 13, wire_log 8 14] 14 10 [] [wire_log 8 14] [wire_log 7 13])"
  "wire_step (wire_system [wire_log 7 13, wire_log 8 14] 14 10 [] [wire_log 8 14] [wire_log 7 13])
     (wire_system [wire_log 7 13, wire_log 8 14] 14 14 [] [] [wire_log 7 13, wire_log 8 14])"
proof -
  show "wire_step (sys_start [] 12 10 5) (sys_start [wire_log 7 13] 13 10 5)"
    using sys_step.mine [of "sys_start [] 12 10 5" "[wire_log 7 13]"]
    by (simp add: sys_start_def block_ok_def wire_log_def listen_init_def)
  show "wire_step (sys_start [wire_log 7 13] 13 10 5) (wire_system [wire_log 7 13] 13 10 [wire_log 7 13] [] [])"
    using sys_step.connect [of "sys_start [wire_log 7 13] 13 10 5" "live_input 13 CtxDone" 13 1 "[[7]]" Connected
        "(listen_init 10 5)\<lparr>ls_subscribed := True\<rparr>" _ "started_topic wire_ids"] sample_connect [of 13] wire_history
    by (simp add: sys_start_def wire_system_def live_input_def histories_def listen_init_def wire_ids_def)
  show "wire_step (wire_system [wire_log 7 13] 13 10 [wire_log 7 13] [] [])
      (wire_system [wire_log 7 13] 13 10 [] [] [wire_log 7 13])"
    using sys_step.take_hist [of "wire_system [wire_log 7 13] 13 10 [wire_log 7 13] [] []" "wire_log 7 13" "[]" _
        "[Handle (wire_log 7 13)]"]
    by (simp add: wire_system_def listen_select_def)
  show "wire_step (wire_system [wire_log 7 13] 13 10 [] [] [wire_log 7 13])
      (wire_system [wire_log 7 13, wire_log 8 14] 14 10 [] [wire_log 8 14] [wire_log 7 13])"
    using sys_step.mine [of "wire_system [wire_log 7 13] 13 10 [] [] [wire_log 7 13]" "[wire_log 8 14]"]
    by (simp add: wire_system_def block_ok_def wire_log_def)
  show "wire_step (wire_system [wire_log 7 13, wire_log 8 14] 14 10 [] [wire_log 8 14] [wire_log 7 13])
      (wire_system [wire_log 7 13, wire_log 8 14] 14 14 [] [] [wire_log 7 13, wire_log 8 14])"
    using sys_step.take_live [of "wire_system [wire_log 7 13, wire_log 8 14] 14 10 [] [wire_log 8 14] [wire_log 7 13]"
        "wire_log 8 14" "[]" _ "[Handle (wire_log 8 14)]"]
    by (simp add: wire_system_def listen_select_def) (simp add: wire_log_def)
qed

lemma wire_quiets:
  "wire_quiet (sys_start [] 12 10 5) (sys_start [wire_log 7 13] 13 10 5)"
  "wire_quiet (sys_start [wire_log 7 13] 13 10 5) (wire_system [wire_log 7 13] 13 10 [wire_log 7 13] [] [])"
  "wire_quiet (wire_system c h b hi li ha) (wire_system c' h' b' hi' li' ha')"
  using wire_history
  by (simp_all add: quiet_def sys_start_def wire_system_def listen_init_def next_params_def wire_ids_def
      skips_head_def first_params_def)


section \<open>The run\<close>

definition sample_final :: nitewatch where
  "sample_final =
     \<lparr>nw_world = paid_world, nw_sys = wire_system [wire_log 7 13, wire_log 8 14] 14 14 [] [] [wire_log 7 13, wire_log 8 14],
      nw_done = 1, nw_time = now_record (sample_env sql_engine 10)\<rparr>"

lemma wire_handed_on:
  "handed_on wire_contract (wire_system chain head b hist live [wire_log 7 13]) = [wire_event]"
  "handed_on wire_contract (wire_system chain head b hist live [wire_log 7 13, wire_log 8 14]) = [wire_event]"
proof -
  obtain raw where raw: "ParseWithdrawStarted wire_contract (wire_log 7 13) = Inr raw"
      "withdraw_started_of raw = wire_event"
    using started_parses [OF wire_encodes(1)] wire_event_def by metis
  obtain err where err: "ParseWithdrawStarted wire_contract (wire_log 8 14) = Inl err"
    using parse_started [OF wire_encodes(2)]
    by (cases "ParseWithdrawStarted wire_contract (wire_log 8 14)") auto
  show "handed_on wire_contract (wire_system chain head b hist live [wire_log 7 13]) = [wire_event]"
    "handed_on wire_contract (wire_system chain head b hist live [wire_log 7 13, wire_log 8 14]) = [wire_event]"
    by (simp_all add: handed_on_def parsed_def wire_system_def raw err)
qed

lemma wire_system_chain: "sy_chain (wire_system chain head b hist live taken) = chain"
  by (simp add: wire_system_def)

lemma sample_pending: "pending wire_contract sample_final = []"
  by (simp add: pending_def sample_final_def wire_handed_on)

lemma sample_nw_run:
  "nw_reach plain_geth sample_checker wire_contract wire_ids 1 False wire_quiet (nw_start 12 10 5 0) sample_final"
proof -
  let ?step = "nw_step plain_geth sample_checker wire_contract wire_ids 1 False wire_quiet"
  let ?reach = "nw_reach plain_geth sample_checker wire_contract wire_ids 1 False wire_quiet (nw_start 12 10 5 0)"
  let ?x = "\<lambda>s. \<lparr>nw_world = requested_world, nw_sys = s, nw_done = 0, nw_time = 0\<rparr>"
  let ?y = "\<lambda>s. \<lparr>nw_world = paid_world, nw_sys = s, nw_done = 1, nw_time = now_record (sample_env sql_engine 10)\<rparr>"
  have one: "?step (nw_start 12 10 5 0) (?x (sys_start [wire_log 7 13] 13 10 5))"
    using nw_step.block [of "[Other (sample_call 1) (StartCall 7 5 120 4)]" wire_contract "nw_start 12 10 5 0"
        plain_geth sample_checker requested_world wire_ids "[wire_log 7 13]" 1 "sys_start [wire_log 7 13] 13 10 5"
        wire_quiet False]
      sample_allowed(1) wire_steps(1) wire_quiets(1) wire_encodes(1)
    by (simp add: nw_start_def new_events_def requested_world_simps) (simp add: requested_world_def sys_start_def
      world_init_def contract_init_def)
  have two: "?step (?x (sys_start [wire_log 7 13] 13 10 5)) (?x (wire_system [wire_log 7 13] 13 10 [wire_log 7 13] [] []))"
    using nw_step.listen [of 1 wire_ids "?x (sys_start [wire_log 7 13] 13 10 5)" _ wire_quiet]
      wire_steps(2) wire_quiets(2) by (simp add: sys_start_def wire_system_def)
  have three: "?step (?x (wire_system [wire_log 7 13] 13 10 [wire_log 7 13] [] []))
      (?x (wire_system [wire_log 7 13] 13 10 [] [] [wire_log 7 13]))"
    using nw_step.listen [of 1 wire_ids "?x (wire_system [wire_log 7 13] 13 10 [wire_log 7 13] [] [])" _ wire_quiet]
      wire_steps(3) wire_quiets(3) by (simp add: wire_system_def)
  let ?serve = "[Serve (sample_env sql_engine 10) wire_event (sample_call 2)]"
  have paid: "paid_world = world_run plain_geth sample_checker ?serve requested_world"
    by (simp only: world_run.simps paid_world_def)
  have new: "new_events requested_world paid_world = [WithdrawFinalized 4 True]"
    by (simp add: new_events_def paid_world_simps requested_world_simps(2))
  have pending: "pending wire_contract (?x (wire_system [wire_log 7 13] 13 10 [] [] [wire_log 7 13])) = [wire_event]"
    by (simp add: pending_def wire_handed_on)
  have four: "?step (?x (wire_system [wire_log 7 13] 13 10 [] [] [wire_log 7 13]))
      (?y (wire_system [wire_log 7 13, wire_log 8 14] 14 10 [] [wire_log 8 14] [wire_log 7 13]))"
    using nw_step.block [of ?serve wire_contract
        "?x (wire_system [wire_log 7 13] 13 10 [] [] [wire_log 7 13])" plain_geth sample_checker paid_world wire_ids
        "[wire_log 8 14]" 1 "wire_system [wire_log 7 13, wire_log 8 14] 14 10 [] [wire_log 8 14] [wire_log 7 13]"
        wire_quiet False]
      sample_allowed(2) wire_steps(4) wire_quiets(3) wire_encodes(2) new
    by (simp add: wire_system_chain pending paid [symmetric] del: allowed.simps world_run.simps)
  have five: "?step (?y (wire_system [wire_log 7 13, wire_log 8 14] 14 10 [] [wire_log 8 14] [wire_log 7 13])) sample_final"
    using nw_step.listen [of 1 wire_ids
        "?y (wire_system [wire_log 7 13, wire_log 8 14] 14 10 [] [wire_log 8 14] [wire_log 7 13])" _ wire_quiet]
      wire_steps(5) wire_quiets(3) by (simp add: wire_system_def sample_final_def)
  show ?thesis
    by (rule nw_go [OF nw_go [OF nw_go [OF nw_go [OF nw_go [OF nw_here one] two] three] four] five])
qed

end
