(* ===== verification/Nitewatch_Correct.thy ===== *)
theory Nitewatch_Correct
  imports Nitewatch_Sample
begin

text \<open>
  What the whole system promises: the limits hold for what the contract pays, whatever happens on the
  way, and every request of the contract is decided, once.
\<close>

section \<open>The limits\<close>

text \<open>
  C1: the limits hold for the system as a whole. Whatever is called, mined, delivered late or twice,
  lost by reconnecting or repeated after a restart: what the contract pays in any clock hour and on
  any clock day stays within the token's limit and within the user's override, and the service's
  ledger lists its payments one by one. That the service handles only what the contract requested is
  not assumed: it follows from the way of the logs.
\<close>

theorem nitewatch_keeps_limits:
  assumes "geth_ok G"
    and "nw_reach G c C ids contract restarts keeps (nw_start head fromBlock fromLogIndex T) x"
    and "W = nw_world x"
    and "applicable c u tok = Some l" "win_limit w l = Some lim" "win_len w dvd b"
  shows "(\<Sum>p \<leftarrow> filter (paid_in u tok (win_len w) b) (zip (lc_paid (w_chain W)) (w_times W)).
      amount_paid p) \<le> max 0 lim \<and>
    map (\<lambda>m. (wm_WithdrawalID m, wm_User m, wm_Token m, row_amount m)) (withdrawals (st_db (w_svc W))) =
      map (\<lambda>(i, u, t, a). (hash_hex G i, addr_hex G u, addr_hex G t, uint a)) (lc_paid (w_chain W))"
proof -
  have "world_inv G c (nw_time x) W"
    using nw_inv_reach [OF assms(1,2) nw_inv_start] by (simp add: nw_inv_def assms(3))
  from world_inv_limits [OF assms(1) this assms(4-6)] world_inv_books [OF this] show ?thesis ..
qed

lemma nitewatch_keeps_limits_witness:
  "\<exists>x W. nw_reach plain_geth sample_checker wire_contract wire_ids 1 False wire_quiet (nw_start 12 10 5 0) x \<and>
    W = nw_world x \<and> lc_paid (w_chain W) = [(4, 7, 5, 120)] \<and>
    (\<Sum>p \<leftarrow> filter (paid_in (Some 7) 5 hour 0) (zip (lc_paid (w_chain W)) (w_times W)). amount_paid p) \<le> 150"
proof (intro exI conjI)
  show "nw_reach plain_geth sample_checker wire_contract wire_ids 1 False wire_quiet (nw_start 12 10 5 0) sample_final"
    by (rule sample_nw_run)
  show "lc_paid (w_chain (nw_world sample_final)) = [(4, 7, 5, 120)]"
    by (simp add: sample_final_def paid_world_simps)
  show "(\<Sum>p \<leftarrow> filter (paid_in (Some 7) 5 hour 0)
      (zip (lc_paid (w_chain (nw_world sample_final))) (w_times (nw_world sample_final))). amount_paid p) \<le> 150"
    using nitewatch_keeps_limits [OF plain_geth_ok sample_nw_run refl _ _ dvd_0_right,
        of "Some 7" 5 _ HourWindow 150]
    by (simp add: applicable_def resolveUserLimit_def sample_checker_def)
qed (rule refl)

section \<open>The decisions\<close>

text \<open>
  C2: and every request is decided. Take a process that is not restarted and whose listener
  reconnects quietly; once it is connected, has read both channels and the worker has handled what
  was handed on, the recorded decisions are those of the contract's requests, one for each, no request
  has been sent two transactions, and the requests recorded as approved are those paid, in this order.
\<close>

theorem nitewatch_decides_requests:
  assumes "geth_ok G"
    and "nw_reach G c C ids contract False (quiet contract [[ids ''WithdrawStarted'']] (started_topic ids))
      (nw_start head fromBlock fromLogIndex T) x"
    and "fromBlock < head" "unat (sy_head (nw_sys x)) + 10002 < 2 ^ 64"
    and "ls_subscribed (sy_listen (nw_sys x))" "sy_hist (nw_sys x) = []" "sy_live (nw_sys x) = []"
    and "pending C x = []" "d = st_db (w_svc (nw_world x))" "chain = w_chain (nw_world x)"
  shows "set (map we_WithdrawalID (events d)) = hash_hex G ` set (started (lc_events chain)) \<and>
    distinct (map we_WithdrawalID (events d)) \<and> distinct (map sent_id (st_sent (w_svc (nw_world x)))) \<and>
    map we_WithdrawalID (filter (\<lambda>ev. we_Decision ev = ''approved'') (events d)) =
      map (hash_hex G \<circ> fst) (lc_paid chain)"
proof -
  let ?q = "nw_sys x"
  let ?sys = "sys_start [] head fromBlock fromLogIndex"
  have inv: "nw_inv G c C ids x" by (rule nw_inv_reach [OF assms(1,2) nw_inv_start])
  have "records_done G C (nw_start head fromBlock fromLogIndex T)"
    by (simp add: records_done_def nw_start_def handed_on_def parsed_def sys_start_def world_init_def empty_db_def)
  from records_reach [OF assms(1,2) nw_inv_start this] assms(8)
  have recorded: "we_WithdrawalID ` set (events d) = (hash_hex G \<circ> ws_WithdrawalID) ` set (handed_on C ?q)"
    by (simp add: records_done_def pending_def assms(9))
  have reach: "quiet_reach contract [[ids ''WithdrawStarted'']] (started_topic ids) ?sys ?q"
    using quiet_projection [OF assms(2)] by (simp add: nw_start_def)
  have later: "\<forall>l \<in> set (sy_chain ?q). fromBlock < log_BlockNumber l"
    using later_logs [OF reach _ _ assms(4), of fromBlock] assms(3) by (simp add: sys_start_def)
  have "accounted (started_topic ids) fromBlock fromLogIndex ?q"
    using quiet_reach_accounted [OF reach accounted_start assms(4)] assms(3) by simp
  then have all: "l \<in> set (sy_handled ?q)" if "l \<in> set (sy_chain ?q)" "started_topic ids l" for l
    using that later assms(5-7) by (auto simp: accounted_def asked_def after_cursor less_imp_le)
  have "hash_hex G i \<in> we_WithdrawalID ` set (events d)" if i: "i \<in> set (started (lc_events chain))" for i
  proof -
    obtain l event where "l \<in> set (sy_chain ?q)" "started_topic ids l" "ws_WithdrawalID event = i"
        "l \<in> set (sy_handled ?q) \<longrightarrow> event \<in> set (handed_on C ?q)"
      using started_log [OF inv i [unfolded assms(10)]] by blast
    with all show ?thesis by (force simp: recorded)
  qed
  moreover have "ws_WithdrawalID event \<in> set (started (lc_events chain))" if "event \<in> set (handed_on C ?q)" for event
    using handed_on_emitted [OF inv that] started_event by (auto simp: emitted_def assms(10))
  ultimately have ids: "we_WithdrawalID ` set (events d) = hash_hex G ` set (started (lc_events chain))"
    by (auto simp: recorded)
  have W: "world_inv G c (nw_time x) (nw_world x)" using inv by (simp add: nw_inv_def)
  then have "map wm_WithdrawalID (withdrawals d) = approved_ids d" "distinct (map sent_id (st_sent (w_svc (nw_world x))))"
      "db_ok d"
    by (simp_all add: world_inv_def worker_inv_def policy_inv_def assms(9))
  moreover have "map wm_WithdrawalID (withdrawals d) = map (hash_hex G \<circ> fst) (lc_paid chain)"
    using arg_cong [OF world_inv_books [OF W], of "map fst"] by (simp add: assms(9,10) comp_def case_prod_beta)
  ultimately show ?thesis
    using ids by (simp add: approved_ids_def db_ok_def)
qed

lemma nitewatch_decides_requests_witness:
  "\<exists>x. nw_reach plain_geth sample_checker wire_contract wire_ids 1 False wire_quiet (nw_start 12 10 5 0) x \<and>
    set (map we_WithdrawalID (events (st_db (w_svc (nw_world x))))) = {hash_hex plain_geth 4}"
proof (intro exI conjI)
  show "nw_reach plain_geth sample_checker wire_contract wire_ids 1 False wire_quiet (nw_start 12 10 5 0) sample_final"
    by (rule sample_nw_run)
  show "set (map we_WithdrawalID (events (st_db (w_svc (nw_world sample_final))))) = {hash_hex plain_geth 4}"
    using nitewatch_decides_requests [OF plain_geth_ok sample_nw_run _ _ _ _ _ sample_pending refl refl]
    by (simp add: sample_final_def wire_system_def paid_world_simps started_def)
qed

end
