(* ===== verification/Faults.thy ===== *)
theory Faults
  imports World
begin

text \<open>
  Faults. The process may stop in the middle of an event, the database may refuse anything, and the
  node may not say whether a transaction was mined. Counted are the steps in which something of this
  goes wrong; shown is that each of them hides at most one payment from the ledger, and that the
  limits hold up to the hidden payments. One of them is enough to exceed a limit.
\<close>

section \<open>Stopping within an event\<close>

text \<open>
  Where \<open>processWithdrawal\<close> has got to when the process stops: a transaction may have been sent, then
  the ledger entry may have been made, then the event is recorded. Each write is one transaction of
  the database.
\<close>

datatype stage = Before_send | Before_save | Before_record | Completed

definition process_until ::
    "stage \<Rightarrow> geth \<Rightarrow> db checker \<Rightarrow> step_env \<Rightarrow> withdraw_started_event \<Rightarrow> svc_state \<Rightarrow> svc_state" where
  "process_until s G c env event st =
     (let st' = processWithdrawal G c env event st in
      case s of
        Before_send \<Rightarrow> st
      | Before_save \<Rightarrow> st\<lparr>st_sent := st_sent st'\<rparr>
      | Before_record \<Rightarrow>
          st\<lparr>st_sent := st_sent st', st_db := (st_db st)\<lparr>withdrawals := withdrawals (st_db st')\<rparr>\<rparr>
      | Completed \<Rightarrow> st')"

text \<open>What a step of the service does to transactions and ledger, on every branch.\<close>

definition save_row :: "geth \<Rightarrow> step_env \<Rightarrow> withdraw_started_event \<Rightarrow> eth_tx \<Rightarrow> db \<Rightarrow> withdrawal_model list" where
  "save_row G env event tx d =
     (case env_wait_mined env tx of
        Inl _ \<Rightarrow> withdrawals d
      | Inr rc \<Rightarrow>
          if rc_Status rc = 1
          then withdrawals (snd (adapter_Save G (env_gorm env) (withdrawal_record env event tx rc) d))
          else withdrawals d)"

lemma process_effects:
  assumes E: "gorm_ok (env_gorm env)" and st': "st' = processWithdrawal G c env event st"
  shows "(new_txs st st' = [] \<or> (\<exists>tx. new_txs st st' = [SentReject (ws_WithdrawalID event) tx])) \<and>
      withdrawals (st_db st') = withdrawals (st_db st) \<or>
    (\<exists>tx. FinalizeWithdraw (env_contract env) (env_auth env) (ws_WithdrawalID event) = Inr tx \<and>
      new_txs st st' = [SentFinalize (ws_WithdrawalID event) tx] \<and>
      withdrawals (st_db st') = save_row G env event tx (st_db st))"
proof (cases "HasWithdrawEvent (env_gorm env) (hash_hex G (ws_WithdrawalID event)) (st_db st)")
  case True
  then show ?thesis by (simp add: st' processWithdrawal_def new_txs_def)
next
  case False
  then show ?thesis
    using E
    by (auto simp: st' processWithdrawal_def reject_withdrawal_def finalize_withdrawal_def new_txs_def
        save_row_def Record_def step_checker_def adapter_def Let_def split: option.split sum.split)
qed

text \<open>The state before recording the event is the one \<open>Record\<close> left.\<close>

lemma save_writes_ledger_only:
  assumes "gorm_ok E"
  shows "snd (adapter_Save G E w d) = d\<lparr>withdrawals := withdrawals (snd (adapter_Save G E w d))\<rparr>"
  using adapter_Save_cases [OF assms, of G w d] by (cases "adapter_Save G E w d") auto

lemma save_row_cases:
  assumes "gorm_ok (env_gorm env)"
  shows "save_row G env event tx d = withdrawals d \<or>
    (\<exists>rc. env_wait_mined env tx = Inr rc \<and> rc_Status rc = 1 \<and>
      save_row G env event tx d = withdrawals d @ [to_model G (withdrawal_record env event tx rc)])"
proof -
  have "withdrawals (snd (adapter_Save G (env_gorm env) w d)) \<in>
      {withdrawals d, withdrawals d @ [to_model G w]}" for w
    using adapter_Save_cases [OF assms, of G w d] by (cases "adapter_Save G (env_gorm env) w d") auto
  then show ?thesis by (fastforce simp: save_row_def split: sum.split)
qed

section \<open>The world with faults\<close>

datatype fault_step =
    Call call_env custody_call
  | Work stage step_env withdraw_started_event call_env

fun fault_exec :: "geth \<Rightarrow> db checker \<Rightarrow> fault_step \<Rightarrow> world \<Rightarrow> world" where
  "fault_exec G c (Call ce call) w = w\<lparr>w_chain := custody_apply ce call (w_chain w)\<rparr>"
| "fault_exec G c (Work s env event ce) w =
     (let st' = process_until s G c env event (w_svc w);
          chain' = custody_run (map (\<lambda>tx. (ce, tx_call tx)) (new_txs (w_svc w) st')) (w_chain w);
          paid = length (lc_paid chain') - length (lc_paid (w_chain w))
      in \<lparr>w_svc = st', w_chain = chain', w_times = w_times w @ replicate paid (now_record env)\<rparr>)"

fun fault_run :: "geth \<Rightarrow> db checker \<Rightarrow> fault_step list \<Rightarrow> world \<Rightarrow> world" where
  "fault_run G c [] w = w"
| "fault_run G c (s # steps) w = fault_run G c steps (fault_exec G c s w)"

text \<open>
  Granted is only that nobody else has the service's role, that a receipt, if there is one, tells what
  the contract did, that the events are the contract's, and that the clock does not go back.
\<close>

definition honest :: "step_env \<Rightarrow> withdraw_started_event \<Rightarrow> call_env \<Rightarrow> ledgered_custody \<Rightarrow> bool" where
  "honest env event ce chain \<longleftrightarrow>
     (\<forall>tx rc. env_wait_mined env tx = Inr rc \<longrightarrow>
        FinalizeWithdraw (env_contract env) (env_auth env) (ws_WithdrawalID event) = Inr tx \<longrightarrow>
        (rc_Status rc = 1 \<longleftrightarrow>
         \<not> isl (contract_finalizeWithdraw ce (ws_WithdrawalID event) (lc_state chain))))"

fun fault_granted :: "time \<Rightarrow> fault_step \<Rightarrow> world \<Rightarrow> bool" where
  "fault_granted T (Call ce call) w \<longleftrightarrow> \<not> ce_nitewatch ce"
| "fault_granted T (Work s env event ce) w \<longleftrightarrow>
     gorm_ok (env_gorm env) \<and> emitted (w_chain w) event \<and> honest env event ce (w_chain w) \<and>
     T \<le> now_global env \<and> now_global env \<le> now_user env \<and> now_user env \<le> now_record env"

fun fault_time :: "time \<Rightarrow> fault_step \<Rightarrow> time" where
  "fault_time T (Call ce call) = T"
| "fault_time T (Work s env event ce) = now_record env"

fun faults_granted :: "geth \<Rightarrow> db checker \<Rightarrow> time \<Rightarrow> fault_step list \<Rightarrow> world \<Rightarrow> bool" where
  "faults_granted G c T [] w = True"
| "faults_granted G c T (s # steps) w \<longleftrightarrow>
     fault_granted T s w \<and> faults_granted G c (fault_time T s) steps (fault_exec G c s w)"

text \<open>A step in which nothing goes wrong, and the number of the others in a run.\<close>

fun calm :: "fault_step \<Rightarrow> bool" where
  "calm (Call ce call) = True"
| "calm (Work s env event ce) \<longleftrightarrow>
     s = Completed \<and> faultless (env_gorm env) \<and> (\<forall>tx. \<not> isl (env_wait_mined env tx))"

definition troubles :: "fault_step list \<Rightarrow> nat" where
  "troubles steps = length (filter (\<lambda>s. \<not> calm s) steps)"

lemma troubles_simps [simp]:
  "troubles [] = 0" "troubles (s # steps) = (if calm s then 0 else 1) + troubles steps"
  by (simp_all add: troubles_def)


section \<open>Booked and hidden payments\<close>

text \<open>At most \<open>k\<close> payments are not in the ledger; every row of the ledger is a payment.\<close>

definition books_but :: "geth \<Rightarrow> nat \<Rightarrow> world \<Rightarrow> bool" where
  "books_but G k w \<longleftrightarrow> length (w_times w) = length (lc_paid (w_chain w)) \<and>
     (\<exists>booked hidden. mset (zip (lc_paid (w_chain w)) (w_times w)) = mset booked + mset hidden \<and>
        list_all2 (row_of G) (withdrawals (st_db (w_svc w))) booked \<and> length hidden \<le> k)"

definition fault_inv :: "geth \<Rightarrow> db checker \<Rightarrow> time \<Rightarrow> nat \<Rightarrow> world \<Rightarrow> bool" where
  "fault_inv G c T k w \<longleftrightarrow>
     policy_inv G c T (st_db (w_svc w)) \<and> custody_inv (w_chain w) \<and> books_but G k w"

lemma books_but_mono: "books_but G k w \<Longrightarrow> k \<le> k' \<Longrightarrow> books_but G k' w"
  unfolding books_but_def by (meson order_trans)

lemma books_same:
  assumes "books_but G k w" "withdrawals (st_db (w_svc w')) = withdrawals (st_db (w_svc w))"
    and "lc_paid (w_chain w') = lc_paid (w_chain w)" "w_times w' = w_times w"
  shows "books_but G k w'"
  using assms by (simp add: books_but_def)

lemma books_pay:
  assumes "books_but G k w" "lc_paid (w_chain w') = lc_paid (w_chain w) @ [p]" "w_times w' = w_times w @ [t]"
  shows "withdrawals (st_db (w_svc w')) = withdrawals (st_db (w_svc w)) \<Longrightarrow> books_but G (Suc k) w'"
    and "withdrawals (st_db (w_svc w')) = withdrawals (st_db (w_svc w)) @ [m] \<Longrightarrow> row_of G m (p, t) \<Longrightarrow>
      books_but G k w'"
proof -
  from assms(1) obtain booked hidden where len: "length (w_times w) = length (lc_paid (w_chain w))" and
    bh: "mset (zip (lc_paid (w_chain w)) (w_times w)) = mset booked + mset hidden"
      "list_all2 (row_of G) (withdrawals (st_db (w_svc w))) booked" "length hidden \<le> k"
    by (auto simp: books_but_def)
  have z: "mset (zip (lc_paid (w_chain w')) (w_times w')) = add_mset (p, t) (mset booked + mset hidden)"
    by (simp add: assms(2,3) len bh(1) [symmetric])
  show "books_but G (Suc k) w'" if "withdrawals (st_db (w_svc w')) = withdrawals (st_db (w_svc w))"
    unfolding books_but_def
    using z bh(2,3) len that by (intro conjI exI [of _ booked] exI [of _ "(p, t) # hidden"]) (simp_all add: assms(2,3))
  show "books_but G k w'"
    if "withdrawals (st_db (w_svc w')) = withdrawals (st_db (w_svc w)) @ [m]" "row_of G m (p, t)"
    unfolding books_but_def
    using z bh(2,3) len that
    by (intro conjI exI [of _ "booked @ [(p, t)]"] exI [of _ hidden]) (simp_all add: assms(2,3) list_all2_appendI)
qed

text \<open>A row of the ledger stands for a payment, so a payment yet to be made has none.\<close>

lemma unpaid_unbooked:
  assumes G: "geth_ok G" and books: "books_but G k w" and new: "i \<notin> fst ` set (lc_paid (w_chain w))"
  shows "hash_hex G i \<notin> wm_WithdrawalID ` set (withdrawals (st_db (w_svc w)))"
proof
  assume "hash_hex G i \<in> wm_WithdrawalID ` set (withdrawals (st_db (w_svc w)))"
  then obtain m where m: "m \<in> set (withdrawals (st_db (w_svc w)))" "wm_WithdrawalID m = hash_hex G i" by auto
  obtain booked hidden where bh: "mset (zip (lc_paid (w_chain w)) (w_times w)) = mset booked + mset hidden"
      "list_all2 (row_of G) (withdrawals (st_db (w_svc w))) booked"
    using books by (auto simp: books_but_def)
  then obtain pt where pt: "pt \<in> set booked" "row_of G m pt"
    using m(1) by (metis in_set_conv_nth list_all2_conv_all_nth)
  have "pt \<in># mset (zip (lc_paid (w_chain w)) (w_times w))"
    unfolding bh(1) using pt(1) by simp
  then have "(fst pt, snd pt) \<in> set (zip (lc_paid (w_chain w)) (w_times w))"
    unfolding set_mset_mset prod.collapse .
  then have "fst pt \<in> set (lc_paid (w_chain w))" by (rule set_zip_leftD)
  moreover have "fst (fst pt) = i"
    using pt(2) m(2) hash_hex_eq [OF G] by (auto simp: row_of_def split: prod.splits)
  ultimately show False using new by force
qed

section \<open>One step with faults\<close>

lemma until_transactions:
  "new_txs st (process_until s G c env event st) =
    (if s = Before_send then [] else new_txs st (processWithdrawal G c env event st))"
  by (cases s) (simp_all add: process_until_def new_txs_def Let_def)

lemma until_withdrawals:
  "withdrawals (st_db (process_until s G c env event st)) =
    (if s = Before_send \<or> s = Before_save then withdrawals (st_db st)
     else withdrawals (st_db (processWithdrawal G c env event st)))"
  by (cases s) (simp_all add: process_until_def Let_def)

lemma until_policy_inv:
  assumes G: "geth_ok G" "gorm_ok (env_gorm env)" and inv: "policy_inv G c T (st_db st)"
    and clock: "T \<le> now_global env" "now_global env \<le> now_user env" "now_user env \<le> now_record env"
  shows "policy_inv G c (now_record env) (st_db (process_until s G c env event st))"
proof -
  have T: "T \<le> now_record env" using clock by simp
  have done': "policy_inv G c (now_record env) (st_db (processWithdrawal G c env event st))"
    by (rule policy_inv_step [OF G inv clock])
  have ok: "db_ok (st_db st)" using inv by (simp add: policy_inv_def)
  then have "db_ok ((st_db st)\<lparr>withdrawals := withdrawals (st_db (processWithdrawal G c env event st))\<rparr>)"
    using done' by (simp add: policy_inv_def db_ok_def)
  from policy_inv_same_ledger [OF done' this] policy_inv_same_ledger [OF inv ok _ T] done' show ?thesis
    by (cases s) (simp_all add: process_until_def Let_def)
qed

text \<open>The transaction to finalize was sent, and the contract refuses it or pays.\<close>

lemma work_refused:
  assumes ok: "fault_granted T (Work s env event ce) w"
    and tx: "FinalizeWithdraw (env_contract env) (env_auth env) (ws_WithdrawalID event) = Inr tx"
    and chain: "w_chain w' = custody_apply ce (FinalizeCall (ws_WithdrawalID event)) (w_chain w)"
    and rows: "withdrawals (st_db (w_svc w')) =
      (if s = Before_save then withdrawals (st_db (w_svc w)) else save_row G env event tx (st_db (w_svc w)))"
    and no: "isl (contract_finalizeWithdraw ce (ws_WithdrawalID event) (lc_state (w_chain w)))"
  shows "lc_paid (w_chain w') = lc_paid (w_chain w) \<and>
    withdrawals (st_db (w_svc w')) = withdrawals (st_db (w_svc w))"
proof -
  have "rc_Status rc \<noteq> 1" if "env_wait_mined env tx = Inr rc" for rc
    using ok tx no that by (auto simp: honest_def)
  then have "save_row G env event tx (st_db (w_svc w)) = withdrawals (st_db (w_svc w))"
    by (simp add: save_row_def split: sum.split)
  then show ?thesis using no rows by (auto simp: chain custody_apply_def isl_def)
qed

lemma work_pays:
  assumes G: "geth_ok G" and inv: "fault_inv G c T k w" and ok: "fault_granted T (Work s env event ce) w"
    and tx: "FinalizeWithdraw (env_contract env) (env_auth env) (ws_WithdrawalID event) = Inr tx"
    and chain: "w_chain w' = custody_apply ce (FinalizeCall (ws_WithdrawalID event)) (w_chain w)"
    and rows: "withdrawals (st_db (w_svc w')) =
      (if s = Before_save then withdrawals (st_db (w_svc w)) else save_row G env event tx (st_db (w_svc w)))"
    and times: "w_times w' = w_times w @
      replicate (length (lc_paid (w_chain w')) - length (lc_paid (w_chain w))) (now_record env)"
    and yes: "\<not> isl (contract_finalizeWithdraw ce (ws_WithdrawalID event) (lc_state (w_chain w)))"
  shows "books_but G ((if calm (Work s env event ce) then 0 else 1) + k) w'"
proof -
  let ?i = "ws_WithdrawalID event" and ?d = "st_db (w_svc w)"
  have E: "gorm_ok (env_gorm env)" and ev: "emitted (w_chain w) event" and
    books: "books_but G k w" and cinv: "custody_inv (w_chain w)"
    using ok inv by (simp_all add: fault_inv_def)
  obtain a where a: "uint a = ws_Amount event" and
    paid: "lc_paid (w_chain w') = lc_paid (w_chain w) @ [(?i, ws_User event, ws_Token event, a)]"
    using finalize_pays [OF cinv ev, of ce] yes chain by auto
  have times': "w_times w' = w_times w @ [now_record env]" by (simp add: times paid)
  note pay = books_pay [OF books paid times']
  have row: "row_of G (to_model G (withdrawal_record env event tx rc))
      ((?i, ws_User event, ws_Token event, a), now_record env)" for rc
    using a by (simp add: row_of_def to_model_def withdrawal_record_def row_amount_def)
  show ?thesis
  proof (cases "calm (Work s env event ce)")
    case True
    then obtain rc where rc: "env_wait_mined env tx = Inr rc" and s: "s = Completed" "faultless (env_gorm env)"
      by (cases "env_wait_mined env tx") (auto simp: isl_def)
    have "rc_Status rc = 1" using ok tx yes rc by (auto simp: honest_def)
    moreover have "?i \<notin> fst ` set (lc_paid (w_chain w))"
      using custody_inv_paid [OF custody_inv_apply [OF cinv, of ce "FinalizeCall ?i"]] paid by (simp add: chain)
    ultimately have "withdrawals (st_db (w_svc w')) =
        withdrawals ?d @ [to_model G (withdrawal_record env event tx rc)]"
      using save_faultless [OF E s(2), of G "withdrawal_record env event tx rc" ?d] unpaid_unbooked [OF G books]
      by (simp add: rows s(1) save_row_def rc withdrawal_record_def)
    from pay(2) [OF this row] True show ?thesis by simp
  next
    case troubled: False
    show ?thesis
    proof (cases "withdrawals (st_db (w_svc w')) = withdrawals ?d")
      case True
      from pay(1) [OF this] show ?thesis by (simp only: troubled if_False plus_1_eq_Suc)
    next
      case changed: False
      then obtain rc where "withdrawals (st_db (w_svc w')) =
          withdrawals ?d @ [to_model G (withdrawal_record env event tx rc)]"
        using rows save_row_cases [OF E, of G event tx ?d] by (auto split: if_splits)
      from books_but_mono [OF pay(2) [OF this row]] show ?thesis by simp
    qed
  qed
qed

lemma work_books:
  assumes G: "geth_ok G" and inv: "fault_inv G c T k w" and ok: "fault_granted T (Work s env event ce) w"
  shows "books_but G ((if calm (Work s env event ce) then 0 else 1) + k) (fault_exec G c (Work s env event ce) w)"
proof -
  let ?st = "w_svc w" and ?chain = "w_chain w" and ?i = "ws_WithdrawalID event"
  let ?w = "fault_exec G c (Work s env event ce) w"
  let ?more = "if calm (Work s env event ce) then 0 else 1"
  have E: "gorm_ok (env_gorm env)" and books: "books_but G k w" and cinv: "custody_inv ?chain"
    using ok inv by (simp_all add: fault_inv_def)
  have same: "books_but G (?more + k) ?w"
    if "lc_paid (w_chain ?w) = lc_paid ?chain" "withdrawals (st_db (w_svc ?w)) = withdrawals (st_db ?st)"
    using books_but_mono [OF books_same [OF books that(2,1)], of "?more + k"] that(1) by (simp add: Let_def)
  have W: "w_svc ?w = process_until s G c env event ?st"
    "w_chain ?w = custody_run (map (\<lambda>tx. (ce, tx_call tx)) (new_txs ?st (w_svc ?w))) ?chain"
    "w_times ?w = w_times w @ replicate (length (lc_paid (w_chain ?w)) - length (lc_paid ?chain)) (now_record env)"
    by (simp_all add: Let_def)
  let ?st' = "processWithdrawal G c env event ?st"
  from process_effects [OF E refl, of ?st G c event]
  consider "new_txs ?st ?st' = [] \<or> (\<exists>tx. new_txs ?st ?st' = [SentReject ?i tx])"
      "withdrawals (st_db ?st') = withdrawals (st_db ?st)"
    | tx where "FinalizeWithdraw (env_contract env) (env_auth env) ?i = Inr tx"
      "new_txs ?st ?st' = [SentFinalize ?i tx]" "withdrawals (st_db ?st') = save_row G env event tx (st_db ?st)"
    by blast
  then show ?thesis
  proof cases
    case 1
    then have "lc_paid (w_chain ?w) = lc_paid ?chain"
      unfolding W(2) unfolding W(1) until_transactions using reject_does_not_pay by auto
    moreover have "withdrawals (st_db (w_svc ?w)) = withdrawals (st_db ?st)"
      unfolding W(1) until_withdrawals by (simp add: 1)
    ultimately show ?thesis by (rule same)
  next
    case (2 tx)
    show ?thesis
    proof (cases "s = Before_send")
      case True
      then show ?thesis by (intro same) (simp_all add: W until_transactions until_withdrawals)
    next
      case sent: False
      then have chain: "w_chain ?w = custody_apply ce (FinalizeCall ?i) ?chain"
        unfolding W(2) unfolding W(1) until_transactions by (simp add: 2)
      have rows: "withdrawals (st_db (w_svc ?w)) =
          (if s = Before_save then withdrawals (st_db ?st) else save_row G env event tx (st_db ?st))"
        unfolding W(1) until_withdrawals using sent by (simp add: 2)
      show ?thesis
        using work_pays [OF G inv ok 2(1) chain rows W(3)] work_refused [OF ok 2(1) chain rows] same by blast
    qed
  qed
qed


lemma fault_inv_step:
  assumes G: "geth_ok G" and inv: "fault_inv G c T k w" and ok: "fault_granted T s w"
  shows "fault_inv G c (fault_time T s) ((if calm s then 0 else 1) + k) (fault_exec G c s w)"
proof (cases s)
  case (Call ce call)
  then show ?thesis
    using inv ok others_do_not_pay [of ce call "w_chain w"]
    by (simp add: fault_inv_def custody_inv_apply) (simp add: books_but_def)
next
  case (Work g env event ce)
  then have clock: "T \<le> now_global env" "now_global env \<le> now_user env" "now_user env \<le> now_record env"
    and E: "gorm_ok (env_gorm env)" using ok by simp_all
  show ?thesis
    using work_books [OF G inv ok [unfolded Work]] inv until_policy_inv [OF G E _ clock, of c "w_svc w" g event]
    by (simp add: Work fault_inv_def Let_def custody_inv_run del: calm.simps)
qed

lemma fault_inv_run:
  "geth_ok G \<Longrightarrow> fault_inv G c T k w \<Longrightarrow> faults_granted G c T steps w \<Longrightarrow>
    \<exists>T'. fault_inv G c T' (troubles steps + k) (fault_run G c steps w)"
proof (induction steps arbitrary: T k w)
  case (Cons s steps)
  then have "faults_granted G c (fault_time T s) steps (fault_exec G c s w)" by simp
  from Cons.IH [OF Cons.prems(1) fault_inv_step [OF Cons.prems(1,2)] this] Cons.prems(3)
  show ?case by (auto simp: algebra_simps split: if_splits)
qed auto

lemma fault_inv_init: "fault_inv G c T 0 world_init"
  using world_inv_init [of G c T]
  by (simp add: fault_inv_def world_inv_def) (simp add: books_but_def world_init_def contract_init_def empty_db_def)

lemma window_sum_mset:
  "mset xs = mset ys + mset zs \<Longrightarrow>
    (\<Sum>x \<leftarrow> filter P xs. f x) = (\<Sum>x \<leftarrow> filter P ys. f x) + (\<Sum>x \<leftarrow> filter P zs. (f x :: int))"
  using sum_list_mset [of "filter P xs" "filter P (ys @ zs)" f] by simp

section \<open>Property\<close>

text \<open>
  C3: faults cost at most what they hide. The process may stop anywhere within an event and start again,
  the database may refuse any request, the node may leave it open whether a transaction was mined.
  Still every row of the ledger is a payment of the contract, each step in which something went
  wrong hides at most one payment from the ledger, and in every clock hour and on every clock day the
  contract pays at most the limit and what was hidden.
\<close>

theorem hidden_payments_bounded:
  assumes "geth_ok G" "faults_granted G c T steps world_init" "W = fault_run G c steps world_init"
    and "applicable c u tok = Some l" "win_limit w l = Some lim" "win_len w dvd b"
  shows "\<exists>hidden. mset hidden \<subseteq># mset (zip (lc_paid (w_chain W)) (w_times W)) \<and>
    length hidden \<le> troubles steps \<and>
    length (lc_paid (w_chain W)) = length (withdrawals (st_db (w_svc W))) + length hidden \<and>
    (\<Sum>p \<leftarrow> filter (paid_in u tok (win_len w) b) (zip (lc_paid (w_chain W)) (w_times W)). amount_paid p)
      \<le> max 0 lim + (\<Sum>p \<leftarrow> filter (paid_in u tok (win_len w) b) hidden. amount_paid p)"
proof -
  obtain T' where "fault_inv G c T' (troubles steps) W"
    using fault_inv_run [OF assms(1) fault_inv_init assms(2)] assms(3) by auto
  then have pol: "policy_inv G c T' (st_db (w_svc W))" and
    len: "length (w_times W) = length (lc_paid (w_chain W))" and books: "books_but G (troubles steps) W"
    by (simp_all add: fault_inv_def books_but_def)
  obtain booked hidden where
    all: "mset (zip (lc_paid (w_chain W)) (w_times W)) = mset booked + mset hidden" and
    rows: "list_all2 (row_of G) (withdrawals (st_db (w_svc W))) booked" and few: "length hidden \<le> troubles steps"
    using books by (auto simp: books_but_def)
  have "bucket_total G u tok (win_len w) b (st_db (w_svc W)) \<le> max 0 lim"
    using pol assms(4-6) by (simp add: policy_inv_def)
  then have "(\<Sum>p \<leftarrow> filter (paid_in u tok (win_len w) b) booked. amount_paid p) \<le> max 0 lim"
    unfolding bucket_total_def ledger_sum [OF assms(1) rows] .
  moreover have "length (lc_paid (w_chain W)) = length (withdrawals (st_db (w_svc W))) + length hidden"
    using arg_cong [OF all, of size] list_all2_lengthD [OF rows] len by simp
  ultimately show ?thesis
    using few by (intro exI [of _ hidden]) (simp add: all window_sum_mset [OF all])
qed

text \<open>
  The witness: the service stops after the transaction that pays 120 of a user's 150, starts again
  with nothing in its ledger, and pays 120 once more within the hour.
\<close>

lemma sample_pays_empty:
  assumes "st_db st = empty_db"
  shows "new_txs st (processWithdrawal plain_geth sample_checker (sample_env sql_engine t) (sample_started i 120) st) =
      [SentFinalize i \<lparr>tx_Hash = 5\<rparr>] \<and>
    length (withdrawals (st_db (processWithdrawal plain_geth sample_checker (sample_env sql_engine t)
      (sample_started i 120) st))) = 1"
proof -
  have "fresh_id plain_geth (sample_started i 120) (st_db st)" by (simp add: assms fresh_id_def empty_db_def)
  from process_handled [OF _ _ this, of "sample_env sql_engine t" sample_checker] sample_check_passes [of t]
  show ?thesis
    by (auto simp: handled_def outcome_def new_txs_def assms sample_started_def FinalizeWithdraw_def
        sample_contract_def ledger_rows_def) (simp add: empty_db_def)
qed

lemma crash_pays:
  assumes db: "st_db (w_svc w) = empty_db"
    and pays: "contract_finalizeWithdraw (sample_call 2) i (lc_state (w_chain w)) = Inr (s', evs, [p])"
    and w': "w' = fault_exec plain_geth sample_checker
      (Work g (sample_env sql_engine t) (sample_started i 120) (sample_call 2)) w"
  shows "g \<noteq> Before_send \<Longrightarrow> w_chain w' =
      \<lparr>lc_state = s', lc_events = lc_events (w_chain w) @ evs, lc_paid = lc_paid (w_chain w) @ [p]\<rparr> \<and>
      w_times w' = w_times w @ [t]"
    and "g = Before_save \<Longrightarrow> st_db (w_svc w') = empty_db"
    and "g = Completed \<Longrightarrow> length (withdrawals (st_db (w_svc w'))) = 1"
    and "T \<le> t \<Longrightarrow> WithdrawStarted i 7 5 120 n \<in> set (lc_events (w_chain w)) \<Longrightarrow>
      fault_granted T (Work g (sample_env sql_engine t) (sample_started i 120) (sample_call 2)) w"
proof -
  note run = sample_pays_empty [OF db, of t i]
  show "w_chain w' =
      \<lparr>lc_state = s', lc_events = lc_events (w_chain w) @ evs, lc_paid = lc_paid (w_chain w) @ [p]\<rparr> \<and>
      w_times w' = w_times w @ [t]" if "g \<noteq> Before_send"
    using that run by (simp add: w' Let_def until_transactions custody_apply_def pays)
  show "st_db (w_svc w') = empty_db" if "g = Before_save"
    using that db by (simp add: w' Let_def process_until_def)
  show "length (withdrawals (st_db (w_svc w'))) = 1" if "g = Completed"
    using that run by (simp add: w' Let_def process_until_def)
  show "fault_granted T (Work g (sample_env sql_engine t) (sample_started i 120) (sample_call 2)) w"
    if "T \<le> t" "WithdrawStarted i 7 5 120 n \<in> set (lc_events (w_chain w))"
    using that pays by (force simp: emitted_def honest_def sample_started_def)
qed

lemma sample_start:
  assumes "\<not> rq_exists (lc_state chain (ucast n))"
  shows "custody_apply (sample_call 1) (StartCall 7 5 120 n) chain =
    chain\<lparr>lc_state := (lc_state chain)(ucast n := \<lparr>rq_user = 7, rq_token = 5, rq_amount = 120,
       rq_exists = True, rq_finalized = False\<rparr>),
      lc_events := lc_events chain @ [WithdrawStarted (ucast n) 7 5 120 n]\<rparr>"
  using assms by (simp add: custody_apply_def contract_startWithdraw_def sample_call_def)

lemma sample_finalize:
  assumes "s i = \<lparr>rq_user = 7, rq_token = 5, rq_amount = 120, rq_exists = True, rq_finalized = False\<rparr>"
  shows "\<exists>evs. contract_finalizeWithdraw (sample_call 2) i s =
    Inr (s(i := (s i)\<lparr>rq_user := 0, rq_token := 0, rq_amount := 0, rq_finalized := True\<rparr>), evs, [(i, 7, 5, 120)])"
  using assms by (simp add: contract_finalizeWithdraw_def sample_call_def word_less_nat_alt)

text \<open>A request for 120 and its payment, from an empty ledger.\<close>

definition request_and_pay :: "stage \<Rightarrow> uint256 \<Rightarrow> time \<Rightarrow> fault_step list" where
  "request_and_pay g n t =
     [Call (sample_call 1) (StartCall 7 5 120 n),
      Work g (sample_env sql_engine t) (sample_started (ucast n) 120) (sample_call 2)]"

lemma request_paid:
  assumes db: "st_db (w_svc w) = empty_db" and new: "\<not> rq_exists (lc_state (w_chain w) (ucast n))"
    and g: "g \<noteq> Before_send" and w': "w' = fault_run plain_geth sample_checker (request_and_pay g n t) w"
  shows "lc_paid (w_chain w') = lc_paid (w_chain w) @ [(ucast n, 7, 5, 120)]"
    and "w_times w' = w_times w @ [t]"
    and "rq_exists (lc_state (w_chain w') j) \<longleftrightarrow> j = ucast n \<or> rq_exists (lc_state (w_chain w) j)"
    and "g = Before_save \<Longrightarrow> st_db (w_svc w') = empty_db"
    and "g = Completed \<Longrightarrow> length (withdrawals (st_db (w_svc w'))) = 1"
    and "T \<le> t \<Longrightarrow> faults_granted plain_geth sample_checker T (request_and_pay g n t) w"
proof -
  define v where "v = fault_exec plain_geth sample_checker (Call (sample_call 1) (StartCall 7 5 120 n)) w"
  have v: "w_svc v = w_svc w" "w_times v = w_times w" "w_chain v = (w_chain w)
      \<lparr>lc_state := (lc_state (w_chain w))(ucast n := \<lparr>rq_user = 7, rq_token = 5, rq_amount = 120,
         rq_exists = True, rq_finalized = False\<rparr>),
       lc_events := lc_events (w_chain w) @ [WithdrawStarted (ucast n) 7 5 120 n]\<rparr>"
    using sample_start [OF new] by (simp_all add: v_def)
  obtain evs where pays: "contract_finalizeWithdraw (sample_call 2) (ucast n) (lc_state (w_chain v)) =
      Inr ((lc_state (w_chain v))(ucast n := (lc_state (w_chain v) (ucast n))
        \<lparr>rq_user := 0, rq_token := 0, rq_amount := 0, rq_finalized := True\<rparr>), evs, [(ucast n, 7, 5, 120)])"
    using sample_finalize [of "lc_state (w_chain v)" "ucast n"] v(3) by auto
  have db': "st_db (w_svc v) = empty_db" using db v(1) by simp
  have run: "w' = fault_exec plain_geth sample_checker
      (Work g (sample_env sql_engine t) (sample_started (ucast n) 120) (sample_call 2)) v"
    by (simp only: w' request_and_pay_def fault_run.simps v_def)
  note step = crash_pays [OF db' pays run]
  show "lc_paid (w_chain w') = lc_paid (w_chain w) @ [(ucast n, 7, 5, 120)]" "w_times w' = w_times w @ [t]"
    "rq_exists (lc_state (w_chain w') j) \<longleftrightarrow> j = ucast n \<or> rq_exists (lc_state (w_chain w) j)"
    using step(1) [OF g] v by auto
  show "st_db (w_svc w') = empty_db" if "g = Before_save" by (rule step(2) [OF that])
  show "length (withdrawals (st_db (w_svc w'))) = 1" if "g = Completed" by (rule step(3) [OF that])
  show "faults_granted plain_geth sample_checker T (request_and_pay g n t) w" if "T \<le> t"
    using step(4) [OF that, of n] v(3)
    by (simp add: request_and_pay_def v_def [symmetric] del: fault_granted.simps(2) fault_exec.simps)
      (simp add: sample_call_def)
qed

lemma fault_run_append: "fault_run G c (xs @ ys) w = fault_run G c ys (fault_run G c xs w)"
  by (induction xs arbitrary: w) simp_all

lemma faults_granted_append:
  "faults_granted G c T (xs @ ys) w \<longleftrightarrow>
    faults_granted G c T xs w \<and> faults_granted G c (fold (\<lambda>s T. fault_time T s) xs T) ys (fault_run G c xs w)"
  by (induction xs arbitrary: T w) simp_all

lemma hidden_payments_bounded_witness:
  "\<exists>W hidden. W = fault_run plain_geth sample_checker
      (request_and_pay Before_save 4 10 @ request_and_pay Completed 6 20) world_init \<and>
    lc_paid (w_chain W) = [(4, 7, 5, 120), (6, 7, 5, 120)] \<and> length (withdrawals (st_db (w_svc W))) = 1 \<and>
    length hidden = 1 \<and>
    240 \<le> 150 + (\<Sum>p \<leftarrow> filter (paid_in (Some 7) 5 hour 0) hidden. amount_paid p)"
proof -
  let ?one = "request_and_pay Before_save 4 10" and ?two = "request_and_pay Completed 6 20"
  have later: "fold (\<lambda>s T. fault_time T s) ?one 0 = 10" by (simp add: request_and_pay_def)
  define V where "V = fault_run plain_geth sample_checker ?one world_init"
  define W where "W = fault_run plain_geth sample_checker ?two V"
  have start: "st_db (w_svc world_init) = empty_db" "lc_paid (w_chain world_init) = []" "w_times world_init = []"
    "\<not> rq_exists (lc_state (w_chain world_init) j)" for j
    by (simp_all add: world_init_def contract_init_def no_request_def new_state_def)
  note one = request_paid [OF start(1) start(4) _ V_def, simplified start]
  have V: "lc_paid (w_chain V) = [(4, 7, 5, 120)]" "w_times V = [10]" "st_db (w_svc V) = empty_db"
    "\<not> rq_exists (lc_state (w_chain V) (ucast (6 :: uint256)))"
    using one(1-4) by simp_all
  note two = request_paid [OF V(3,4) _ W_def, simplified V]
  have W: "lc_paid (w_chain W) = [(4, 7, 5, 120), (6, 7, 5, 120)]" "w_times W = [10, 20]"
    "length (withdrawals (st_db (w_svc W))) = 1"
    using two(1,2,5) by simp_all
  have run: "W = fault_run plain_geth sample_checker (?one @ ?two) world_init"
    by (simp add: fault_run_append W_def V_def)
  have "faults_granted plain_geth sample_checker 0 (?one @ ?two) world_init"
    unfolding faults_granted_append V_def [symmetric]
    using request_paid(6) [OF start(1,4) _ V_def, of 0] request_paid(6) [OF V(3,4) _ W_def, of 10]
    by (simp add: later)
  from hidden_payments_bounded [OF plain_geth_ok this run _ _ dvd_0_right, of "Some 7" 5 _ HourWindow 150]
  obtain hidden where h: "length (lc_paid (w_chain W)) = length (withdrawals (st_db (w_svc W))) + length hidden"
    "(\<Sum>p \<leftarrow> filter (paid_in (Some 7) 5 hour 0) (zip (lc_paid (w_chain W)) (w_times W)). amount_paid p)
      \<le> 150 + (\<Sum>p \<leftarrow> filter (paid_in (Some 7) 5 hour 0) hidden. amount_paid p)"
    by (auto simp: applicable_def resolveUserLimit_def sample_checker_def)
  have "(\<Sum>p \<leftarrow> filter (paid_in (Some 7) 5 hour 0) (zip (lc_paid (w_chain W)) (w_times W)). amount_paid p) = 240"
    by (simp add: W paid_in_def hour_def second_def)
  with h W run show ?thesis by (intro exI [of _ W] exI [of _ hidden]) simp
qed

end
