(* ===== verification/Tables.thy ===== *)
theory Tables
  imports Worker
begin

text \<open>
  The types of the tables. Amounts, addresses, ids and decisions are stored as text: a row is well
  typed when its texts are those the service prints for a withdrawal that passed the checks, or for
  an event with a decision. Shown: every run keeps all tables well typed, whatever the database and
  the node answer, and reading a total from well-typed tables fails only when the query fails.
\<close>

section \<open>Well-typed rows\<close>

definition typed_withdrawal :: "geth \<Rightarrow> 's checker \<Rightarrow> withdrawal_model \<Rightarrow> bool" where
  "typed_withdrawal G c m \<longleftrightarrow>
     (\<exists>w. m = to_model G w \<and> 0 < wd_Amount w \<and> wd_User w \<noteq> 0 \<and> globalLimits c (wd_Token w) \<noteq> None)"

definition typed_decision :: "string \<Rightarrow> string \<Rightarrow> bool" where
  "typed_decision decision reason \<longleftrightarrow>
     decision = ''approved'' \<and> reason = [] \<or> decision \<in> {''rejected'', ''error''} \<and> reason \<noteq> []"

definition typed_event :: "geth \<Rightarrow> withdraw_event_model \<Rightarrow> bool" where
  "typed_event G m \<longleftrightarrow>
     (\<exists>event :: withdraw_started_event. we_WithdrawalID m = hash_hex G (ws_WithdrawalID event) \<and>
        we_UserAddress m = addr_hex G (ws_User event) \<and> we_TokenAddress m = addr_hex G (ws_Token event) \<and>
        we_Amount m = big_string (ws_Amount event) \<and> we_TxHash m = hash_hex G (ws_TxHash event)) \<and>
     typed_decision (we_Decision m) (we_Reason m)"

definition typed_db :: "geth \<Rightarrow> 's checker \<Rightarrow> db \<Rightarrow> bool" where
  "typed_db G c d \<longleftrightarrow>
     (\<forall>m \<in> set (withdrawals d). typed_withdrawal G c m) \<and> (\<forall>m \<in> set (events d). typed_event G m) \<and>
     bc_StreamName ` set (cursors d) \<subseteq> {withdraw_started_stream}"

lemma typed_event_ids [simp]:
  "typed_event G (m\<lparr>we_ID := i, we_CreatedAt := t\<rparr>) \<longleftrightarrow> typed_event G m"
  by (simp add: typed_event_def)

lemma typed_decide:
  "typed_decision decision reason \<Longrightarrow> typed_event G (decide (base_model G event) decision reason)"
  by (auto simp: typed_event_def decide_def base_model_def)

text \<open>The checks never block a withdrawal without saying why.\<close>

lemma window_check_says_why:
  assumes "window_check f ex q d now amount lim = Some err" "f \<noteq> []" "\<And>n. err_msg (ex n) \<noteq> []"
  shows "err_msg err \<noteq> []"
  using assms by (auto simp: window_check_def Let_def split: sum.splits if_splits)

lemma Check_says_why:
  assumes "Check G c ng nu user token amount s = Some err"
  shows "err_msg err \<noteq> []"
proof -
  have global: "err_msg err \<noteq> []" if "checkGlobalLimits G c now token amount s = Some err" for now
    using that
    by (auto simp: checkGlobalLimits_def Let_def sentinel_defs split: option.splits
        dest!: window_check_says_why)
  have user: "err_msg err \<noteq> []" if "checkUserLimits G c now user token amount s = Some err" for now
    using that
    by (auto simp: checkUserLimits_def Let_def sentinel_defs split: option.splits
        dest!: window_check_says_why)
  show ?thesis
    using assms global user
    by (auto simp: Check_def sentinel_defs split: if_splits option.splits)
qed

section \<open>The service keeps the tables well typed\<close>

lemma recordEvent_typed:
  assumes "gorm_ok E" "typed_db G c (st_db st)" "typed_event G m"
  shows "typed_db G c (st_db (recordEvent E m st))"
proof -
  obtain r d' where d': "RecordWithdrawEvent E m (st_db st) = (r, d')"
    by (cases "RecordWithdrawEvent E m (st_db st)")
  have "typed_db G c d'"
    using RecordWithdrawEvent_cases [OF assms(1) d']
  proof (elim disjE exE conjE)
    fix i t t'
    let ?cur = "put_cursor t' \<lparr>bc_StreamName = withdraw_started_stream,
       bc_BlockNumber = we_BlockNumber m, bc_LogIndex = we_LogIndex m, bc_UpdatedAt = 0\<rparr>
       (cursors (st_db st))"
    assume "d' = (st_db st)\<lparr>events := insert_event i t m (events (st_db st)), cursors := ?cur\<rparr>"
    moreover have "\<forall>x \<in> set (insert_event i t m (events (st_db st))). typed_event G x"
      using assms(2,3) by (simp add: typed_db_def insert_event_def)
    moreover have "bc_StreamName ` set ?cur \<subseteq> {withdraw_started_stream}"
      using assms(2) unfolding put_cursor_names by (simp add: typed_db_def)
    ultimately show ?thesis using assms(2) by (simp add: typed_db_def)
  qed (use assms(2) in simp)
  with d' show ?thesis by (simp add: recordEvent_def)
qed

lemma save_typed:
  assumes "gorm_ok E" "typed_db G c d" "0 < wd_Amount w" "wd_User w \<noteq> 0" "globalLimits c (wd_Token w) \<noteq> None"
  shows "typed_db G c (snd (adapter_Save G E w d))"
proof -
  obtain r d' where d': "adapter_Save G E w d = (r, d')" by (cases "adapter_Save G E w d")
  from adapter_Save_cases [OF assms(1) d'] show ?thesis
  proof (elim disjE exE conjE)
    assume "d' = d\<lparr>withdrawals := withdrawals d @ [to_model G w]\<rparr>"
    moreover have "typed_withdrawal G c (to_model G w)"
      using assms(3-5) unfolding typed_withdrawal_def by blast
    ultimately show ?thesis using assms(2) by (simp add: d' typed_db_def)
  qed (use assms(2) d' in simp)
qed

lemma reject_typed:
  assumes "gorm_ok (env_gorm env)" "typed_db G c (st_db st)" "err_msg err \<noteq> []"
  shows "typed_db G c (st_db (reject_withdrawal G env event err st))"
  using assms
  by (auto simp: reject_withdrawal_def Let_def typed_decision_def split: sum.split
      intro!: recordEvent_typed typed_decide)

lemma finalize_typed:
  assumes E: "gorm_ok (env_gorm env)" and inv: "typed_db G c (st_db st)"
    and ev: "0 < ws_Amount event" "ws_User event \<noteq> 0" "globalLimits c (ws_Token event) \<noteq> None"
  shows "typed_db G c (st_db (finalize_withdrawal G (step_checker G c env) env event st))"
proof -
  have save: "typed_db G c (snd (Record (step_checker G c env) (withdrawal_record env event tx rc) (st_db st)))"
    for tx rc
    using save_typed [OF E inv, of "withdrawal_record env event tx rc"] ev
    by (simp add: Record_def step_checker_def adapter_def withdrawal_record_def)
  show ?thesis
    by (auto simp: finalize_withdrawal_def Let_def typed_decision_def save inv split: sum.split
        intro!: recordEvent_typed [OF E] typed_decide)
qed

lemma process_typed:
  assumes E: "gorm_ok (env_gorm env)" and inv: "typed_db G c (st_db st)"
  shows "typed_db G c (st_db (processWithdrawal G c env event st))"
proof (cases "Check G (step_checker G c env) (now_global env) (now_user env)
    (ws_User event) (ws_Token event) (ws_Amount event) (st_db st)")
  case (Some err)
  then show ?thesis
    using inv reject_typed [OF E inv Check_says_why [OF Some]]
    by (simp add: processWithdrawal_def Let_def)
next
  case None
  then have "0 < ws_Amount event" "ws_User event \<noteq> 0" "globalLimits c (ws_Token event) \<noteq> None"
    by (auto simp: Check_None_iff checkGlobalLimits_None_iff step_checker_def)
  from finalize_typed [OF E inv this] None inv show ?thesis
    by (simp add: processWithdrawal_def Let_def)
qed

definition lawful_steps :: "(step_env \<times> withdraw_started_event) list \<Rightarrow> bool" where
  "lawful_steps steps \<longleftrightarrow> (\<forall>(env, event) \<in> set steps. gorm_ok (env_gorm env))"

lemma worker_typed:
  "lawful_steps steps \<Longrightarrow> typed_db G c (st_db st) \<Longrightarrow> typed_db G c (st_db (worker_loop G c steps st))"
proof (induction steps arbitrary: st)
  case (Cons step steps)
  then show ?case
    by (cases step) (auto simp: lawful_steps_def intro!: Cons.IH process_typed)
qed simp

lemma typed_sum:
  assumes "\<forall>m \<in> set ms. typed_withdrawal G c m"
  shows "\<not> isl (sumAmounts ms)"
proof -
  have "set_string (wm_Amount m) \<noteq> None" if "m \<in> set ms" for m
    using assms that by (force simp: typed_withdrawal_def to_model_def)
  then have "sumAmounts ms = Inr (sum_list (map row_amount ms))" by (simp add: sumAmounts_iff)
  then show ?thesis by simp
qed

lemma typed_find:
  assumes "gorm_ok E" "typed_db G c d" "find_withdrawals E q d = Inr rows"
  shows "\<not> isl (sumAmounts rows)"
proof -
  have "set rows \<subseteq> set (withdrawals d)"
    using assms(1,3) mset_eq_setD [of rows "filter (matches q) (withdrawals d)"]
    by (auto simp: gorm_ok_def find_ok_def)
  with assms(2) show ?thesis by (auto simp: typed_db_def intro!: typed_sum)
qed

section \<open>Property\<close>

text \<open>
  C24: the tables stay well typed. After any run from empty tables, whatever statements and calls
  fail, every ledger row is the text of a withdrawal with a positive amount, a user and a token that
  has limits; every event row has one of the three decisions, with a reason exactly when it is not
  \<open>approved\<close>; and no total can fail on a stored amount: an error is the error of the query itself.
\<close>

theorem tables_well_typed:
  assumes "lawful_steps steps" "d = st_db (worker_loop G c steps (new_state empty_db))" "gorm_ok E"
  shows "typed_db G c d \<and>
    (isl (adapter_GetTotalWithdrawn G E tok since d) \<longleftrightarrow>
       isl (find_withdrawals E (TokenSince (addr_hex G tok) since) d)) \<and>
    (isl (adapter_GetTotalWithdrawnByUser G E u tok since d) \<longleftrightarrow>
       isl (find_withdrawals E (UserTokenSince (addr_hex G u) (addr_hex G tok) since) d))"
proof -
  have "typed_db G c (st_db (new_state empty_db))"
    by (simp add: typed_db_def empty_db_def)
  then have typed: "typed_db G c d" using worker_typed assms(1,2) by blast
  have "isl (case find_withdrawals E q d of Inl err \<Rightarrow> Inl err | Inr ws \<Rightarrow> sumAmounts ws) \<longleftrightarrow>
      isl (find_withdrawals E q d)" for q
    using typed_find [OF assms(3) typed, of q] by (cases "find_withdrawals E q d") auto
  with typed show ?thesis
    by (simp add: adapter_GetTotalWithdrawn_def adapter_GetTotalWithdrawnByUser_def)
qed

text \<open>The witness fills the disk after the first event.\<close>

lemma tables_well_typed_witness:
  "\<exists>d. d = st_db (worker_loop plain_geth sample_checker
      [(sample_env sql_engine 10, sample_started 1 120), (sample_env full_engine 12, sample_started 2 0)]
      (new_state empty_db)) \<and>
    typed_db plain_geth sample_checker d \<and> \<not> isl (adapter_GetTotalWithdrawn plain_geth sql_engine 5 0 d)"
proof -
  let ?steps = "[(sample_env sql_engine 10, sample_started 1 120), (sample_env full_engine 12, sample_started 2 0)]"
  have "lawful_steps ?steps" by (simp add: lawful_steps_def)
  from tables_well_typed [OF this refl sql_engine_ok, of plain_geth sample_checker 5 0]
  show ?thesis by (simp add: sql_engine_def)
qed

end
