(* ===== verification/Lifecycle.thy ===== *)
theory Lifecycle
  imports Prelude
begin

text \<open>
  The goroutines of \<open>RunWorkerWithContext\<close> in \<open>service/service.go\<close>: the health endpoint, the worker,
  the two that wait for the context to shut the endpoint down and to close the client, and the error
  the process ends with. \<open>errgroup\<close> is not under \<open>src/\<close>: the record \<open>errgroup\<close> holds its operations
  with their documented laws. Shown: once the context is cancelled the run ends, and \<open>RunWorker\<close>
  never returns nil.
\<close>

section \<open>The error group\<close>

text \<open>
  \<open>eg_done g e\<close>: a goroutine of the group returned \<open>e\<close>; \<open>eg_cancelled\<close>: the group's context is done;
  \<open>eg_wait\<close>: what \<open>Wait\<close> returns once all have returned.
\<close>

record 'g errgroup =
  eg_new :: 'g
  eg_done :: "'g \<Rightarrow> go_error option \<Rightarrow> 'g"
  eg_cancelled :: "'g \<Rightarrow> bool"
  eg_wait :: "'g \<Rightarrow> go_error option"

definition errgroup_ok :: "'g errgroup \<Rightarrow> bool" where
  "errgroup_ok GR \<longleftrightarrow> eg_wait GR (eg_new GR) = None \<and> \<not> eg_cancelled GR (eg_new GR) \<and>
     (\<forall>g e. eg_wait GR (eg_done GR g e) = (case eg_wait GR g of None \<Rightarrow> e | Some x \<Rightarrow> Some x)) \<and>
     (\<forall>g e. eg_cancelled GR (eg_done GR g e) \<longleftrightarrow> eg_cancelled GR g \<or> e \<noteq> None)"

lemma errgroup_wait: "errgroup_ok GR \<Longrightarrow>
    eg_wait GR (eg_done GR g e) = (case eg_wait GR g of None \<Rightarrow> e | Some x \<Rightarrow> Some x)"
  and errgroup_cancelled: "errgroup_ok GR \<Longrightarrow>
    eg_cancelled GR (eg_done GR g e) \<longleftrightarrow> eg_cancelled GR g \<or> e \<noteq> None"
  by (simp_all add: errgroup_ok_def)

text \<open>A concrete group for the witnesses.\<close>

definition first_error_group :: "go_error option errgroup" where
  "first_error_group =
     \<lparr>eg_new = None, eg_done = (\<lambda>g e. case g of None \<Rightarrow> e | Some x \<Rightarrow> Some x),
      eg_cancelled = (\<lambda>g. g \<noteq> None), eg_wait = (\<lambda>g. g)\<rparr>"

lemma first_error_group_ok [simp]: "errgroup_ok first_error_group"
  by (auto simp: errgroup_ok_def first_error_group_def split: option.splits)

section \<open>The goroutines\<close>

text \<open>
  \<open>net/http\<close>: \<open>ListenAndServe\<close> always returns an error, and after \<open>Shutdown\<close>, at the latest, it
  returns, with \<open>ErrServerClosed\<close>. Before that it may fail, but nothing makes it.
\<close>

definition ErrServerClosed :: string where
  "ErrServerClosed = ''http: Server closed''"

datatype routine = WebServer | Worker | Shutdown | CloseClient

text \<open>
  \<open>lf_active\<close>: the goroutines of the group that have not returned. \<open>lf_watching\<close>: the listener's own
  goroutine has not returned; \<open>lf_sending\<close>: it waits for a reader of the channel of withdrawals, which
  has no buffer; \<open>lf_handling\<close>: the worker is in \<open>processWithdrawal\<close>.
\<close>

record 'g life =
  lf_group :: 'g
  lf_interrupted :: bool
  lf_active :: "routine set"
  lf_server_down :: bool
  lf_client_closed :: bool
  lf_watching :: bool
  lf_sending :: bool
  lf_handling :: bool
  lf_ready :: bool

definition life_init :: "'g errgroup \<Rightarrow> 'g life" where
  "life_init GR =
     \<lparr>lf_group = eg_new GR, lf_interrupted = False,
      lf_active = {WebServer, Worker, Shutdown, CloseClient}, lf_server_down = False,
      lf_client_closed = False, lf_watching = True, lf_sending = False, lf_handling = False,
      lf_ready = False\<rparr>"

text \<open>The group's context is derived from the one the interrupt cancels.\<close>

definition ctx_done :: "'g errgroup \<Rightarrow> 'g life \<Rightarrow> bool" where
  "ctx_done GR s \<longleftrightarrow> lf_interrupted s \<or> eg_cancelled GR (lf_group s)"

definition routine_ends :: "'g errgroup \<Rightarrow> routine \<Rightarrow> go_error option \<Rightarrow> 'g life \<Rightarrow> 'g life" where
  "routine_ends GR r e s =
     s\<lparr>lf_group := eg_done GR (lf_group s) e, lf_active := lf_active s - {r}\<rparr>"

text \<open>\<open>Shutdown\<close> of the server closes its listener, also when it then runs into its timeout.\<close>

definition server_shutdown :: "'g life \<Rightarrow> 'g life" where
  "server_shutdown s = s\<lparr>lf_server_down := True\<rparr>"

text \<open>
  One step of one goroutine, the caller's own \<open>setWorkerReady\<close> included (\<open>mark_ready\<close>), after which
  it waits for the group. These are the steps the program takes by itself: none needs a failure, an
  interrupt or an event. The server's goroutine ends only once the server is down. The listener
  closes the channel when it returns, which it cannot do while it waits for the worker to take an
  event; only when the channel is closed does the worker's loop end. Every wait within
  \<open>processWithdrawal\<close> has the context, so with the context done it ends.
\<close>

inductive goroutine_step :: "'g errgroup \<Rightarrow> 'g life \<Rightarrow> 'g life \<Rightarrow> bool" for GR where
  mark_ready: "\<not> lf_ready s \<Longrightarrow> goroutine_step GR s (s\<lparr>lf_ready := True\<rparr>)"
| web_closes: "WebServer \<in> lf_active s \<Longrightarrow> lf_server_down s \<Longrightarrow>
    goroutine_step GR s (routine_ends GR WebServer (Some (Sentinel ErrServerClosed)) s)"
| watcher_returns: "lf_watching s \<Longrightarrow> \<not> lf_sending s \<Longrightarrow> ctx_done GR s \<Longrightarrow>
    goroutine_step GR s (s\<lparr>lf_watching := False\<rparr>)"
| worker_takes: "Worker \<in> lf_active s \<Longrightarrow> lf_sending s \<Longrightarrow> \<not> lf_handling s \<Longrightarrow>
    goroutine_step GR s (s\<lparr>lf_sending := False, lf_handling := True\<rparr>)"
| worker_handles: "lf_handling s \<Longrightarrow> ctx_done GR s \<Longrightarrow> goroutine_step GR s (s\<lparr>lf_handling := False\<rparr>)"
| worker_returns: "Worker \<in> lf_active s \<Longrightarrow> \<not> lf_watching s \<Longrightarrow> \<not> lf_handling s \<Longrightarrow>
    goroutine_step GR s (routine_ends GR Worker None s)"
| shutdown: "Shutdown \<in> lf_active s \<Longrightarrow> ctx_done GR s \<Longrightarrow>
    goroutine_step GR s (routine_ends GR Shutdown r (server_shutdown s))"
| close_client: "CloseClient \<in> lf_active s \<Longrightarrow> ctx_done GR s \<Longrightarrow>
    goroutine_step GR s (routine_ends GR CloseClient None (s\<lparr>lf_client_closed := True\<rparr>))"

text \<open>
  What happens in between from outside: an interrupt, the server's failure, a log that arrives, a
  node's answer that ends \<open>processWithdrawal\<close>, or an ABI that cannot be parsed, with which the listener
  returns at once.
\<close>

inductive life_step :: "'g errgroup \<Rightarrow> 'g life \<Rightarrow> 'g life \<Rightarrow> bool" for GR where
  goroutine: "goroutine_step GR s s' \<Longrightarrow> life_step GR s s'"
| interrupt: "\<not> lf_interrupted s \<Longrightarrow> life_step GR s (s\<lparr>lf_interrupted := True\<rparr>)"
| web_fails: "WebServer \<in> lf_active s \<Longrightarrow> \<not> lf_server_down s \<Longrightarrow>
    life_step GR s (routine_ends GR WebServer (Some e) s)"
| log_arrives: "lf_watching s \<Longrightarrow> \<not> lf_sending s \<Longrightarrow> life_step GR s (s\<lparr>lf_sending := True\<rparr>)"
| node_answers: "lf_handling s \<Longrightarrow> life_step GR s (s\<lparr>lf_handling := False\<rparr>)"
| no_abi: "lf_watching s \<Longrightarrow> \<not> lf_sending s \<Longrightarrow> life_step GR s (s\<lparr>lf_watching := False\<rparr>)"

inductive life_reach :: "'g errgroup \<Rightarrow> 'g life \<Rightarrow> bool" for GR where
  init: "life_reach GR (life_init GR)"
| step: "life_reach GR s \<Longrightarrow> life_step GR s s' \<Longrightarrow> life_reach GR s'"

inductive_cases goroutine_stepE: "goroutine_step GR s s'"
inductive_cases life_stepE: "life_step GR s s'"

text \<open>
  \<open>g.Wait()\<close>, called once the service is marked ready: the result of \<open>RunWorker\<close>, when every
  goroutine has returned.
\<close>

definition run_worker_result :: "'g errgroup \<Rightarrow> 'g life \<Rightarrow> go_error option option" where
  "run_worker_result GR s =
     (if lf_ready s \<and> lf_active s = {} then Some (eg_wait GR (lf_group s)) else None)"

text \<open>The end of \<open>main\<close>: the exit status of the process.\<close>

definition exit_status :: "go_error option \<Rightarrow> nat" where
  "exit_status r = (case r of Some err \<Rightarrow> 1 | None \<Rightarrow> 0)"

section \<open>Invariants\<close>

text \<open>
  The server's goroutine has left an error, the other goroutines have done their work when they are
  gone, and an error of the group cancels the context.
\<close>

definition life_inv :: "'g errgroup \<Rightarrow> 'g life \<Rightarrow> bool" where
  "life_inv GR s \<longleftrightarrow>
     (WebServer \<notin> lf_active s \<longrightarrow> eg_wait GR (lf_group s) \<noteq> None) \<and>
     (eg_wait GR (lf_group s) \<noteq> None \<longrightarrow> ctx_done GR s) \<and>
     (Shutdown \<notin> lf_active s \<longrightarrow> lf_server_down s) \<and>
     (CloseClient \<notin> lf_active s \<longrightarrow> lf_client_closed s) \<and>
     (Worker \<notin> lf_active s \<longrightarrow> \<not> lf_watching s \<and> \<not> lf_handling s) \<and>
     (lf_sending s \<longrightarrow> lf_watching s)"

lemma life_inv_goroutine:
  assumes "errgroup_ok GR" "life_inv GR s" "goroutine_step GR s s'"
  shows "life_inv GR s'"
proof -
  note law = errgroup_wait [OF assms(1)] errgroup_cancelled [OF assms(1)]
  show ?thesis
    using assms(3,2)
    by (cases rule: goroutine_step.cases)
      (auto simp: life_inv_def routine_ends_def ctx_done_def server_shutdown_def law split: option.splits)
qed

lemma life_inv_step:
  assumes "errgroup_ok GR" "life_inv GR s" "life_step GR s s'"
  shows "life_inv GR s'"
  using assms(3)
proof (cases rule: life_step.cases)
  case goroutine
  then show ?thesis by (rule life_inv_goroutine [OF assms(1,2)])
qed (use assms(2) in \<open>auto simp: life_inv_def routine_ends_def ctx_done_def errgroup_wait [OF assms(1)]
  errgroup_cancelled [OF assms(1)] split: option.splits\<close>)

lemma life_reach_inv: "life_reach GR s \<Longrightarrow> errgroup_ok GR \<Longrightarrow> life_inv GR s"
proof (induction rule: life_reach.induct)
  case init
  then show ?case by (simp add: life_inv_def life_init_def errgroup_ok_def)
next
  case (step s s')
  then show ?case using life_inv_step by blast
qed

section \<open>Ending\<close>

text \<open>The steps the goroutines can still take by themselves.\<close>

definition life_measure :: "'g life \<Rightarrow> nat" where
  "life_measure s = card (lf_active s) + (if lf_watching s then 1 else 0) + (if lf_sending s then 2 else 0) +
     (if lf_handling s then 1 else 0) + (if lf_ready s then 0 else 1)"

lemma routines: "(UNIV :: routine set) = {WebServer, Worker, Shutdown, CloseClient}"
  by (auto intro: routine.exhaust)

lemma finite_routines [simp]: "finite (R :: routine set)"
  by (rule finite_subset [OF subset_UNIV]) (simp add: routines)

lemma life_measure_bound: "life_measure s \<le> 9"
proof -
  have "card (lf_active s) \<le> card (UNIV :: routine set)" by (rule card_mono) simp_all
  then show ?thesis by (simp add: life_measure_def routines)
qed

lemma routine_ends_measure:
  "r \<in> lf_active s \<Longrightarrow> life_measure (routine_ends GR r e s) < life_measure s"
  using card_Diff1_less [of "lf_active s" r] by (simp add: life_measure_def routine_ends_def)

lemma goroutine_step_decreases:
  assumes "goroutine_step GR s s'"
  shows "life_measure s' < life_measure s"
  using assms
proof (cases rule: goroutine_step.cases)
  case (shutdown r)
  with routine_ends_measure [of Shutdown "server_shutdown s" GR r]
  show ?thesis by (simp add: life_measure_def server_shutdown_def)
next
  case close_client
  with routine_ends_measure [of CloseClient "s\<lparr>lf_client_closed := True\<rparr>" GR None]
  show ?thesis by (simp add: life_measure_def)
qed (auto simp: routine_ends_measure, simp_all add: life_measure_def)

text \<open>No goroutine waits for ever: as long as one has not returned, one can go on.\<close>

lemma goroutine_progress:
  assumes "life_inv GR s" "ctx_done GR s" "\<not> (lf_ready s \<and> lf_active s = {})"
  shows "\<exists>s'. goroutine_step GR s s'"
proof (cases "lf_ready s \<and> Shutdown \<notin> lf_active s \<and> CloseClient \<notin> lf_active s")
  case False
  then show ?thesis using assms(2) goroutine_step.intros(1,7,8) [of _ GR] by blast
next
  case True
  with assms(3) obtain r where r: "r \<in> lf_active s" "r = WebServer \<or> r = Worker"
    by (metis equals0I routine.exhaust)
  show ?thesis
  proof (cases "r = WebServer")
    case True
    have "lf_server_down s" using assms(1) \<open>lf_ready s \<and> _\<close> by (simp add: life_inv_def)
    with r True show ?thesis using goroutine_step.web_closes [of s GR] by blast
  next
    case False
    with r assms(2) show ?thesis
      using goroutine_step.intros(3-6) [of s GR] by (cases "lf_handling s"; cases "lf_sending s"; cases "lf_watching s") blast+
  qed
qed

lemma goroutine_ctx_done:
  assumes "errgroup_ok GR" "goroutine_step GR s s'" "ctx_done GR s"
  shows "ctx_done GR s'"
  using assms(2,3)
  by (cases rule: goroutine_step.cases)
    (auto simp: ctx_done_def routine_ends_def server_shutdown_def errgroup_cancelled [OF assms(1)])

lemma goroutine_run:
  assumes "errgroup_ok GR" "(goroutine_step GR ^^ n) s s'" "life_inv GR s" "ctx_done GR s"
  shows "life_inv GR s' \<and> ctx_done GR s' \<and> n + life_measure s' \<le> life_measure s"
  using assms(2)
proof (induction n arbitrary: s')
  case (Suc n)
  then obtain t where t: "(goroutine_step GR ^^ n) s t" "goroutine_step GR t s'" by auto
  from Suc.IH [OF t(1)] show ?case
    using life_inv_goroutine [OF assms(1) _ t(2)] goroutine_ctx_done [OF assms(1) t(2)]
      goroutine_step_decreases [OF t(2)] by auto
qed (use assms(3,4) in auto)

lemma goroutines_end:
  assumes "errgroup_ok GR" "life_inv GR s" "ctx_done GR s"
  shows "\<exists>n s'. (goroutine_step GR ^^ n) s s' \<and> run_worker_result GR s' \<noteq> None"
  using assms(2,3)
proof (induction "life_measure s" arbitrary: s rule: less_induct)
  case less
  show ?case
  proof (cases "lf_ready s \<and> lf_active s = {}")
    case True
    then show ?thesis by (intro exI [of _ 0] exI [of _ s]) (simp add: run_worker_result_def)
  next
    case False
    then obtain t where t: "goroutine_step GR s t" using goroutine_progress less.prems by blast
    then obtain n s' where "(goroutine_step GR ^^ n) t s'" "run_worker_result GR s' \<noteq> None"
      using less.hyps [OF goroutine_step_decreases [OF t]] life_inv_goroutine [OF assms(1) less.prems(1) t]
        goroutine_ctx_done [OF assms(1) t less.prems(2)] by blast
    with t show ?thesis by (intro exI [of _ "Suc n"] exI [of _ s']) (simp only: relpowp_Suc_I2 simp_thms)
  qed
qed

section \<open>Properties\<close>

text \<open>
  C25: shutting down ends. Take any reachable state in which the context is done, by an interrupt or by
  a failed goroutine, with an event in the worker's hands and another waiting or not. From there the
  goroutines get to the end by their own steps, without any further failure: however they are
  scheduled, they take at most nine, none is stuck before \<open>RunWorker\<close> returns, and when it returns the
  server is shut down, the client is closed and neither listener nor worker is left.
\<close>

theorem shutdown_terminates:
  assumes "errgroup_ok GR" "life_reach GR s" "ctx_done GR s" "(goroutine_step GR ^^ n) s s'"
  shows "n \<le> 9 \<and> (\<exists>m s''. (goroutine_step GR ^^ m) s' s'' \<and> run_worker_result GR s'' \<noteq> None) \<and>
    (run_worker_result GR s' = None \<longrightarrow> (\<exists>s''. goroutine_step GR s' s'')) \<and>
    (run_worker_result GR s' \<noteq> None \<longrightarrow> lf_server_down s' \<and> lf_client_closed s' \<and>
      \<not> lf_watching s' \<and> \<not> lf_sending s' \<and> \<not> lf_handling s')"
proof -
  from goroutine_run [OF assms(1,4) life_reach_inv [OF assms(2,1)] assms(3)]
  have run: "life_inv GR s'" "ctx_done GR s'" "n + life_measure s' \<le> life_measure s" by simp_all
  have "n \<le> 9" using run(3) life_measure_bound [of s] by simp
  moreover have "run_worker_result GR s' = None \<longrightarrow> (\<exists>s''. goroutine_step GR s' s'')"
    using goroutine_progress [OF run(1,2)] by (simp add: run_worker_result_def)
  moreover have "run_worker_result GR s' \<noteq> None \<longrightarrow> lf_server_down s' \<and> lf_client_closed s' \<and>
      \<not> lf_watching s' \<and> \<not> lf_sending s' \<and> \<not> lf_handling s'"
    using run(1) by (auto simp: run_worker_result_def life_inv_def)
  ultimately show ?thesis using goroutines_end [OF assms(1) run(1,2)] by blast
qed

text \<open>
  C26: \<open>RunWorker\<close> never returns nil: whenever all goroutines have returned, the result is an error,
  after an orderly interrupt too, since \<open>ListenAndServe\<close> then returns \<open>ErrServerClosed\<close> and the
  goroutine passes it on. So \<open>main\<close> always ends with status 1.
\<close>

theorem run_worker_never_nil:
  assumes "errgroup_ok GR" "life_reach GR s" "run_worker_result GR s = Some r"
  shows "r \<noteq> None \<and> exit_status r = 1"
  using life_reach_inv [OF assms(2,1)] assms(3)
  by (auto simp: run_worker_result_def life_inv_def exit_status_def split: if_splits)

text \<open>The witness is an orderly end: an interrupt while an event waits for the worker, and nothing fails.\<close>

definition interrupted :: "go_error option life" where
  "interrupted = (life_init first_error_group)\<lparr>lf_sending := True, lf_interrupted := True\<rparr>"

definition orderly_end :: "go_error option life" where
  "orderly_end =
     \<lparr>lf_group = Some (Sentinel ErrServerClosed), lf_interrupted = True, lf_active = {},
      lf_server_down = True, lf_client_closed = True, lf_watching = False, lf_sending = False,
      lf_handling = False, lf_ready = True\<rparr>"

lemma interrupted_reach: "life_reach first_error_group interrupted"
proof -
  let ?s = "(life_init first_error_group)\<lparr>lf_sending := True\<rparr>"
  have "life_reach first_error_group ?s"
    by (rule life_reach.step [OF life_reach.init], rule life_step.log_arrives) (simp_all add: life_init_def)
  from life_reach.step [OF this life_step.interrupt] show ?thesis
    by (simp add: interrupted_def) (simp add: life_init_def)
qed

lemma interrupted_run: "(goroutine_step first_error_group ^^ 8) interrupted orderly_end"
proof -
  let ?GR = first_error_group
  let ?s1 = "interrupted\<lparr>lf_ready := True\<rparr>"
  let ?s2 = "?s1\<lparr>lf_sending := False, lf_handling := True\<rparr>"
  let ?s3 = "?s2\<lparr>lf_watching := False\<rparr>"
  let ?s4 = "?s3\<lparr>lf_handling := False\<rparr>"
  let ?s5 = "routine_ends ?GR Worker None ?s4"
  let ?s6 = "routine_ends ?GR Shutdown None (server_shutdown ?s5)"
  let ?s7 = "routine_ends ?GR CloseClient None (?s6\<lparr>lf_client_closed := True\<rparr>)"
  let ?s8 = "routine_ends ?GR WebServer (Some (Sentinel ErrServerClosed)) ?s7"
  note defs = interrupted_def life_init_def ctx_done_def routine_ends_def server_shutdown_def
  have 1: "goroutine_step ?GR interrupted ?s1" by (rule goroutine_step.mark_ready) (simp add: defs)
  have 2: "goroutine_step ?GR ?s1 ?s2" by (rule goroutine_step.worker_takes) (simp_all add: defs)
  have 3: "goroutine_step ?GR ?s2 ?s3" by (rule goroutine_step.watcher_returns) (simp_all add: defs)
  have 4: "goroutine_step ?GR ?s3 ?s4" by (rule goroutine_step.worker_handles) (simp_all add: defs)
  have 5: "goroutine_step ?GR ?s4 ?s5" by (rule goroutine_step.worker_returns) (simp_all add: defs)
  have 6: "goroutine_step ?GR ?s5 ?s6" by (rule goroutine_step.shutdown) (simp_all add: defs)
  have 7: "goroutine_step ?GR ?s6 ?s7" by (rule goroutine_step.close_client) (simp_all add: defs)
  have 8: "goroutine_step ?GR ?s7 ?s8" by (rule goroutine_step.web_closes) (simp_all add: defs)
  note go = relpowp_Suc_I2 [where P = "goroutine_step ?GR"]
  have run: "(goroutine_step ?GR ^^ Suc (Suc (Suc (Suc (Suc (Suc (Suc (Suc 0)))))))) interrupted ?s8"
    by (rule go [OF 1], rule go [OF 2], rule go [OF 3],
        rule go [OF 4], rule go [OF 5], rule go [OF 6],
        rule go [OF 7], rule go [OF 8], rule relpowp_0_I)
  have end_state: "?s8 = orderly_end" by (auto simp: defs orderly_end_def first_error_group_def)
  have eight: "8 = Suc (Suc (Suc (Suc (Suc (Suc (Suc (Suc 0)))))))" by simp
  show ?thesis unfolding eight using run unfolding end_state .
qed

lemma orderly_end_reach: "life_reach first_error_group orderly_end"
proof -
  have "life_reach first_error_group s'" if "(goroutine_step first_error_group ^^ n) interrupted s'" for n s'
    using that
  proof (induction n arbitrary: s')
    case (Suc n)
    then show ?case by (auto intro: life_reach.step life_step.goroutine)
  qed (simp add: interrupted_reach)
  from this [OF interrupted_run] show ?thesis .
qed

lemma run_worker_never_nil_witness:
  "\<exists>r. run_worker_result first_error_group orderly_end = Some r \<and> exit_status r = 1"
proof -
  obtain r where r: "run_worker_result first_error_group orderly_end = Some r"
    by (simp add: run_worker_result_def orderly_end_def)
  with run_worker_never_nil [OF first_error_group_ok orderly_end_reach r] show ?thesis by blast
qed

lemma shutdown_terminates_witness:
  "(goroutine_step first_error_group ^^ 8) interrupted orderly_end \<and>
    run_worker_result first_error_group orderly_end = Some (Some (Sentinel ErrServerClosed)) \<and>
    lf_server_down orderly_end \<and> lf_client_closed orderly_end \<and>
    (\<exists>m s. (goroutine_step first_error_group ^^ m) interrupted s \<and> run_worker_result first_error_group s \<noteq> None)"
proof (intro conjI)
  have ctx: "ctx_done first_error_group interrupted" by (simp add: ctx_done_def interrupted_def)
  note shut = shutdown_terminates [OF first_error_group_ok interrupted_reach ctx]
  show "(goroutine_step first_error_group ^^ 8) interrupted orderly_end" by (rule interrupted_run)
  show res: "run_worker_result first_error_group orderly_end = Some (Some (Sentinel ErrServerClosed))"
    by (simp add: run_worker_result_def orderly_end_def first_error_group_def)
  show "lf_server_down orderly_end" "lf_client_closed orderly_end"
    using shut [OF interrupted_run] res by simp_all
  show "\<exists>m s. (goroutine_step first_error_group ^^ m) interrupted s \<and> run_worker_result first_error_group s \<noteq> None"
    using shut [of 0 interrupted] by auto
qed

end
