(* ===== verification/Contract_ABI.thy ===== *)
theory Contract_ABI
  imports Simple_Custody_Bindings
begin

text \<open>
  The ABIs embedded in the three bindings (\<open>IWithdrawMetaData\<close>, \<open>IDepositMetaData\<close>,
  \<open>SimpleCustodyMetaData\<close>) and the agreement of the generated code with them: every call and every
  filter packs values of the types the ABI gives, every decoded log fits its struct and every
  decoded result fits its method, so that nothing panics.
\<close>

section \<open>ABIs\<close>

datatype abi_type = TBytes32 | TAddress | TUint | TBool | TBytes4

fun type_of :: "abi_arg \<Rightarrow> abi_type" where
  "type_of (ABytes32 x) = TBytes32"
| "type_of (AAddress x) = TAddress"
| "type_of (AUint x) = TUint"
| "type_of (ABool x) = TBool"
| "type_of (ABytes4 x) = TBytes4"

text \<open>
  Inputs and outputs of the methods; inputs of the events, with whether they are indexed; the custom
  errors; inputs of the constructor.
\<close>

record abi_spec =
  abi_constructor :: "abi_type list"
  abi_methods :: "(string \<times> abi_type list \<times> abi_type list) list"
  abi_events :: "(string \<times> (abi_type \<times> bool) list) list"
  abi_errors :: "(string \<times> abi_type list) list"

definition IWithdrawABI :: abi_spec where
  "IWithdrawABI =
     \<lparr>abi_constructor = [],
      abi_methods =
        [(''finalizeWithdraw'', [TBytes32], []),
         (''rejectWithdraw'', [TBytes32], []),
         (''startWithdraw'', [TAddress, TAddress, TUint, TUint], [TBytes32])],
      abi_events =
        [(''WithdrawFinalized'', [(TBytes32, True), (TBool, False)]),
         (''WithdrawStarted'', [(TBytes32, True), (TAddress, True), (TAddress, True), (TUint, False), (TUint, False)])],
      abi_errors =
        [(''ETHTransferFailed'', []),
         (''InsufficientLiquidity'', []),
         (''WithdrawalAlreadyExists'', []),
         (''WithdrawalAlreadyFinalized'', []),
         (''WithdrawalNotFound'', []),
         (''ZeroAmount'', [])]\<rparr>"

definition IDepositABI :: abi_spec where
  "IDepositABI =
     \<lparr>abi_constructor = [],
      abi_methods =
        [(''deposit'', [TAddress, TUint], [])],
      abi_events =
        [(''Deposited'', [(TAddress, True), (TAddress, True), (TUint, False)])],
      abi_errors =
        [(''MsgValueMismatch'', []),
         (''NonZeroMsgValueForERC20'', [])]\<rparr>"

definition SimpleCustodyABI :: abi_spec where
  "SimpleCustodyABI =
     \<lparr>abi_constructor = [TAddress, TAddress, TAddress],
      abi_methods =
        [(''DEFAULT_ADMIN_ROLE'', [], [TBytes32]),
         (''NEODAX_ROLE'', [], [TBytes32]),
         (''NITEWATCH_ROLE'', [], [TBytes32]),
         (''deposit'', [TAddress, TUint], []),
         (''finalizeWithdraw'', [TBytes32], []),
         (''getRoleAdmin'', [TBytes32], [TBytes32]),
         (''grantRole'', [TBytes32, TAddress], []),
         (''hasRole'', [TBytes32, TAddress], [TBool]),
         (''rejectWithdraw'', [TBytes32], []),
         (''renounceRole'', [TBytes32, TAddress], []),
         (''revokeRole'', [TBytes32, TAddress], []),
         (''startWithdraw'', [TAddress, TAddress, TUint, TUint], [TBytes32]),
         (''supportsInterface'', [TBytes4], [TBool]),
         (''withdrawals'', [TBytes32], [TAddress, TAddress, TUint, TBool, TBool])],
      abi_events =
        [(''Deposited'', [(TAddress, True), (TAddress, True), (TUint, False)]),
         (''RoleAdminChanged'', [(TBytes32, True), (TBytes32, True), (TBytes32, True)]),
         (''RoleGranted'', [(TBytes32, True), (TAddress, True), (TAddress, True)]),
         (''RoleRevoked'', [(TBytes32, True), (TAddress, True), (TAddress, True)]),
         (''WithdrawFinalized'', [(TBytes32, True), (TBool, False)]),
         (''WithdrawStarted'', [(TBytes32, True), (TAddress, True), (TAddress, True), (TUint, False), (TUint, False)])],
      abi_errors =
        [(''AccessControlBadConfirmation'', []),
         (''AccessControlUnauthorizedAccount'', [TAddress, TBytes32]),
         (''ETHTransferFailed'', []),
         (''InsufficientLiquidity'', []),
         (''MsgValueMismatch'', []),
         (''NonZeroMsgValueForERC20'', []),
         (''ReentrancyGuardReentrantCall'', []),
         (''SafeERC20FailedOperation'', [TAddress]),
         (''WithdrawalAlreadyExists'', []),
         (''WithdrawalAlreadyFinalized'', []),
         (''WithdrawalNotFound'', []),
         (''ZeroAmount'', [])]\<rparr>"

section \<open>What go-ethereum checks against the ABI\<close>

definition method_inputs :: "abi_spec \<Rightarrow> string \<Rightarrow> abi_type list option" where
  "method_inputs A m = map_option fst (map_of (abi_methods A) m)"

definition method_outputs :: "abi_spec \<Rightarrow> string \<Rightarrow> abi_type list option" where
  "method_outputs A m = map_option snd (map_of (abi_methods A) m)"

definition event_inputs :: "abi_spec \<Rightarrow> string \<Rightarrow> abi_type list option" where
  "event_inputs A n = map_option (map fst) (map_of (abi_events A) n)"

definition indexed_inputs :: "abi_spec \<Rightarrow> string \<Rightarrow> abi_type list option" where
  "indexed_inputs A n = map_option (map fst \<circ> filter snd) (map_of (abi_events A) n)"

text \<open>
  Packing fails unless the method exists and the arguments have its input types; a filter fails
  unless there is a rule per indexed input, whose values have its type.
\<close>

definition packs :: "abi_spec \<Rightarrow> string \<Rightarrow> abi_arg list \<Rightarrow> bool" where
  "packs A m args \<longleftrightarrow> method_inputs A m = Some (map type_of args)"

definition filters :: "abi_spec \<Rightarrow> string \<Rightarrow> abi_arg list list \<Rightarrow> bool" where
  "filters A n rules \<longleftrightarrow>
     (case indexed_inputs A n of
        None \<Rightarrow> False
      | Some ts \<Rightarrow> list_all2 (\<lambda>rule t. \<forall>x \<in> set rule. type_of x = t) rules ts)"

definition mismatch :: go_error where
  "mismatch = Opaque ''abi: cannot use value as type''"

definition strict :: "abi_spec \<Rightarrow> bound_contract \<Rightarrow> bound_contract" where
  "strict A C = C
     \<lparr>Call := (\<lambda>opts m args. if packs A m args then Call C opts m args else Inl mismatch),
      Transact := (\<lambda>opts m args. if packs A m args then Transact C opts m args else Inl mismatch),
      FilterLogs := (\<lambda>opts n rules. if filters A n rules then FilterLogs C opts n rules else Inl mismatch),
      WatchLogs := (\<lambda>n rules. if filters A n rules then WatchLogs C n rules else Some mismatch)\<rparr>"

text \<open>What a contract wrapper decodes has the types of the ABI.\<close>

definition decodes :: "abi_spec \<Rightarrow> bound_contract \<Rightarrow> bool" where
  "decodes A C \<longleftrightarrow>
     (\<forall>opts m args out. Call C opts m args = Inr out \<longrightarrow> method_outputs A m = Some (map type_of out)) \<and>
     (\<forall>n l args. UnpackLog C n l = Inr args \<longrightarrow> event_inputs A n = Some (map type_of args))"

lemma type_of_eq:
  "type_of x = TBytes32 \<longleftrightarrow> (\<exists>v. x = ABytes32 v)" "type_of x = TAddress \<longleftrightarrow> (\<exists>v. x = AAddress v)"
  "type_of x = TUint \<longleftrightarrow> (\<exists>v. x = AUint v)" "type_of x = TBool \<longleftrightarrow> (\<exists>v. x = ABool v)"
  "type_of x = TBytes4 \<longleftrightarrow> (\<exists>v. x = ABytes4 v)"
  by (cases x; simp)+

lemmas abi_defs = IWithdrawABI_def IDepositABI_def SimpleCustodyABI_def
lemmas abi_lookup = method_inputs_def method_outputs_def event_inputs_def indexed_inputs_def

lemma call_fits:
  assumes "decodes A C" "method_outputs A m = Some ts" "\<And>out. map type_of out = ts \<Longrightarrow> conv out \<noteq> None"
  shows "call_with conv C opts m args \<noteq> Panics"
proof (cases "Call C opts m args")
  case (Inr out)
  with assms(1,2) have "map type_of out = ts" unfolding decodes_def by fastforce
  with assms(3) Inr show ?thesis by (auto simp: call_with_def split: option.split)
qed (simp add: call_with_def)

lemma unpack_fits:
  assumes "decodes A C" "event_inputs A n = Some ts" "\<And>args. map type_of args = ts \<Longrightarrow> \<not> isl (mk args l)"
  shows "isl (unpack_event mk C n l) \<longleftrightarrow> isl (UnpackLog C n l)"
proof (cases "UnpackLog C n l")
  case (Inr args)
  with assms(1,2) have "map type_of args = ts" unfolding decodes_def by fastforce
  with assms(3) Inr show ?thesis by (auto simp: unpack_event_def)
qed (simp add: unpack_event_def)

lemma strict_call: "packs A m args \<Longrightarrow> Call (strict A C) opts m args = Call C opts m args"
  and strict_transact: "packs A m args \<Longrightarrow> Transact (strict A C) topts m args = Transact C topts m args"
  and strict_filter: "filters A n rules \<Longrightarrow> FilterLogs (strict A C) fopts n rules = FilterLogs C fopts n rules"
  and strict_watch: "filters A n rules \<Longrightarrow> WatchLogs (strict A C) n rules = WatchLogs C n rules"
  and strict_unpack: "UnpackLog (strict A C) = UnpackLog C"
  by (simp_all add: strict_def)

lemma watch_loop_strict: "watch_loop mk (strict A C) n steps = watch_loop mk C n steps"
proof (induction mk C n steps rule: watch_loop.induct)
  case (2 mk C n log send steps)
  then show ?case
    by (simp add: unpack_event_def strict_unpack split: sum.split watch_send.split)
qed simp_all

lemma new_iterator_strict: "isl (case r of Inl e \<Rightarrow> Inl e | Inr ch \<Rightarrow> Inr (new_iterator C n ch)) \<longleftrightarrow> isl r"
  by (cases r) auto

section \<open>The generated code agrees with its ABI\<close>

lemma sc_transactors_pack:
  "sc_Deposit (strict SimpleCustodyABI C) topts token amount = sc_Deposit C topts token amount \<and>
     sc_FinalizeWithdraw (strict SimpleCustodyABI C) topts i = sc_FinalizeWithdraw C topts i \<and>
     sc_GrantRole (strict SimpleCustodyABI C) topts role account = sc_GrantRole C topts role account \<and>
     sc_RejectWithdraw (strict SimpleCustodyABI C) topts i = sc_RejectWithdraw C topts i \<and>
     sc_RenounceRole (strict SimpleCustodyABI C) topts role account = sc_RenounceRole C topts role account \<and>
     sc_RevokeRole (strict SimpleCustodyABI C) topts role account = sc_RevokeRole C topts role account \<and>
     sc_StartWithdraw (strict SimpleCustodyABI C) topts user token amount nonce = sc_StartWithdraw C topts user token amount nonce"
  by (simp_all add: sc_Deposit_def sc_FinalizeWithdraw_def sc_GrantRole_def sc_RejectWithdraw_def sc_RenounceRole_def sc_RevokeRole_def sc_StartWithdraw_def
      strict_transact packs_def abi_lookup abi_defs)

lemma sc_views_pack:
  "sc_DEFAULTADMINROLE (strict SimpleCustodyABI C) opts = sc_DEFAULTADMINROLE C opts \<and>
     sc_NEODAXROLE (strict SimpleCustodyABI C) opts = sc_NEODAXROLE C opts \<and>
     sc_NITEWATCHROLE (strict SimpleCustodyABI C) opts = sc_NITEWATCHROLE C opts \<and>
     sc_GetRoleAdmin (strict SimpleCustodyABI C) opts role = sc_GetRoleAdmin C opts role \<and>
     sc_HasRole (strict SimpleCustodyABI C) opts role account = sc_HasRole C opts role account \<and>
     sc_SupportsInterface (strict SimpleCustodyABI C) opts iface = sc_SupportsInterface C opts iface \<and>
     sc_Withdrawals (strict SimpleCustodyABI C) opts i = sc_Withdrawals C opts i"
  by (simp_all add: sc_DEFAULTADMINROLE_def sc_NEODAXROLE_def sc_NITEWATCHROLE_def sc_GetRoleAdmin_def sc_HasRole_def sc_SupportsInterface_def sc_Withdrawals_def
      call_with_def strict_call packs_def abi_lookup abi_defs)

lemma sc_views_fit:
  assumes "decodes SimpleCustodyABI C"
  shows "sc_DEFAULTADMINROLE C opts \<noteq> Panics \<and>
     sc_NEODAXROLE C opts \<noteq> Panics \<and>
     sc_NITEWATCHROLE C opts \<noteq> Panics \<and>
     sc_GetRoleAdmin C opts role \<noteq> Panics \<and>
     sc_HasRole C opts role account \<noteq> Panics \<and>
     sc_SupportsInterface C opts iface \<noteq> Panics \<and>
     sc_Withdrawals C opts i \<noteq> Panics"
  unfolding sc_DEFAULTADMINROLE_def sc_NEODAXROLE_def sc_NITEWATCHROLE_def sc_GetRoleAdmin_def sc_HasRole_def sc_SupportsInterface_def sc_Withdrawals_def
  by (intro conjI call_fits [OF assms])
    (auto simp: abi_lookup abi_defs map_eq_Cons_conv type_of_eq as_bytes32_def as_bool_def
      as_withdrawal_def)

lemma sc_parsers_fit:
  assumes "decodes SimpleCustodyABI C"
  shows "(isl (sc_ParseDeposited C l) \<longleftrightarrow> isl (UnpackLog C ''Deposited'' l)) \<and>
     (isl (sc_ParseRoleAdminChanged C l) \<longleftrightarrow> isl (UnpackLog C ''RoleAdminChanged'' l)) \<and>
     (isl (sc_ParseRoleGranted C l) \<longleftrightarrow> isl (UnpackLog C ''RoleGranted'' l)) \<and>
     (isl (sc_ParseRoleRevoked C l) \<longleftrightarrow> isl (UnpackLog C ''RoleRevoked'' l)) \<and>
     (isl (sc_ParseWithdrawFinalized C l) \<longleftrightarrow> isl (UnpackLog C ''WithdrawFinalized'' l)) \<and>
     (isl (sc_ParseWithdrawStarted C l) \<longleftrightarrow> isl (UnpackLog C ''WithdrawStarted'' l))"
  unfolding sc_ParseDeposited_def sc_ParseRoleAdminChanged_def sc_ParseRoleGranted_def sc_ParseRoleRevoked_def sc_ParseWithdrawFinalized_def sc_ParseWithdrawStarted_def
  by (intro conjI unpack_fits [OF assms])
    (auto simp: abi_lookup abi_defs map_eq_Cons_conv type_of_eq mk_deposited_def
      mk_role_admin_changed_def mk_role_granted_def mk_role_revoked_def mk_withdraw_finalized_def
      mk_withdraw_started_def)

lemma sc_rules_indexed:
  "filters SimpleCustodyABI ''Deposited'' [map AAddress a0, map AAddress a1]"
  "filters SimpleCustodyABI ''RoleAdminChanged'' [map ABytes32 b0, map ABytes32 b1, map ABytes32 b2]"
  "filters SimpleCustodyABI ''RoleGranted'' [map ABytes32 b0, map AAddress a1, map AAddress a2]"
  "filters SimpleCustodyABI ''RoleRevoked'' [map ABytes32 b0, map AAddress a1, map AAddress a2]"
  "filters SimpleCustodyABI ''WithdrawFinalized'' [map ABytes32 b0]"
  "filters SimpleCustodyABI ''WithdrawStarted'' [map ABytes32 b0, map AAddress a1, map AAddress a2]"
  by (simp_all add: filters_def abi_lookup abi_defs)

lemma sc_filters_match:
  "sc_WatchDeposited (strict SimpleCustodyABI C) users tokens steps = sc_WatchDeposited C users tokens steps \<and>
     (isl (sc_FilterDeposited (strict SimpleCustodyABI C) fopts users tokens) \<longleftrightarrow> isl (sc_FilterDeposited C fopts users tokens)) \<and>
     sc_WatchRoleAdminChanged (strict SimpleCustodyABI C) roles olds news steps = sc_WatchRoleAdminChanged C roles olds news steps \<and>
     (isl (sc_FilterRoleAdminChanged (strict SimpleCustodyABI C) fopts roles olds news) \<longleftrightarrow> isl (sc_FilterRoleAdminChanged C fopts roles olds news)) \<and>
     sc_WatchRoleGranted (strict SimpleCustodyABI C) roles accounts senders steps = sc_WatchRoleGranted C roles accounts senders steps \<and>
     (isl (sc_FilterRoleGranted (strict SimpleCustodyABI C) fopts roles accounts senders) \<longleftrightarrow> isl (sc_FilterRoleGranted C fopts roles accounts senders)) \<and>
     sc_WatchRoleRevoked (strict SimpleCustodyABI C) roles accounts senders steps = sc_WatchRoleRevoked C roles accounts senders steps \<and>
     (isl (sc_FilterRoleRevoked (strict SimpleCustodyABI C) fopts roles accounts senders) \<longleftrightarrow> isl (sc_FilterRoleRevoked C fopts roles accounts senders)) \<and>
     sc_WatchWithdrawFinalized (strict SimpleCustodyABI C) ids steps = sc_WatchWithdrawFinalized C ids steps \<and>
     (isl (sc_FilterWithdrawFinalized (strict SimpleCustodyABI C) fopts ids) \<longleftrightarrow> isl (sc_FilterWithdrawFinalized C fopts ids)) \<and>
     sc_WatchWithdrawStarted (strict SimpleCustodyABI C) ids users tokens steps = sc_WatchWithdrawStarted C ids users tokens steps \<and>
     (isl (sc_FilterWithdrawStarted (strict SimpleCustodyABI C) fopts ids users tokens) \<longleftrightarrow> isl (sc_FilterWithdrawStarted C fopts ids users tokens))"
  by (simp_all add: sc_WatchDeposited_def sc_FilterDeposited_def sc_WatchRoleAdminChanged_def sc_FilterRoleAdminChanged_def sc_WatchRoleGranted_def sc_FilterRoleGranted_def sc_WatchRoleRevoked_def sc_FilterRoleRevoked_def sc_WatchWithdrawFinalized_def sc_FilterWithdrawFinalized_def sc_WatchWithdrawStarted_def sc_FilterWithdrawStarted_def
      Let_def new_iterator_strict watch_loop_strict strict_watch strict_filter sc_rules_indexed
      split: option.split)

lemma iw_transactors_pack:
  "FinalizeWithdraw (strict IWithdrawABI C) topts i = FinalizeWithdraw C topts i \<and>
     RejectWithdraw (strict IWithdrawABI C) topts i = RejectWithdraw C topts i \<and>
     StartWithdraw (strict IWithdrawABI C) topts user token amount nonce =
       StartWithdraw C topts user token amount nonce \<and>
     Deposit (strict IDepositABI C) topts token amount = Deposit C topts token amount"
  by (simp_all add: FinalizeWithdraw_def RejectWithdraw_def StartWithdraw_def Deposit_def
      strict_transact packs_def abi_lookup abi_defs)

lemma iw_parsers_fit:
  assumes "decodes IWithdrawABI C"
  shows "(isl (ParseWithdrawStarted C l) \<longleftrightarrow> isl (UnpackLog C ''WithdrawStarted'' l)) \<and>
    (isl (ParseWithdrawFinalized C l) \<longleftrightarrow> isl (UnpackLog C ''WithdrawFinalized'' l))"
  unfolding ParseWithdrawStarted_def ParseWithdrawFinalized_def
  by (intro conjI unpack_fits [OF assms])
    (auto simp: abi_lookup abi_defs map_eq_Cons_conv type_of_eq mk_withdraw_finalized_def
      mk_withdraw_started_def)

lemma id_parser_fits:
  assumes "decodes IDepositABI C"
  shows "isl (ParseDeposited C l) \<longleftrightarrow> isl (UnpackLog C ''Deposited'' l)"
  unfolding ParseDeposited_def
  by (intro unpack_fits [OF assms])
    (auto simp: abi_lookup abi_defs map_eq_Cons_conv type_of_eq mk_deposited_def)

section \<open>Property\<close>

text \<open>
  C19: the generated code agrees with the ABI it embeds. Every transaction and every view of
  \<open>SimpleCustody\<close> packs arguments that go-ethereum's type check accepts, no view panics on results of
  the ABI's types, and a log fails to parse only when it does not decode: the structs and the ABI
  never disagree. The same for the two bindings the service uses.
\<close>

theorem bindings_agree_with_abi:
  assumes "decodes SimpleCustodyABI C" "decodes IWithdrawABI W" "decodes IDepositABI D"
  shows "
     sc_Deposit (strict SimpleCustodyABI C) topts token amount = sc_Deposit C topts token amount \<and>
     sc_FinalizeWithdraw (strict SimpleCustodyABI C) topts i = sc_FinalizeWithdraw C topts i \<and>
     sc_GrantRole (strict SimpleCustodyABI C) topts role account = sc_GrantRole C topts role account \<and>
     sc_RejectWithdraw (strict SimpleCustodyABI C) topts i = sc_RejectWithdraw C topts i \<and>
     sc_RenounceRole (strict SimpleCustodyABI C) topts role account = sc_RenounceRole C topts role account \<and>
     sc_RevokeRole (strict SimpleCustodyABI C) topts role account = sc_RevokeRole C topts role account \<and>
     sc_StartWithdraw (strict SimpleCustodyABI C) topts user token amount nonce = sc_StartWithdraw C topts user token amount nonce \<and>
     sc_DEFAULTADMINROLE (strict SimpleCustodyABI C) opts = sc_DEFAULTADMINROLE C opts \<and> sc_DEFAULTADMINROLE C opts \<noteq> Panics \<and>
     sc_NEODAXROLE (strict SimpleCustodyABI C) opts = sc_NEODAXROLE C opts \<and> sc_NEODAXROLE C opts \<noteq> Panics \<and>
     sc_NITEWATCHROLE (strict SimpleCustodyABI C) opts = sc_NITEWATCHROLE C opts \<and> sc_NITEWATCHROLE C opts \<noteq> Panics \<and>
     sc_GetRoleAdmin (strict SimpleCustodyABI C) opts role = sc_GetRoleAdmin C opts role \<and> sc_GetRoleAdmin C opts role \<noteq> Panics \<and>
     sc_HasRole (strict SimpleCustodyABI C) opts role account = sc_HasRole C opts role account \<and> sc_HasRole C opts role account \<noteq> Panics \<and>
     sc_SupportsInterface (strict SimpleCustodyABI C) opts iface = sc_SupportsInterface C opts iface \<and> sc_SupportsInterface C opts iface \<noteq> Panics \<and>
     sc_Withdrawals (strict SimpleCustodyABI C) opts i = sc_Withdrawals C opts i \<and> sc_Withdrawals C opts i \<noteq> Panics \<and>
     (isl (sc_ParseDeposited C l) \<longleftrightarrow> isl (UnpackLog C ''Deposited'' l)) \<and>
     (isl (sc_ParseRoleAdminChanged C l) \<longleftrightarrow> isl (UnpackLog C ''RoleAdminChanged'' l)) \<and>
     (isl (sc_ParseRoleGranted C l) \<longleftrightarrow> isl (UnpackLog C ''RoleGranted'' l)) \<and>
     (isl (sc_ParseRoleRevoked C l) \<longleftrightarrow> isl (UnpackLog C ''RoleRevoked'' l)) \<and>
     (isl (sc_ParseWithdrawFinalized C l) \<longleftrightarrow> isl (UnpackLog C ''WithdrawFinalized'' l)) \<and>
     (isl (sc_ParseWithdrawStarted C l) \<longleftrightarrow> isl (UnpackLog C ''WithdrawStarted'' l)) \<and>
     FinalizeWithdraw (strict IWithdrawABI W) topts i = FinalizeWithdraw W topts i \<and>
     RejectWithdraw (strict IWithdrawABI W) topts i = RejectWithdraw W topts i \<and>
     StartWithdraw (strict IWithdrawABI W) topts user token amount nonce =
       StartWithdraw W topts user token amount nonce \<and>
     Deposit (strict IDepositABI D) topts token amount = Deposit D topts token amount \<and>
     (isl (ParseWithdrawStarted W l) \<longleftrightarrow> isl (UnpackLog W ''WithdrawStarted'' l)) \<and>
     (isl (ParseWithdrawFinalized W l) \<longleftrightarrow> isl (UnpackLog W ''WithdrawFinalized'' l)) \<and>
     (isl (ParseDeposited D l) \<longleftrightarrow> isl (UnpackLog D ''Deposited'' l))"
  by (intro conjI; simp only: sc_transactors_pack sc_views_pack iw_transactors_pack sc_views_fit [OF assms(1)] sc_parsers_fit [OF assms(1)]
      iw_parsers_fit [OF assms(2)] id_parser_fits [OF assms(3)] not_False_eq_True)

text \<open>A contract wrapper for the witness: its answers have the types of the ABI.\<close>

fun some_arg :: "abi_type \<Rightarrow> abi_arg" where
  "some_arg TBytes32 = ABytes32 1"
| "some_arg TAddress = AAddress 1"
| "some_arg TUint = AUint 1"
| "some_arg TBool = ABool True"
| "some_arg TBytes4 = ABytes4 1"

definition typed_contract :: "abi_spec \<Rightarrow> bound_contract" where
  "typed_contract A =
     \<lparr>Call = (\<lambda>opts m args. case method_outputs A m of
        None \<Rightarrow> Inl mismatch | Some ts \<Rightarrow> Inr (map some_arg ts)),
      Transact = (\<lambda>opts m args. if packs A m args then Inr \<lparr>tx_Hash = 5\<rparr> else Inl mismatch),
      PlainTransfer = (\<lambda>opts. Inr \<lparr>tx_Hash = 5\<rparr>), FilterLogs = (\<lambda>opts n rules. Inr ([], None)),
      WatchLogs = (\<lambda>n rules. None),
      UnpackLog = (\<lambda>n l. case event_inputs A n of
        None \<Rightarrow> Inl mismatch | Some ts \<Rightarrow> Inr (map some_arg ts))\<rparr>"

lemma type_of_some_arg: "type_of (some_arg t) = t"
  by (cases t) simp_all

lemma typed_contract_decodes: "decodes A (typed_contract A)"
  by (auto simp: decodes_def typed_contract_def comp_def type_of_some_arg split: option.splits)

lemma bindings_agree_with_abi_witness:
  "\<not> isl (sc_Deposit (typed_contract SimpleCustodyABI) \<lparr>to_From = 1, to_Value = 7\<rparr> 0 7) \<and>
   sc_Withdrawals (typed_contract SimpleCustodyABI) \<lparr>co_Pending = False, co_From = 1\<rparr> 4 \<noteq> Panics \<and>
   \<not> isl (ParseWithdrawStarted (typed_contract IWithdrawABI) (log_of 3))"
proof -
  note all = bindings_agree_with_abi [OF typed_contract_decodes typed_contract_decodes
      typed_contract_decodes]
  have "isl (ParseWithdrawStarted (typed_contract IWithdrawABI) (log_of 3)) \<longleftrightarrow>
      isl (UnpackLog (typed_contract IWithdrawABI) ''WithdrawStarted'' (log_of 3))"
    "sc_Withdrawals (typed_contract SimpleCustodyABI) \<lparr>co_Pending = False, co_From = 1\<rparr> 4 \<noteq> Panics"
    "sc_Deposit (strict SimpleCustodyABI (typed_contract SimpleCustodyABI)) \<lparr>to_From = 1, to_Value = 7\<rparr> 0 7 =
      sc_Deposit (typed_contract SimpleCustodyABI) \<lparr>to_From = 1, to_Value = 7\<rparr> 0 7"
    using all by blast+
  then show ?thesis
    by (simp add: typed_contract_def abi_lookup IWithdrawABI_def sc_Deposit_def packs_def
        SimpleCustodyABI_def)
qed

end
