(* ===== verification/Binding_Sessions.thy ===== *)
theory Binding_Sessions
  imports Contract_ABI
begin

text \<open>
  The rest of the generated bindings: the structs of a binding, constructors for one client only,
  sessions with preset options, raw access, the iterators' \<open>Error\<close> and \<open>Close\<close>, and the deployment of
  \<open>SimpleCustody\<close>. The sessions of the three bindings have the same fields.
\<close>

section \<open>Structs\<close>

record binding_session =
  se_Contract :: bound_contract
  se_CallOpts :: call_opts
  se_TransactOpts :: transact_opts

record caller_session =
  cs_Contract :: bound_contract
  cs_CallOpts :: call_opts

record transactor_session =
  ts_Contract :: bound_contract
  ts_TransactOpts :: transact_opts

type_synonym i_withdraw = bound_contract
type_synonym i_withdraw_caller = bound_contract
type_synonym i_withdraw_transactor = bound_contract
type_synonym i_withdraw_filterer = bound_contract
type_synonym i_withdraw_session = binding_session
type_synonym i_withdraw_caller_session = caller_session
type_synonym i_withdraw_transactor_session = transactor_session
type_synonym i_withdraw_raw = bound_contract
type_synonym i_withdraw_caller_raw = bound_contract
type_synonym i_withdraw_transactor_raw = bound_contract

type_synonym i_deposit = bound_contract
type_synonym i_deposit_caller = bound_contract
type_synonym i_deposit_transactor = bound_contract
type_synonym i_deposit_filterer = bound_contract
type_synonym i_deposit_session = binding_session
type_synonym i_deposit_caller_session = caller_session
type_synonym i_deposit_transactor_session = transactor_session
type_synonym i_deposit_raw = bound_contract
type_synonym i_deposit_caller_raw = bound_contract
type_synonym i_deposit_transactor_raw = bound_contract

type_synonym simple_custody = bound_contract
type_synonym simple_custody_caller = bound_contract
type_synonym simple_custody_transactor = bound_contract
type_synonym simple_custody_filterer = bound_contract
type_synonym simple_custody_session = binding_session
type_synonym simple_custody_caller_session = caller_session
type_synonym simple_custody_transactor_session = transactor_session
type_synonym simple_custody_raw = bound_contract
type_synonym simple_custody_caller_raw = bound_contract
type_synonym simple_custody_transactor_raw = bound_contract

text \<open>The iterators.\<close>

type_synonym iw_WithdrawFinalizedIterator = "i_withdraw_finalized log_iterator"
type_synonym iw_WithdrawStartedIterator = "i_withdraw_started log_iterator"
type_synonym id_DepositedIterator = "i_deposited log_iterator"
type_synonym sc_DepositedIterator = "sc_deposited log_iterator"
type_synonym sc_RoleAdminChangedIterator = "sc_role_admin_changed log_iterator"
type_synonym sc_RoleGrantedIterator = "sc_role_granted log_iterator"
type_synonym sc_RoleRevokedIterator = "sc_role_revoked log_iterator"
type_synonym sc_WithdrawFinalizedIterator = "sc_withdraw_finalized log_iterator"
type_synonym sc_WithdrawStartedIterator = "sc_withdraw_started log_iterator"

definition iw_ErrorWithdrawFinalized :: "iw_WithdrawFinalizedIterator \<Rightarrow> go_error option" where
  "iw_ErrorWithdrawFinalized = iter_error"

definition iw_CloseWithdrawFinalized :: "iw_WithdrawFinalizedIterator \<Rightarrow> go_error option \<times> iw_WithdrawFinalizedIterator" where
  "iw_CloseWithdrawFinalized = iter_close"

definition iw_ErrorWithdrawStarted :: "iw_WithdrawStartedIterator \<Rightarrow> go_error option" where
  "iw_ErrorWithdrawStarted = iter_error"

definition iw_CloseWithdrawStarted :: "iw_WithdrawStartedIterator \<Rightarrow> go_error option \<times> iw_WithdrawStartedIterator" where
  "iw_CloseWithdrawStarted = iter_close"

definition id_ErrorDeposited :: "id_DepositedIterator \<Rightarrow> go_error option" where
  "id_ErrorDeposited = iter_error"

definition id_CloseDeposited :: "id_DepositedIterator \<Rightarrow> go_error option \<times> id_DepositedIterator" where
  "id_CloseDeposited = iter_close"

definition sc_ErrorDeposited :: "sc_DepositedIterator \<Rightarrow> go_error option" where
  "sc_ErrorDeposited = iter_error"

definition sc_CloseDeposited :: "sc_DepositedIterator \<Rightarrow> go_error option \<times> sc_DepositedIterator" where
  "sc_CloseDeposited = iter_close"

definition sc_ErrorRoleAdminChanged :: "sc_RoleAdminChangedIterator \<Rightarrow> go_error option" where
  "sc_ErrorRoleAdminChanged = iter_error"

definition sc_CloseRoleAdminChanged :: "sc_RoleAdminChangedIterator \<Rightarrow> go_error option \<times> sc_RoleAdminChangedIterator" where
  "sc_CloseRoleAdminChanged = iter_close"

definition sc_ErrorRoleGranted :: "sc_RoleGrantedIterator \<Rightarrow> go_error option" where
  "sc_ErrorRoleGranted = iter_error"

definition sc_CloseRoleGranted :: "sc_RoleGrantedIterator \<Rightarrow> go_error option \<times> sc_RoleGrantedIterator" where
  "sc_CloseRoleGranted = iter_close"

definition sc_ErrorRoleRevoked :: "sc_RoleRevokedIterator \<Rightarrow> go_error option" where
  "sc_ErrorRoleRevoked = iter_error"

definition sc_CloseRoleRevoked :: "sc_RoleRevokedIterator \<Rightarrow> go_error option \<times> sc_RoleRevokedIterator" where
  "sc_CloseRoleRevoked = iter_close"

definition sc_ErrorWithdrawFinalized :: "sc_WithdrawFinalizedIterator \<Rightarrow> go_error option" where
  "sc_ErrorWithdrawFinalized = iter_error"

definition sc_CloseWithdrawFinalized :: "sc_WithdrawFinalizedIterator \<Rightarrow> go_error option \<times> sc_WithdrawFinalizedIterator" where
  "sc_CloseWithdrawFinalized = iter_close"

definition sc_ErrorWithdrawStarted :: "sc_WithdrawStartedIterator \<Rightarrow> go_error option" where
  "sc_ErrorWithdrawStarted = iter_error"

definition sc_CloseWithdrawStarted :: "sc_WithdrawStartedIterator \<Rightarrow> go_error option \<times> sc_WithdrawStartedIterator" where
  "sc_CloseWithdrawStarted = iter_close"

section \<open>Constructors for one client\<close>

definition NewIWithdrawCaller ::
    "go_error + abi \<Rightarrow> 'c new_bound \<Rightarrow> address \<Rightarrow> 'c \<Rightarrow> go_error + i_withdraw_caller" where
  "NewIWithdrawCaller abi new_bound addr client =
     (case bindIWithdraw abi new_bound addr (Some client) None None of
        Inl err \<Rightarrow> Inl err
      | Inr contract \<Rightarrow> Inr contract)"

definition NewIWithdrawTransactor ::
    "go_error + abi \<Rightarrow> 'c new_bound \<Rightarrow> address \<Rightarrow> 'c \<Rightarrow> go_error + i_withdraw_transactor" where
  "NewIWithdrawTransactor abi new_bound addr client =
     (case bindIWithdraw abi new_bound addr None (Some client) None of
        Inl err \<Rightarrow> Inl err
      | Inr contract \<Rightarrow> Inr contract)"

definition NewIWithdrawFilterer ::
    "go_error + abi \<Rightarrow> 'c new_bound \<Rightarrow> address \<Rightarrow> 'c \<Rightarrow> go_error + i_withdraw_filterer" where
  "NewIWithdrawFilterer abi new_bound addr client =
     (case bindIWithdraw abi new_bound addr None None (Some client) of
        Inl err \<Rightarrow> Inl err
      | Inr contract \<Rightarrow> Inr contract)"

definition NewIDepositCaller ::
    "go_error + abi \<Rightarrow> 'c new_bound \<Rightarrow> address \<Rightarrow> 'c \<Rightarrow> go_error + i_deposit_caller" where
  "NewIDepositCaller abi new_bound addr client =
     (case bindIDeposit abi new_bound addr (Some client) None None of
        Inl err \<Rightarrow> Inl err
      | Inr contract \<Rightarrow> Inr contract)"

definition NewIDepositTransactor ::
    "go_error + abi \<Rightarrow> 'c new_bound \<Rightarrow> address \<Rightarrow> 'c \<Rightarrow> go_error + i_deposit_transactor" where
  "NewIDepositTransactor abi new_bound addr client =
     (case bindIDeposit abi new_bound addr None (Some client) None of
        Inl err \<Rightarrow> Inl err
      | Inr contract \<Rightarrow> Inr contract)"

definition NewIDepositFilterer ::
    "go_error + abi \<Rightarrow> 'c new_bound \<Rightarrow> address \<Rightarrow> 'c \<Rightarrow> go_error + i_deposit_filterer" where
  "NewIDepositFilterer abi new_bound addr client =
     (case bindIDeposit abi new_bound addr None None (Some client) of
        Inl err \<Rightarrow> Inl err
      | Inr contract \<Rightarrow> Inr contract)"

definition NewSimpleCustodyCaller ::
    "go_error + abi \<Rightarrow> 'c new_bound \<Rightarrow> address \<Rightarrow> 'c \<Rightarrow> go_error + simple_custody_caller" where
  "NewSimpleCustodyCaller abi new_bound addr client =
     (case bindSimpleCustody abi new_bound addr (Some client) None None of
        Inl err \<Rightarrow> Inl err
      | Inr contract \<Rightarrow> Inr contract)"

definition NewSimpleCustodyTransactor ::
    "go_error + abi \<Rightarrow> 'c new_bound \<Rightarrow> address \<Rightarrow> 'c \<Rightarrow> go_error + simple_custody_transactor" where
  "NewSimpleCustodyTransactor abi new_bound addr client =
     (case bindSimpleCustody abi new_bound addr None (Some client) None of
        Inl err \<Rightarrow> Inl err
      | Inr contract \<Rightarrow> Inr contract)"

definition NewSimpleCustodyFilterer ::
    "go_error + abi \<Rightarrow> 'c new_bound \<Rightarrow> address \<Rightarrow> 'c \<Rightarrow> go_error + simple_custody_filterer" where
  "NewSimpleCustodyFilterer abi new_bound addr client =
     (case bindSimpleCustody abi new_bound addr None None (Some client) of
        Inl err \<Rightarrow> Inl err
      | Inr contract \<Rightarrow> Inr contract)"

section \<open>Raw access\<close>

definition iw_raw_Call ::
    "i_withdraw_raw \<Rightarrow> call_opts \<Rightarrow> string \<Rightarrow> abi_arg list \<Rightarrow> go_error + abi_arg list" where
  "iw_raw_Call C opts method params = Call C opts method params"

definition iw_callerraw_Call ::
    "i_withdraw_caller_raw \<Rightarrow> call_opts \<Rightarrow> string \<Rightarrow> abi_arg list \<Rightarrow> go_error + abi_arg list" where
  "iw_callerraw_Call C opts method params = Call C opts method params"

definition iw_raw_Transfer :: "i_withdraw_raw \<Rightarrow> transact_opts \<Rightarrow> go_error + eth_tx" where
  "iw_raw_Transfer C opts = PlainTransfer C opts"

definition iw_raw_Transact ::
    "i_withdraw_raw \<Rightarrow> transact_opts \<Rightarrow> string \<Rightarrow> abi_arg list \<Rightarrow> go_error + eth_tx" where
  "iw_raw_Transact C opts method params = Transact C opts method params"

definition iw_transactorraw_Transfer :: "i_withdraw_transactor_raw \<Rightarrow> transact_opts \<Rightarrow> go_error + eth_tx" where
  "iw_transactorraw_Transfer C opts = PlainTransfer C opts"

definition iw_transactorraw_Transact ::
    "i_withdraw_transactor_raw \<Rightarrow> transact_opts \<Rightarrow> string \<Rightarrow> abi_arg list \<Rightarrow> go_error + eth_tx" where
  "iw_transactorraw_Transact C opts method params = Transact C opts method params"

definition id_raw_Call ::
    "i_deposit_raw \<Rightarrow> call_opts \<Rightarrow> string \<Rightarrow> abi_arg list \<Rightarrow> go_error + abi_arg list" where
  "id_raw_Call C opts method params = Call C opts method params"

definition id_callerraw_Call ::
    "i_deposit_caller_raw \<Rightarrow> call_opts \<Rightarrow> string \<Rightarrow> abi_arg list \<Rightarrow> go_error + abi_arg list" where
  "id_callerraw_Call C opts method params = Call C opts method params"

definition id_raw_Transfer :: "i_deposit_raw \<Rightarrow> transact_opts \<Rightarrow> go_error + eth_tx" where
  "id_raw_Transfer C opts = PlainTransfer C opts"

definition id_raw_Transact ::
    "i_deposit_raw \<Rightarrow> transact_opts \<Rightarrow> string \<Rightarrow> abi_arg list \<Rightarrow> go_error + eth_tx" where
  "id_raw_Transact C opts method params = Transact C opts method params"

definition id_transactorraw_Transfer :: "i_deposit_transactor_raw \<Rightarrow> transact_opts \<Rightarrow> go_error + eth_tx" where
  "id_transactorraw_Transfer C opts = PlainTransfer C opts"

definition id_transactorraw_Transact ::
    "i_deposit_transactor_raw \<Rightarrow> transact_opts \<Rightarrow> string \<Rightarrow> abi_arg list \<Rightarrow> go_error + eth_tx" where
  "id_transactorraw_Transact C opts method params = Transact C opts method params"

definition sc_raw_Call ::
    "simple_custody_raw \<Rightarrow> call_opts \<Rightarrow> string \<Rightarrow> abi_arg list \<Rightarrow> go_error + abi_arg list" where
  "sc_raw_Call C opts method params = Call C opts method params"

definition sc_callerraw_Call ::
    "simple_custody_caller_raw \<Rightarrow> call_opts \<Rightarrow> string \<Rightarrow> abi_arg list \<Rightarrow> go_error + abi_arg list" where
  "sc_callerraw_Call C opts method params = Call C opts method params"

definition sc_raw_Transfer :: "simple_custody_raw \<Rightarrow> transact_opts \<Rightarrow> go_error + eth_tx" where
  "sc_raw_Transfer C opts = PlainTransfer C opts"

definition sc_raw_Transact ::
    "simple_custody_raw \<Rightarrow> transact_opts \<Rightarrow> string \<Rightarrow> abi_arg list \<Rightarrow> go_error + eth_tx" where
  "sc_raw_Transact C opts method params = Transact C opts method params"

definition sc_transactorraw_Transfer :: "simple_custody_transactor_raw \<Rightarrow> transact_opts \<Rightarrow> go_error + eth_tx" where
  "sc_transactorraw_Transfer C opts = PlainTransfer C opts"

definition sc_transactorraw_Transact ::
    "simple_custody_transactor_raw \<Rightarrow> transact_opts \<Rightarrow> string \<Rightarrow> abi_arg list \<Rightarrow> go_error + eth_tx" where
  "sc_transactorraw_Transact C opts method params = Transact C opts method params"

section \<open>Sessions\<close>

definition iw_session_FinalizeWithdraw :: "i_withdraw_session \<Rightarrow> hash \<Rightarrow> go_error + eth_tx" where
  "iw_session_FinalizeWithdraw S withdrawalId =
     FinalizeWithdraw (se_Contract S) (se_TransactOpts S) withdrawalId"

definition iw_transactor_session_FinalizeWithdraw ::
    "i_withdraw_transactor_session \<Rightarrow> hash \<Rightarrow> go_error + eth_tx" where
  "iw_transactor_session_FinalizeWithdraw S withdrawalId =
     FinalizeWithdraw (ts_Contract S) (ts_TransactOpts S) withdrawalId"

definition iw_session_RejectWithdraw :: "i_withdraw_session \<Rightarrow> hash \<Rightarrow> go_error + eth_tx" where
  "iw_session_RejectWithdraw S withdrawalId =
     RejectWithdraw (se_Contract S) (se_TransactOpts S) withdrawalId"

definition iw_transactor_session_RejectWithdraw ::
    "i_withdraw_transactor_session \<Rightarrow> hash \<Rightarrow> go_error + eth_tx" where
  "iw_transactor_session_RejectWithdraw S withdrawalId =
     RejectWithdraw (ts_Contract S) (ts_TransactOpts S) withdrawalId"

definition iw_session_StartWithdraw :: "i_withdraw_session \<Rightarrow> address \<Rightarrow> address \<Rightarrow> int \<Rightarrow> int \<Rightarrow> go_error + eth_tx" where
  "iw_session_StartWithdraw S user token amount nonce =
     StartWithdraw (se_Contract S) (se_TransactOpts S) user token amount nonce"

definition iw_transactor_session_StartWithdraw ::
    "i_withdraw_transactor_session \<Rightarrow> address \<Rightarrow> address \<Rightarrow> int \<Rightarrow> int \<Rightarrow> go_error + eth_tx" where
  "iw_transactor_session_StartWithdraw S user token amount nonce =
     StartWithdraw (ts_Contract S) (ts_TransactOpts S) user token amount nonce"

definition id_session_Deposit :: "i_deposit_session \<Rightarrow> address \<Rightarrow> int \<Rightarrow> go_error + eth_tx" where
  "id_session_Deposit S token amount =
     Deposit (se_Contract S) (se_TransactOpts S) token amount"

definition id_transactor_session_Deposit ::
    "i_deposit_transactor_session \<Rightarrow> address \<Rightarrow> int \<Rightarrow> go_error + eth_tx" where
  "id_transactor_session_Deposit S token amount =
     Deposit (ts_Contract S) (ts_TransactOpts S) token amount"

definition sc_session_Deposit :: "simple_custody_session \<Rightarrow> address \<Rightarrow> int \<Rightarrow> go_error + eth_tx" where
  "sc_session_Deposit S token amount =
     sc_Deposit (se_Contract S) (se_TransactOpts S) token amount"

definition sc_transactor_session_Deposit ::
    "simple_custody_transactor_session \<Rightarrow> address \<Rightarrow> int \<Rightarrow> go_error + eth_tx" where
  "sc_transactor_session_Deposit S token amount =
     sc_Deposit (ts_Contract S) (ts_TransactOpts S) token amount"

definition sc_session_FinalizeWithdraw :: "simple_custody_session \<Rightarrow> hash \<Rightarrow> go_error + eth_tx" where
  "sc_session_FinalizeWithdraw S withdrawalId =
     sc_FinalizeWithdraw (se_Contract S) (se_TransactOpts S) withdrawalId"

definition sc_transactor_session_FinalizeWithdraw ::
    "simple_custody_transactor_session \<Rightarrow> hash \<Rightarrow> go_error + eth_tx" where
  "sc_transactor_session_FinalizeWithdraw S withdrawalId =
     sc_FinalizeWithdraw (ts_Contract S) (ts_TransactOpts S) withdrawalId"

definition sc_session_GrantRole :: "simple_custody_session \<Rightarrow> hash \<Rightarrow> address \<Rightarrow> go_error + eth_tx" where
  "sc_session_GrantRole S role account =
     sc_GrantRole (se_Contract S) (se_TransactOpts S) role account"

definition sc_transactor_session_GrantRole ::
    "simple_custody_transactor_session \<Rightarrow> hash \<Rightarrow> address \<Rightarrow> go_error + eth_tx" where
  "sc_transactor_session_GrantRole S role account =
     sc_GrantRole (ts_Contract S) (ts_TransactOpts S) role account"

definition sc_session_RejectWithdraw :: "simple_custody_session \<Rightarrow> hash \<Rightarrow> go_error + eth_tx" where
  "sc_session_RejectWithdraw S withdrawalId =
     sc_RejectWithdraw (se_Contract S) (se_TransactOpts S) withdrawalId"

definition sc_transactor_session_RejectWithdraw ::
    "simple_custody_transactor_session \<Rightarrow> hash \<Rightarrow> go_error + eth_tx" where
  "sc_transactor_session_RejectWithdraw S withdrawalId =
     sc_RejectWithdraw (ts_Contract S) (ts_TransactOpts S) withdrawalId"

definition sc_session_RenounceRole :: "simple_custody_session \<Rightarrow> hash \<Rightarrow> address \<Rightarrow> go_error + eth_tx" where
  "sc_session_RenounceRole S role callerConfirmation =
     sc_RenounceRole (se_Contract S) (se_TransactOpts S) role callerConfirmation"

definition sc_transactor_session_RenounceRole ::
    "simple_custody_transactor_session \<Rightarrow> hash \<Rightarrow> address \<Rightarrow> go_error + eth_tx" where
  "sc_transactor_session_RenounceRole S role callerConfirmation =
     sc_RenounceRole (ts_Contract S) (ts_TransactOpts S) role callerConfirmation"

definition sc_session_RevokeRole :: "simple_custody_session \<Rightarrow> hash \<Rightarrow> address \<Rightarrow> go_error + eth_tx" where
  "sc_session_RevokeRole S role account =
     sc_RevokeRole (se_Contract S) (se_TransactOpts S) role account"

definition sc_transactor_session_RevokeRole ::
    "simple_custody_transactor_session \<Rightarrow> hash \<Rightarrow> address \<Rightarrow> go_error + eth_tx" where
  "sc_transactor_session_RevokeRole S role account =
     sc_RevokeRole (ts_Contract S) (ts_TransactOpts S) role account"

definition sc_session_StartWithdraw :: "simple_custody_session \<Rightarrow> address \<Rightarrow> address \<Rightarrow> int \<Rightarrow> int \<Rightarrow> go_error + eth_tx" where
  "sc_session_StartWithdraw S user token amount nonce =
     sc_StartWithdraw (se_Contract S) (se_TransactOpts S) user token amount nonce"

definition sc_transactor_session_StartWithdraw ::
    "simple_custody_transactor_session \<Rightarrow> address \<Rightarrow> address \<Rightarrow> int \<Rightarrow> int \<Rightarrow> go_error + eth_tx" where
  "sc_transactor_session_StartWithdraw S user token amount nonce =
     sc_StartWithdraw (ts_Contract S) (ts_TransactOpts S) user token amount nonce"

definition sc_session_DEFAULTADMINROLE :: "simple_custody_session \<Rightarrow> hash call_result" where
  "sc_session_DEFAULTADMINROLE S = sc_DEFAULTADMINROLE (se_Contract S) (se_CallOpts S)"

definition sc_caller_session_DEFAULTADMINROLE :: "simple_custody_caller_session \<Rightarrow> hash call_result" where
  "sc_caller_session_DEFAULTADMINROLE S = sc_DEFAULTADMINROLE (cs_Contract S) (cs_CallOpts S)"

definition sc_session_NEODAXROLE :: "simple_custody_session \<Rightarrow> hash call_result" where
  "sc_session_NEODAXROLE S = sc_NEODAXROLE (se_Contract S) (se_CallOpts S)"

definition sc_caller_session_NEODAXROLE :: "simple_custody_caller_session \<Rightarrow> hash call_result" where
  "sc_caller_session_NEODAXROLE S = sc_NEODAXROLE (cs_Contract S) (cs_CallOpts S)"

definition sc_session_NITEWATCHROLE :: "simple_custody_session \<Rightarrow> hash call_result" where
  "sc_session_NITEWATCHROLE S = sc_NITEWATCHROLE (se_Contract S) (se_CallOpts S)"

definition sc_caller_session_NITEWATCHROLE :: "simple_custody_caller_session \<Rightarrow> hash call_result" where
  "sc_caller_session_NITEWATCHROLE S = sc_NITEWATCHROLE (cs_Contract S) (cs_CallOpts S)"

definition sc_session_GetRoleAdmin :: "simple_custody_session \<Rightarrow> hash \<Rightarrow> hash call_result" where
  "sc_session_GetRoleAdmin S role = sc_GetRoleAdmin (se_Contract S) (se_CallOpts S) role"

definition sc_caller_session_GetRoleAdmin :: "simple_custody_caller_session \<Rightarrow> hash \<Rightarrow> hash call_result" where
  "sc_caller_session_GetRoleAdmin S role = sc_GetRoleAdmin (cs_Contract S) (cs_CallOpts S) role"

definition sc_session_HasRole :: "simple_custody_session \<Rightarrow> hash \<Rightarrow> address \<Rightarrow> bool call_result" where
  "sc_session_HasRole S role account = sc_HasRole (se_Contract S) (se_CallOpts S) role account"

definition sc_caller_session_HasRole :: "simple_custody_caller_session \<Rightarrow> hash \<Rightarrow> address \<Rightarrow> bool call_result" where
  "sc_caller_session_HasRole S role account = sc_HasRole (cs_Contract S) (cs_CallOpts S) role account"

definition sc_session_SupportsInterface :: "simple_custody_session \<Rightarrow> 32 word \<Rightarrow> bool call_result" where
  "sc_session_SupportsInterface S interfaceId = sc_SupportsInterface (se_Contract S) (se_CallOpts S) interfaceId"

definition sc_caller_session_SupportsInterface :: "simple_custody_caller_session \<Rightarrow> 32 word \<Rightarrow> bool call_result" where
  "sc_caller_session_SupportsInterface S interfaceId = sc_SupportsInterface (cs_Contract S) (cs_CallOpts S) interfaceId"

definition sc_session_Withdrawals :: "simple_custody_session \<Rightarrow> hash \<Rightarrow> withdrawal_info call_result" where
  "sc_session_Withdrawals S arg0 = sc_Withdrawals (se_Contract S) (se_CallOpts S) arg0"

definition sc_caller_session_Withdrawals :: "simple_custody_caller_session \<Rightarrow> hash \<Rightarrow> withdrawal_info call_result" where
  "sc_caller_session_Withdrawals S arg0 = sc_Withdrawals (cs_Contract S) (cs_CallOpts S) arg0"

section \<open>Deployment\<close>

text \<open>
  \<open>GetAbi\<close> may give an error or nil. \<open>deploy\<close> is go-ethereum's \<open>DeployContract\<close>, which sends the
  bytecode with the constructor's arguments.
\<close>

definition DeploySimpleCustody ::
    "go_error + abi option \<Rightarrow> string \<Rightarrow>
     (transact_opts \<Rightarrow> abi \<Rightarrow> string \<Rightarrow> 'c \<Rightarrow> abi_arg list \<Rightarrow>
       go_error + (address \<times> eth_tx \<times> bound_contract)) \<Rightarrow>
     transact_opts \<Rightarrow> 'c \<Rightarrow> address \<Rightarrow> address \<Rightarrow> address \<Rightarrow>
     go_error + (address \<times> eth_tx \<times> simple_custody)" where
  "DeploySimpleCustody abi bytecode deploy auth backend admin neodax nitewatch =
     (case abi of
        Inl err \<Rightarrow> Inl err
      | Inr None \<Rightarrow> Inl (Opaque ''GetABI returned nil'')
      | Inr (Some parsed) \<Rightarrow>
          (case deploy auth parsed bytecode backend [AAddress admin, AAddress neodax, AAddress nitewatch] of
             Inl err \<Rightarrow> Inl err
           | Inr (addr, tx, contract) \<Rightarrow> Inr (addr, tx, contract)))"

end
