(* ===== verification/Interfaces.thy ===== *)
theory Interfaces
  imports Binding_Sessions Listener
begin

text \<open>
  The interfaces \<open>Custody\<close> and \<open>EventListener\<close> of \<open>custody/types.go\<close> as records of their methods, and
  the types that implement them: the two bindings of the contract, and \<open>Listener\<close>. \<open>WithdrawalStore\<close>
  is the locale of theory Custody_Types; \<open>EthBackend\<close> is go-ethereum's client, whose calls are inputs.
\<close>

record custody_ops =
  cu_StartWithdraw :: "transact_opts \<Rightarrow> address \<Rightarrow> address \<Rightarrow> int \<Rightarrow> int \<Rightarrow> go_error + eth_tx"
  cu_FinalizeWithdraw :: "transact_opts \<Rightarrow> hash \<Rightarrow> go_error + eth_tx"
  cu_RejectWithdraw :: "transact_opts \<Rightarrow> hash \<Rightarrow> go_error + eth_tx"

definition i_withdraw_custody :: "i_withdraw \<Rightarrow> custody_ops" where
  "i_withdraw_custody C =
     \<lparr>cu_StartWithdraw = StartWithdraw C, cu_FinalizeWithdraw = FinalizeWithdraw C,
      cu_RejectWithdraw = RejectWithdraw C\<rparr>"

definition simple_custody_custody :: "simple_custody \<Rightarrow> custody_ops" where
  "simple_custody_custody C =
     \<lparr>cu_StartWithdraw = sc_StartWithdraw C, cu_FinalizeWithdraw = sc_FinalizeWithdraw C,
      cu_RejectWithdraw = sc_RejectWithdraw C\<rparr>"

text \<open>Over one contract the two bindings send the same: the service may hold either.\<close>

lemma bindings_interchangeable: "i_withdraw_custody C = simple_custody_custody C"
  by (auto simp: i_withdraw_custody_def simple_custody_custody_def fun_eq_iff StartWithdraw_def
      sc_StartWithdraw_def FinalizeWithdraw_def sc_FinalizeWithdraw_def RejectWithdraw_def
      sc_RejectWithdraw_def)

text \<open>
  A method gets the position to start from and, instead of the context and the sink, what the node
  answers; it gives the events for the sink and how it ended.
\<close>

record event_listener_ops =
  el_WatchWithdrawStarted ::
    "u64 \<Rightarrow> u32 \<Rightarrow> listen_input list \<Rightarrow> withdraw_started_event list \<times> watch_end"
  el_WatchWithdrawFinalized ::
    "u64 \<Rightarrow> u32 \<Rightarrow> listen_input list \<Rightarrow> withdraw_finalized_event list \<times> watch_end"
  el_WatchDeposited ::
    "u64 \<Rightarrow> u32 \<Rightarrow> listen_input list \<Rightarrow> deposited_event list \<times> watch_end"

definition listener_ops ::
    "go_error + (string \<Rightarrow> hash) \<Rightarrow> go_error + (string \<Rightarrow> hash) \<Rightarrow> listener \<Rightarrow> event_listener_ops" where
  "listener_ops withdraw_abi deposit_abi L =
     \<lparr>el_WatchWithdrawStarted = listener_WatchWithdrawStarted withdraw_abi L,
      el_WatchWithdrawFinalized = listener_WatchWithdrawFinalized withdraw_abi L,
      el_WatchDeposited = listener_WatchDeposited deposit_abi L\<rparr>"

end
