(* ===== verification/Approval_Custody.thy ===== *)
theory Approval_Custody
  imports Custody_Contract
begin

text \<open>
  The withdrawals of \<open>contracts/evm/src/QuorumCustody.sol\<close> and \<open>ThresholdCustody.sol\<close>, which have the
  same code for them: a request is paid when enough signers have approved it within an hour, and can
  be rejected only later. The two contracts differ in how they keep their signers: the record
  \<open>signer_ops\<close> and the locale \<open>signer_set\<close> are that interface. Shown once for both: a simulation by
  \<open>SimpleCustody\<close>, and that every payment has its quorum.
\<close>

section \<open>State, environment and events\<close>

record approval_request =
  ar_user :: address
  ar_token :: address
  ar_amount :: uint256
  ar_finalized :: bool
  ar_createdAt :: u64
  ar_requiredQuorum :: u64

record 's approval_custody =
  ac_withdrawals :: "hash \<Rightarrow> approval_request"
  ac_approvals :: "hash \<Rightarrow> address \<Rightarrow> bool"
  ac_signers :: 's

definition no_approval_request :: approval_request where
  "no_approval_request =
     \<lparr>ar_user = 0, ar_token = 0, ar_amount = 0, ar_finalized = False, ar_createdAt = 0,
      ar_requiredQuorum = 0\<rparr>"

text \<open>
  As for \<open>SimpleCustody\<close>, with the block's time, whether a token moves its amount (\<open>ae_pull\<close>), the
  signer an ECDSA signature of a digest recovers to (\<open>None\<close> reverts), and the EIP-712 digests of the
  two signer changes: of the addresses, the new quorum, the nonce and the deadline.
\<close>

record approval_env =
  ae_sender :: address
  ae_value :: uint256
  ae_timestamp :: uint256
  ae_entered :: bool
  ae_request_id :: "address \<Rightarrow> address \<Rightarrow> uint256 \<Rightarrow> uint256 \<Rightarrow> hash"
  ae_balance :: "address \<Rightarrow> uint256"
  ae_pull :: "address \<Rightarrow> uint256 \<Rightarrow> bool"
  ae_pay :: "address \<Rightarrow> address \<Rightarrow> uint256 \<Rightarrow> bool"
  ae_recover :: "hash \<Rightarrow> string \<Rightarrow> address option"
  ae_add_digest :: "address list \<Rightarrow> u64 \<Rightarrow> uint256 \<Rightarrow> uint256 \<Rightarrow> hash"
  ae_remove_digest :: "address list \<Rightarrow> u64 \<Rightarrow> uint256 \<Rightarrow> uint256 \<Rightarrow> hash"

datatype approval_error =
    Base custody_error
  | InvalidSigner
  | NotSigner
  | AlreadySigner
  | InvalidQuorum
  | NotASigner
  | CannotRemoveLastSigner
  | InvalidUser
  | WithdrawalExpired
  | SignerAlreadyApproved
  | WithdrawalNotExpired
  | InvalidSignature
  | SignaturesNotSorted
  | InsufficientSignatures
  | EmptySignersArray
  | SignerIsCaller
  | DeadlineExpired
  | RecoverFailed
  | SignerSetError

datatype approval_event =
    CustodyEvent custody_event
  | WithdrawalApproved hash address nat
  | SignerAdded address u64
  | SignerRemoved address u64
  | QuorumChanged u64 u64

text \<open>How a contract keeps its signers; \<open>'c\<close> are its calls that change them.\<close>

record ('s, 'c) signer_ops =
  so_isSigner :: "'s \<Rightarrow> address \<Rightarrow> bool"
  so_signers :: "'s \<Rightarrow> address list"
  so_quorum :: "'s \<Rightarrow> u64"
  so_change :: "approval_env \<Rightarrow> 'c \<Rightarrow> 's \<Rightarrow> approval_error + ('s \<times> approval_event list)"

type_synonym 's approval_result =
  "approval_error + ('s approval_custody \<times> approval_event list \<times> payment list)"

section \<open>The functions for withdrawals\<close>

definition OPERATION_EXPIRY :: nat where
  "OPERATION_EXPIRY = 3600"

definition approval_deposit ::
    "approval_env \<Rightarrow> address \<Rightarrow> uint256 \<Rightarrow> 's approval_custody \<Rightarrow> 's approval_result" where
  "approval_deposit ae token amount s =
     (if ae_entered ae then Inl (Base ReentrantCall)
      else if amount = 0 then Inl (Base ZeroAmount)
      else if token = 0 then
        (if ae_value ae \<noteq> amount then Inl (Base MsgValueMismatch)
         else Inr (s, [CustodyEvent (Deposited (ae_sender ae) token amount)], []))
      else if ae_value ae \<noteq> 0 then Inl (Base NonZeroMsgValueForERC20)
      else if \<not> ae_pull ae token amount then Inl (Base TokenTransferFailed)
      else Inr (s, [CustodyEvent (Deposited (ae_sender ae) token amount)], []))"

definition approval_startWithdraw ::
    "('s, 'c) signer_ops \<Rightarrow> approval_env \<Rightarrow> address \<Rightarrow> address \<Rightarrow> uint256 \<Rightarrow> uint256 \<Rightarrow>
     's approval_custody \<Rightarrow> 's approval_result" where
  "approval_startWithdraw ops ae user token amount nonce s =
     (if \<not> so_isSigner ops (ac_signers s) (ae_sender ae) then Inl NotSigner
      else if ae_entered ae then Inl (Base ReentrantCall)
      else if user = 0 then Inl InvalidUser
      else if amount = 0 then Inl (Base ZeroAmount)
      else
        (let withdrawalId = ae_request_id ae user token amount nonce in
         if ar_createdAt (ac_withdrawals s withdrawalId) \<noteq> 0 then Inl (Base WithdrawalAlreadyExists)
         else Inr (s\<lparr>ac_withdrawals := (ac_withdrawals s)(withdrawalId :=
                       \<lparr>ar_user = user, ar_token = token, ar_amount = amount, ar_finalized = False,
                        ar_createdAt = ucast (ae_timestamp ae),
                        ar_requiredQuorum = so_quorum ops (ac_signers s)\<rparr>)\<rparr>,
                   [CustodyEvent (WithdrawStarted withdrawalId user token amount nonce)], [])))"

definition countValidApprovals ::
    "('s, 'c) signer_ops \<Rightarrow> 's approval_custody \<Rightarrow> hash \<Rightarrow> nat" where
  "countValidApprovals ops s withdrawalId =
     length (filter (ac_approvals s withdrawalId) (so_signers ops (ac_signers s)))"

definition executeWithdrawal ::
    "approval_env \<Rightarrow> hash \<Rightarrow> 's approval_custody \<Rightarrow>
     approval_error + ('s approval_custody \<times> payment list)" where
  "executeWithdrawal ae withdrawalId s =
     (let request = ac_withdrawals s withdrawalId;
          user = ar_user request; token = ar_token request; amount = ar_amount request
      in if ae_balance ae token < amount then Inl (Base InsufficientLiquidity)
         else if \<not> ae_pay ae token user amount
         then Inl (Base (if token = 0 then ETHTransferFailed else TokenTransferFailed))
         else Inr (s\<lparr>ac_withdrawals := (ac_withdrawals s)(withdrawalId :=
                       request\<lparr>ar_finalized := True, ar_user := 0, ar_token := 0, ar_amount := 0\<rparr>)\<rparr>,
                   [(withdrawalId, user, token, amount)]))"

definition approval_finalizeWithdraw ::
    "('s, 'c) signer_ops \<Rightarrow> approval_env \<Rightarrow> hash \<Rightarrow> 's approval_custody \<Rightarrow> 's approval_result" where
  "approval_finalizeWithdraw ops ae withdrawalId s =
     (let request = ac_withdrawals s withdrawalId; signer = ae_sender ae in
      if \<not> so_isSigner ops (ac_signers s) signer then Inl NotSigner
      else if ae_entered ae then Inl (Base ReentrantCall)
      else if ar_createdAt request = 0 then Inl (Base WithdrawalNotFound)
      else if ar_finalized request then Inl (Base WithdrawalAlreadyFinalized)
      else if unat (ae_timestamp ae) > unat (ar_createdAt request) + OPERATION_EXPIRY
      then Inl WithdrawalExpired
      else if ac_approvals s withdrawalId signer then Inl SignerAlreadyApproved
      else
        (let s1 = s\<lparr>ac_approvals := (ac_approvals s)(withdrawalId :=
                      (ac_approvals s withdrawalId)(signer := True))\<rparr>;
             validApprovals = countValidApprovals ops s1 withdrawalId;
             approved = WithdrawalApproved withdrawalId signer validApprovals
         in if validApprovals \<ge> unat (ar_requiredQuorum request) then
              (case executeWithdrawal ae withdrawalId s1 of
                 Inl err \<Rightarrow> Inl err
               | Inr (s2, paid) \<Rightarrow>
                   Inr (s2, [approved, CustodyEvent (WithdrawFinalized withdrawalId True)], paid))
            else Inr (s1, [approved], [])))"

definition approval_rejectWithdraw ::
    "('s, 'c) signer_ops \<Rightarrow> approval_env \<Rightarrow> hash \<Rightarrow> 's approval_custody \<Rightarrow> 's approval_result" where
  "approval_rejectWithdraw ops ae withdrawalId s =
     (let request = ac_withdrawals s withdrawalId in
      if \<not> so_isSigner ops (ac_signers s) (ae_sender ae) then Inl NotSigner
      else if ae_entered ae then Inl (Base ReentrantCall)
      else if ar_createdAt request = 0 then Inl (Base WithdrawalNotFound)
      else if ar_finalized request then Inl (Base WithdrawalAlreadyFinalized)
      else if unat (ae_timestamp ae) \<le> unat (ar_createdAt request) + OPERATION_EXPIRY
      then Inl WithdrawalNotExpired
      else Inr (s\<lparr>ac_withdrawals := (ac_withdrawals s)(withdrawalId := request\<lparr>ar_finalized := True\<rparr>)\<rparr>,
                [CustodyEvent (WithdrawFinalized withdrawalId False)], []))"

section \<open>Transactions and runs\<close>

datatype 'c approval_call =
    ADeposit address uint256
  | AStart address address uint256 uint256
  | AFinalize hash
  | AReject hash
  | AChange 'c

fun approval_exec ::
    "('s, 'c) signer_ops \<Rightarrow> approval_env \<Rightarrow> 'c approval_call \<Rightarrow> 's approval_custody \<Rightarrow>
     's approval_result" where
  "approval_exec ops ae (ADeposit token amount) s = approval_deposit ae token amount s"
| "approval_exec ops ae (AStart user token amount nonce) s =
     approval_startWithdraw ops ae user token amount nonce s"
| "approval_exec ops ae (AFinalize i) s = approval_finalizeWithdraw ops ae i s"
| "approval_exec ops ae (AReject i) s = approval_rejectWithdraw ops ae i s"
| "approval_exec ops ae (AChange c) s =
     (case so_change ops ae c (ac_signers s) of
        Inl err \<Rightarrow> Inl err
      | Inr (signers, evs) \<Rightarrow> Inr (s\<lparr>ac_signers := signers\<rparr>, evs, []))"

record 's approval_chain =
  ah_state :: "'s approval_custody"
  ah_events :: "approval_event list"
  ah_paid :: "payment list"

definition approval_apply ::
    "('s, 'c) signer_ops \<Rightarrow> approval_env \<Rightarrow> 'c approval_call \<Rightarrow> 's approval_chain \<Rightarrow>
     's approval_chain" where
  "approval_apply ops ae call h =
     (case approval_exec ops ae call (ah_state h) of
        Inl err \<Rightarrow> h
      | Inr (s, evs, pays) \<Rightarrow>
          \<lparr>ah_state = s, ah_events = ah_events h @ evs, ah_paid = ah_paid h @ pays\<rparr>)"

fun approval_run ::
    "('s, 'c) signer_ops \<Rightarrow> (approval_env \<times> 'c approval_call) list \<Rightarrow> 's approval_chain \<Rightarrow>
     's approval_chain" where
  "approval_run ops [] h = h"
| "approval_run ops ((ae, call) # rest) h = approval_run ops rest (approval_apply ops ae call h)"

text \<open>A contract right after its constructor, with the signers it was given.\<close>

definition approval_init :: "'s \<Rightarrow> approval_event list \<Rightarrow> 's approval_chain" where
  "approval_init signers evs =
     \<lparr>ah_state = \<lparr>ac_withdrawals = (\<lambda>_. no_approval_request), ac_approvals = (\<lambda>_ _. False),
        ac_signers = signers\<rparr>, ah_events = evs, ah_paid = []\<rparr>"


section \<open>Simulation by SimpleCustody\<close>

text \<open>What a reader who ignores approvals and signers sees: the contract as a \<open>SimpleCustody\<close>.\<close>

definition simple_request :: "approval_request \<Rightarrow> request" where
  "simple_request q =
     \<lparr>rq_user = ar_user q, rq_token = ar_token q, rq_amount = ar_amount q,
      rq_exists = (ar_createdAt q \<noteq> 0), rq_finalized = ar_finalized q\<rparr>"

fun custody_events_of :: "approval_event \<Rightarrow> custody_event list" where
  "custody_events_of (CustodyEvent e) = [e]"
| "custody_events_of _ = []"

definition simple_view :: "'s approval_chain \<Rightarrow> ledgered_custody" where
  "simple_view h =
     \<lparr>lc_state = (\<lambda>i. simple_request (ac_withdrawals (ah_state h) i)),
      lc_events = concat (map custody_events_of (ah_events h)), lc_paid = ah_paid h\<rparr>"

lemma simple_request_simps [simp]:
  "rq_user (simple_request q) = ar_user q" "rq_token (simple_request q) = ar_token q"
  "rq_amount (simple_request q) = ar_amount q" "rq_finalized (simple_request q) = ar_finalized q"
  "rq_exists (simple_request q) \<longleftrightarrow> ar_createdAt q \<noteq> 0"
  by (simp_all add: simple_request_def)

text \<open>A block whose time fits 64 bits has a creation time other than 0.\<close>

definition clocked :: "approval_env \<Rightarrow> bool" where
  "clocked ae \<longleftrightarrow> (ucast (ae_timestamp ae) :: u64) \<noteq> 0"

definition simple_env :: "approval_env \<Rightarrow> call_env" where
  "simple_env ae =
     \<lparr>ce_sender = ae_sender ae, ce_value = ae_value ae, ce_neodax = True, ce_nitewatch = True,
      ce_entered = False, ce_request_id = ae_request_id ae, ce_balance = ae_balance ae,
      ce_pull = (\<lambda>_ _. None), ce_pay = ae_pay ae\<rparr>"

text \<open>A token that moves its amount moves it onto any balance: the deposit is replayed from 0.\<close>

definition deposit_env :: "approval_env \<Rightarrow> call_env" where
  "deposit_env ae = (simple_env ae)\<lparr>ce_balance := (\<lambda>_. 0), ce_pull := (\<lambda>_ amount. Some amount)\<rparr>"

text \<open>
  Approvals in storage were announced, a request has a positive quorum, and whatever was paid had
  been approved by as many different signers as the request's quorum.
\<close>

definition approved_by :: "approval_event list \<Rightarrow> hash \<Rightarrow> address \<Rightarrow> bool" where
  "approved_by evs i a \<longleftrightarrow> (\<exists>k. WithdrawalApproved i a k \<in> set evs)"

definition quorum_approved :: "'s approval_chain \<Rightarrow> hash \<Rightarrow> bool" where
  "quorum_approved h i \<longleftrightarrow>
     (\<exists>A. distinct A \<and> unat (ar_requiredQuorum (ac_withdrawals (ah_state h) i)) \<le> length A \<and>
        (\<forall>x\<in>set A. approved_by (ah_events h) i x))"

definition approval_inv :: "('s \<Rightarrow> bool) \<Rightarrow> 's approval_chain \<Rightarrow> bool" where
  "approval_inv good h \<longleftrightarrow>
     good (ac_signers (ah_state h)) \<and>
     (\<forall>i a. ac_approvals (ah_state h) i a \<longrightarrow> approved_by (ah_events h) i a) \<and>
     (\<forall>i. ar_createdAt (ac_withdrawals (ah_state h) i) \<noteq> 0 \<longrightarrow>
        0 < ar_requiredQuorum (ac_withdrawals (ah_state h) i)) \<and>
     (\<forall>i \<in> fst ` set (ah_paid h). ar_createdAt (ac_withdrawals (ah_state h) i) \<noteq> 0 \<and>
        quorum_approved h i)"

lemma approved_by_append [simp]:
  "approved_by (evs @ evs') i a \<longleftrightarrow> approved_by evs i a \<or> approved_by evs' i a"
  by (auto simp: approved_by_def)

section \<open>What a call that succeeds has done\<close>

lemma deposit_done:
  assumes "approval_deposit ae token amount s = Inr (s', evs, pays)"
  shows "s' = s" "evs = [CustodyEvent (Deposited (ae_sender ae) token amount)]" "pays = []"
    "contract_deposit (deposit_env ae) token amount c =
      Inr (c, [Deposited (ae_sender ae) token amount], [])"
  using assms
  by (auto simp: approval_deposit_def contract_deposit_def deposit_env_def simple_env_def split: if_splits)

lemma start_done:
  assumes "approval_startWithdraw ops ae user token amount nonce s = Inr (s', evs, pays)"
  defines "i \<equiv> ae_request_id ae user token amount nonce"
  shows "ar_createdAt (ac_withdrawals s i) = 0"
    "s' = s\<lparr>ac_withdrawals := (ac_withdrawals s)(i :=
       \<lparr>ar_user = user, ar_token = token, ar_amount = amount, ar_finalized = False,
        ar_createdAt = ucast (ae_timestamp ae), ar_requiredQuorum = so_quorum ops (ac_signers s)\<rparr>)\<rparr>"
    "evs = [CustodyEvent (WithdrawStarted i user token amount nonce)]" "pays = []" "amount \<noteq> 0"
  using assms by (auto simp: approval_startWithdraw_def Let_def split: if_splits)

lemma reject_done:
  assumes "approval_rejectWithdraw ops ae i s = Inr (s', evs, pays)"
  shows "ar_createdAt (ac_withdrawals s i) \<noteq> 0" "\<not> ar_finalized (ac_withdrawals s i)"
    "s' = s\<lparr>ac_withdrawals := (ac_withdrawals s)(i := (ac_withdrawals s i)\<lparr>ar_finalized := True\<rparr>)\<rparr>"
    "evs = [CustodyEvent (WithdrawFinalized i False)]" "pays = []"
  using assms by (auto simp: approval_rejectWithdraw_def Let_def split: if_splits)

text \<open>The contract after the sender's approval.\<close>

definition approve :: "approval_env \<Rightarrow> hash \<Rightarrow> 's approval_custody \<Rightarrow> 's approval_custody" where
  "approve ae i s = s\<lparr>ac_approvals := (ac_approvals s)(i := (ac_approvals s i)(ae_sender ae := True))\<rparr>"

lemma approve_simps [simp]:
  "ac_withdrawals (approve ae i s) = ac_withdrawals s" "ac_signers (approve ae i s) = ac_signers s"
  "ac_approvals (approve ae i s) j a \<longleftrightarrow> ac_approvals s j a \<or> (j = i \<and> a = ae_sender ae)"
  by (auto simp: approve_def)

lemma finalize_done:
  assumes "approval_finalizeWithdraw ops ae i s = Inr (s', evs, pays)"
  defines "q \<equiv> ac_withdrawals s i" and "n \<equiv> countValidApprovals ops (approve ae i s) i"
  shows "ar_createdAt q \<noteq> 0" "\<not> ar_finalized q"
    "n < unat (ar_requiredQuorum q) \<and> s' = approve ae i s \<and>
        evs = [WithdrawalApproved i (ae_sender ae) n] \<and> pays = [] \<or>
     unat (ar_requiredQuorum q) \<le> n \<and> ar_amount q \<le> ae_balance ae (ar_token q) \<and>
        ae_pay ae (ar_token q) (ar_user q) (ar_amount q) \<and>
        s' = (approve ae i s)\<lparr>ac_withdrawals := (ac_withdrawals s)(i :=
               q\<lparr>ar_finalized := True, ar_user := 0, ar_token := 0, ar_amount := 0\<rparr>)\<rparr> \<and>
        evs = [WithdrawalApproved i (ae_sender ae) n, CustodyEvent (WithdrawFinalized i True)] \<and>
        pays = [(i, ar_user q, ar_token q, ar_amount q)]"
  using assms
  by (auto simp: approval_finalizeWithdraw_def executeWithdrawal_def approve_def [symmetric] Let_def
      split: if_splits)

lemma finalize_signer:
  "approval_finalizeWithdraw ops ae i s = Inr r \<Longrightarrow> so_isSigner ops (ac_signers s) (ae_sender ae)"
  by (simp add: approval_finalizeWithdraw_def Let_def split: if_splits)

lemma simple_step:
  assumes "approval_exec ops ae call (ah_state h) = Inr (s', evs, pays)" "clocked ae"
    and quiet: "\<And>c s2 evs2. so_change ops ae c (ac_signers (ah_state h)) = Inr (s2, evs2) \<Longrightarrow>
      concat (map custody_events_of evs2) = []"
  shows "\<exists>calls. simple_view (approval_apply ops ae call h) = custody_run calls (simple_view h)"
proof (cases call)
  case (ADeposit token amount)
  show ?thesis
    using assms(1) deposit_done [of ae token amount "ah_state h" s' evs pays]
    by (intro exI [of _ "[(deposit_env ae, DepositCall token amount)]"])
      (simp add: ADeposit approval_apply_def custody_apply_def simple_view_def)
next
  case (AStart user token amount nonce)
  with assms(1) have done_start: "approval_startWithdraw ops ae user token amount nonce (ah_state h) = Inr (s', evs, pays)"
    by simp
  note d = start_done [OF done_start]
  show ?thesis
    using d assms(2) unfolding AStart
    by (intro exI [of _ "[(simple_env ae, StartCall user token amount nonce)]"])
      (auto simp: approval_apply_def done_start custody_apply_def simple_view_def simple_env_def clocked_def
        contract_startWithdraw_def simple_request_def Let_def intro!: ext)
next
  case (AFinalize i)
  with assms(1) have done_fin: "approval_finalizeWithdraw ops ae i (ah_state h) = Inr (s', evs, pays)"
    by simp
  note d = finalize_done [OF done_fin]
  from d(3) show ?thesis
  proof (elim disjE conjE, goal_cases)
    case 1
    then show ?case
      by (intro exI [of _ "[]"]) (simp add: AFinalize approval_apply_def done_fin simple_view_def)
  next
    case 2
    then show ?case using d(1,2)
      by (intro exI [of _ "[(simple_env ae, FinalizeCall i)]"])
        (auto simp: AFinalize approval_apply_def done_fin custody_apply_def simple_view_def simple_env_def
          contract_finalizeWithdraw_def simple_request_def Let_def not_less intro!: ext)
  qed
next
  case (AReject i)
  with assms(1) have done_rej: "approval_rejectWithdraw ops ae i (ah_state h) = Inr (s', evs, pays)"
    by simp
  note d = reject_done [OF done_rej]
  show ?thesis using d
    by (intro exI [of _ "[(simple_env ae, RejectCall i)]"])
      (auto simp: AReject approval_apply_def done_rej custody_apply_def simple_view_def simple_env_def
        contract_rejectWithdraw_def simple_request_def Let_def intro!: ext)
next
  case (AChange c)
  with assms(1) show ?thesis
    by (intro exI [of _ "[]"])
      (auto simp: approval_apply_def simple_view_def dest: quiet split: sum.splits)
qed

lemma quorum_approved_grows:
  assumes "quorum_approved h i" "ah_events h' = ah_events h @ evs"
    "ar_requiredQuorum (ac_withdrawals (ah_state h') i) = ar_requiredQuorum (ac_withdrawals (ah_state h) i)"
  shows "quorum_approved h' i"
  using assms by (auto simp: quorum_approved_def)

lemma approval_inv_grows:
  assumes h: "approval_inv good h"
    and "good (ac_signers s')" "\<And>i. ac_approvals s' i = ac_approvals (ah_state h) i"
    and new: "\<And>i. ar_createdAt (ac_withdrawals (ah_state h) i) \<noteq> 0 \<Longrightarrow>
      ar_createdAt (ac_withdrawals s' i) \<noteq> 0 \<and>
      ar_requiredQuorum (ac_withdrawals s' i) = ar_requiredQuorum (ac_withdrawals (ah_state h) i)"
    and "\<And>i. ar_createdAt (ac_withdrawals s' i) \<noteq> 0 \<Longrightarrow> 0 < ar_requiredQuorum (ac_withdrawals s' i)"
    and "pays = []"
  shows "approval_inv good \<lparr>ah_state = s', ah_events = ah_events h @ evs, ah_paid = ah_paid h @ pays\<rparr>"
  using assms quorum_approved_grows [of h _ "\<lparr>ah_state = s', ah_events = ah_events h @ evs, ah_paid = ah_paid h\<rparr>" evs]
  by (auto simp: approval_inv_def)

lemma approval_inv_pays:
  assumes h: "approval_inv good h"
    and signers: "ac_signers s' = ac_signers (ah_state h)"
    and requests: "\<And>j. ar_createdAt (ac_withdrawals s' j) = ar_createdAt (ac_withdrawals (ah_state h) j) \<and>
      ar_requiredQuorum (ac_withdrawals s' j) = ar_requiredQuorum (ac_withdrawals (ah_state h) j)"
    and appr: "\<And>j a. ac_approvals s' j a \<Longrightarrow> ac_approvals (ah_state h) j a \<or> approved_by evs j a"
    and listed: "distinct (so_signers ops (ac_signers (ah_state h)))"
    and pays: "\<forall>x\<in>set pays. fst x = i \<and> ar_createdAt (ac_withdrawals (ah_state h) i) \<noteq> 0 \<and>
      unat (ar_requiredQuorum (ac_withdrawals (ah_state h) i)) \<le> countValidApprovals ops s' i"
  shows "approval_inv good \<lparr>ah_state = s', ah_events = ah_events h @ evs, ah_paid = ah_paid h @ pays\<rparr>"
    (is "approval_inv good ?h")
proof -
  have ann: "approved_by (ah_events h @ evs) j a" if "ac_approvals s' j a" for j a
    using appr [OF that] h by (auto simp: approval_inv_def)
  have quorum: "quorum_approved ?h i" if "pays \<noteq> []"
  proof -
    let ?A = "filter (ac_approvals s' i) (so_signers ops (ac_signers s'))"
    from that pays have "unat (ar_requiredQuorum (ac_withdrawals s' i)) \<le> length ?A"
      by (cases pays) (auto simp: countValidApprovals_def requests)
    moreover have "\<forall>x\<in>set ?A. approved_by (ah_events h @ evs) i x" by (intro ballI ann) simp
    moreover have "distinct ?A" using listed by (simp add: signers)
    ultimately show ?thesis unfolding quorum_approved_def by (intro exI [of _ ?A]) simp
  qed
  have earlier: "quorum_approved ?h j" if "j \<in> fst ` set (ah_paid h)" for j
  proof (rule quorum_approved_grows)
    show "quorum_approved h j" using h that unfolding approval_inv_def by blast
    show "ah_events ?h = ah_events h @ evs" by simp
    show "ar_requiredQuorum (ac_withdrawals (ah_state ?h) j) = ar_requiredQuorum (ac_withdrawals (ah_state h) j)"
      using requests [of j] by simp
  qed
  have paid: "k \<in> fst ` set (ah_paid h) \<Longrightarrow> ar_createdAt (ac_withdrawals s' k) \<noteq> 0 \<and> quorum_approved ?h k"
      for k
    using earlier [of k] h requests [of k] unfolding approval_inv_def by metis
  have just: "k \<in> fst ` set pays \<Longrightarrow> ar_createdAt (ac_withdrawals s' k) \<noteq> 0 \<and> quorum_approved ?h k" for k
  proof -
    assume "k \<in> fst ` set pays"
    then have "pays \<noteq> []" "k = i" "ar_createdAt (ac_withdrawals (ah_state h) k) \<noteq> 0" using pays by auto
    with quorum requests [of k] show ?thesis by simp
  qed
  have "0 < ar_requiredQuorum (ac_withdrawals s' j)" if "ar_createdAt (ac_withdrawals s' j) \<noteq> 0" for j
    using h requests [of j] that by (simp add: approval_inv_def)
  moreover have "good (ac_signers s')" using h by (simp add: approval_inv_def signers)
  ultimately show ?thesis
    unfolding approval_inv_def using ann paid just
    by (simp del: approved_by_append add: image_Un ball_Un)
qed

lemma custody_event_in:
  "e \<in> set (concat (map custody_events_of evs)) \<longleftrightarrow> CustodyEvent e \<in> set evs"
proof (induction evs)
  case (Cons x evs)
  then show ?case by (cases x) auto
qed simp

section \<open>Reaching the quorum\<close>

lemma count_approve:
  assumes "distinct (so_signers ops (ac_signers s))" "ae_sender ae \<in> set (so_signers ops (ac_signers s))"
    "\<not> ac_approvals s i (ae_sender ae)"
  shows "countValidApprovals ops (approve ae i s) i = Suc (countValidApprovals ops s i)"
proof -
  let ?S = "set (so_signers ops (ac_signers s))"
  have "{x. ac_approvals s i x \<or> x = ae_sender ae} \<inter> ?S =
      insert (ae_sender ae) ({x. ac_approvals s i x} \<inter> ?S)"
    using assms(2) by auto
  then show ?thesis
    using assms by (simp add: countValidApprovals_def distinct_length_filter)
qed

text \<open>A call to finalize that the contract must not refuse, whoever of the signers makes it.\<close>

definition can_pay :: "'s approval_custody \<Rightarrow> hash \<Rightarrow> approval_env \<Rightarrow> bool" where
  "can_pay s i ae \<longleftrightarrow>
     (let q = ac_withdrawals s i in
      \<not> ae_entered ae \<and> unat (ae_timestamp ae) \<le> unat (ar_createdAt q) + OPERATION_EXPIRY \<and>
      ar_amount q \<le> ae_balance ae (ar_token q) \<and> ae_pay ae (ar_token q) (ar_user q) (ar_amount q))"

definition is_open :: "'s approval_custody \<Rightarrow> hash \<Rightarrow> bool" where
  "is_open s i \<longleftrightarrow> ar_createdAt (ac_withdrawals s i) \<noteq> 0 \<and> \<not> ar_finalized (ac_withdrawals s i)"

lemma can_pay_approve [simp]:
  "can_pay (approve ae i s) j ae' = can_pay s j ae'" "is_open (approve ae i s) j = is_open s j"
  by (simp_all add: can_pay_def is_open_def)

lemma finalize_approves:
  assumes "so_isSigner ops (ac_signers s) (ae_sender ae)" "is_open s i" "can_pay s i ae"
    "\<not> ac_approvals s i (ae_sender ae)"
    "countValidApprovals ops (approve ae i s) i < unat (ar_requiredQuorum (ac_withdrawals s i))"
  shows "approval_finalizeWithdraw ops ae i s = Inr (approve ae i s,
    [WithdrawalApproved i (ae_sender ae) (countValidApprovals ops (approve ae i s) i)], [])"
  using assms
  by (simp add: approval_finalizeWithdraw_def Let_def can_pay_def is_open_def approve_def [symmetric])

lemma finalize_with_quorum:
  assumes "so_isSigner ops (ac_signers s) (ae_sender ae)" "is_open s i" "can_pay s i ae"
    "\<not> ac_approvals s i (ae_sender ae)"
    "unat (ar_requiredQuorum (ac_withdrawals s i)) \<le> countValidApprovals ops (approve ae i s) i"
  shows "\<exists>s' evs. approval_finalizeWithdraw ops ae i s = Inr (s', evs,
    [(i, ar_user (ac_withdrawals s i), ar_token (ac_withdrawals s i), ar_amount (ac_withdrawals s i))])"
  using assms
  by (simp add: approval_finalizeWithdraw_def executeWithdrawal_def Let_def can_pay_def is_open_def not_less
      approve_def [symmetric])

text \<open>
  The interface of the signers: for a lawful parameter \<open>p\<close> (code outside the repository) a change
  keeps the invariant of the set, in which the list and the test agree, nobody is listed twice and
  the quorum can be reached; it emits no event of a withdrawal.
\<close>

locale signer_set =
  fixes ops :: "'p \<Rightarrow> ('s, 'c) signer_ops" and lawful :: "'p \<Rightarrow> bool" and good :: "'p \<Rightarrow> 's \<Rightarrow> bool"
  assumes signers_distinct: "lawful p \<Longrightarrow> good p s \<Longrightarrow> distinct (so_signers (ops p) s)"
    and signer_listed: "lawful p \<Longrightarrow> good p s \<Longrightarrow>
      so_isSigner (ops p) s a \<longleftrightarrow> a \<in> set (so_signers (ops p) s)"
    and quorum_positive: "lawful p \<Longrightarrow> good p s \<Longrightarrow> 0 < so_quorum (ops p) s"
    and quorum_reachable: "lawful p \<Longrightarrow> good p s \<Longrightarrow>
      unat (so_quorum (ops p) s) \<le> length (so_signers (ops p) s)"
    and change_keeps_inv: "lawful p \<Longrightarrow> good p s \<Longrightarrow> so_change (ops p) ae c s = Inr (s', evs) \<Longrightarrow>
      good p s'"
    and change_quiet: "lawful p \<Longrightarrow> good p s \<Longrightarrow> so_change (ops p) ae c s = Inr (s', evs) \<Longrightarrow>
      concat (map custody_events_of evs) = []"
begin

lemma apply_keeps:
  assumes p: "lawful p" and h: "approval_inv (good p) h"
  shows "approval_inv (good p) (approval_apply (ops p) ae call h)"
proof (cases "approval_exec (ops p) ae call (ah_state h)")
  case (Inl err)
  then show ?thesis using h by (simp add: approval_apply_def)
next
  case (Inr r)
  obtain s' evs pays where r: "r = (s', evs, pays)" by (cases r)
  have new: "approval_apply (ops p) ae call h =
      \<lparr>ah_state = s', ah_events = ah_events h @ evs, ah_paid = ah_paid h @ pays\<rparr>"
    by (simp add: approval_apply_def Inr r)
  show ?thesis
  proof (cases call)
    case (ADeposit token amount)
    then have "s' = ah_state h" "pays = []"
      using deposit_done [of ae token amount "ah_state h"] Inr r by auto
    with h show ?thesis unfolding new by (intro approval_inv_grows [OF h]) (auto simp: approval_inv_def)
  next
    case (AStart user token amount nonce)
    with Inr r have "approval_startWithdraw (ops p) ae user token amount nonce (ah_state h) = Inr (s', evs, pays)"
      by simp
    note d = start_done [OF this]
    have "0 < so_quorum (ops p) (ac_signers (ah_state h))"
      using quorum_positive p h by (auto simp: approval_inv_def)
    then show ?thesis unfolding new using d h by (intro approval_inv_grows [OF h]) (auto simp: approval_inv_def)
  next
    case (AFinalize i)
    with Inr r have "approval_finalizeWithdraw (ops p) ae i (ah_state h) = Inr (s', evs, pays)"
      by simp
    note d = finalize_done [OF this]
    show ?thesis unfolding new
    proof (rule approval_inv_pays [OF h])
      show "\<And>j a. ac_approvals s' j a \<Longrightarrow> ac_approvals (ah_state h) j a \<or> approved_by evs j a"
        using d(3) by (auto simp: approved_by_def)
      show "distinct (so_signers (ops p) (ac_signers (ah_state h)))"
        using signers_distinct p h by (auto simp: approval_inv_def)
      show "\<forall>x\<in>set pays. fst x = i \<and> ar_createdAt (ac_withdrawals (ah_state h) i) \<noteq> 0 \<and>
          unat (ar_requiredQuorum (ac_withdrawals (ah_state h) i)) \<le> countValidApprovals (ops p) s' i"
        using d by (auto simp: countValidApprovals_def)
    qed (use d(3) in auto)
  next
    case (AReject i)
    with Inr r have "approval_rejectWithdraw (ops p) ae i (ah_state h) = Inr (s', evs, pays)"
      by simp
    note d = reject_done [OF this]
    show ?thesis unfolding new using d h by (intro approval_inv_grows [OF h]) (auto simp: approval_inv_def)
  next
    case (AChange c)
    then obtain s2 where "so_change (ops p) ae c (ac_signers (ah_state h)) = Inr (s2, evs)"
        "s' = (ah_state h)\<lparr>ac_signers := s2\<rparr>" "pays = []"
      using Inr r by (auto split: sum.splits)
    moreover from this have "good p s2"
      using change_keeps_inv p h by (auto simp: approval_inv_def)
    ultimately show ?thesis unfolding new using h by (intro approval_inv_grows [OF h]) (auto simp: approval_inv_def)
  qed
qed

lemma run_keeps:
  "lawful p \<Longrightarrow> approval_inv (good p) h \<Longrightarrow> approval_inv (good p) (approval_run (ops p) calls h)"
  by (induction "ops p" calls h rule: approval_run.induct) (simp_all add: apply_keeps)

lemma run_is_simple:
  assumes "lawful p" "approval_inv (good p) h" "\<forall>(ae, c) \<in> set calls. clocked ae"
  shows "\<exists>calls'. simple_view (approval_run (ops p) calls h) = custody_run calls' (simple_view h)"
  using assms
proof (induction "ops p" calls h rule: approval_run.induct)
  case (2 ae call rest h)
  let ?h = "approval_apply (ops p) ae call h"
  have "\<exists>calls. simple_view ?h = custody_run calls (simple_view h)"
  proof (cases "approval_exec (ops p) ae call (ah_state h)")
    case (Inl err)
    then show ?thesis by (intro exI [of _ "[]"]) (simp add: approval_apply_def)
  next
    case (Inr r)
    then show ?thesis
      using 2(2-4) change_quiet
      by (cases r) (auto simp: approval_inv_def intro!: simple_step)
  qed
  then obtain c1 where c1: "simple_view ?h = custody_run c1 (simple_view h)" by blast
  obtain c2 where "simple_view (approval_run (ops p) rest ?h) = custody_run c2 (simple_view ?h)"
    using 2 apply_keeps by (auto simp: case_prod_beta)
  then have "simple_view (approval_run (ops p) ((ae, call) # rest) h) = custody_run (c1 @ c2) (simple_view h)"
    by (simp add: c1 custody_run_append)
  then show ?case by blast
qed (auto intro: exI [of _ "[]"])

text \<open>As many signers as the quorum wants, within the hour: the last of their calls pays.\<close>

lemma quorum_pays:
  assumes "lawful p" "good p (ac_signers (ah_state h))" "is_open (ah_state h) i"
    "distinct (map ae_sender aes)"
    "\<forall>ae\<in>set aes. can_pay (ah_state h) i ae \<and> so_isSigner (ops p) (ac_signers (ah_state h)) (ae_sender ae) \<and>
      \<not> ac_approvals (ah_state h) i (ae_sender ae)"
    "aes \<noteq> []"
    "countValidApprovals (ops p) (ah_state h) i + length aes =
      unat (ar_requiredQuorum (ac_withdrawals (ah_state h) i))"
  shows "ah_paid (approval_run (ops p) (map (\<lambda>ae. (ae, AFinalize i)) aes) h) = ah_paid h @
    [(i, ar_user (ac_withdrawals (ah_state h) i), ar_token (ac_withdrawals (ah_state h) i),
      ar_amount (ac_withdrawals (ah_state h) i))]"
  using assms
proof (induction aes arbitrary: h)
  case (Cons ae aes)
  let ?s = "ah_state h"
  have first: "so_isSigner (ops p) (ac_signers ?s) (ae_sender ae)" "can_pay ?s i ae"
      "\<not> ac_approvals ?s i (ae_sender ae)"
    using Cons.prems(5) by auto
  have count: "countValidApprovals (ops p) (approve ae i ?s) i = Suc (countValidApprovals (ops p) ?s i)"
    using signers_distinct [OF Cons.prems(1,2)] signer_listed [OF Cons.prems(1,2)] first
    by (intro count_approve) auto
  show ?case
  proof (cases "aes = []")
    case True
    then have "unat (ar_requiredQuorum (ac_withdrawals ?s i)) \<le> countValidApprovals (ops p) (approve ae i ?s) i"
      using count Cons.prems(7) by simp
    from finalize_with_quorum [OF first(1) Cons.prems(3) first(2,3) this] True show ?thesis
      by (auto simp: approval_apply_def)
  next
    case False
    then have "countValidApprovals (ops p) (approve ae i ?s) i < unat (ar_requiredQuorum (ac_withdrawals ?s i))"
      using count Cons.prems(7) by (cases aes) auto
    note approved = finalize_approves [OF first(1) Cons.prems(3) first(2,3) this]
    have others: "ae_sender x \<noteq> ae_sender ae" if "x \<in> set aes" for x
      using Cons.prems(4) imageI [OF that, of ae_sender] by auto
    let ?h = "approval_apply (ops p) ae (AFinalize i) h"
    have h': "ah_state ?h = approve ae i ?s" "ah_paid ?h = ah_paid h"
      by (simp_all add: approval_apply_def approved)
    have "ah_paid (approval_run (ops p) (map (\<lambda>ae. (ae, AFinalize i)) aes) ?h) = ah_paid ?h @
        [(i, ar_user (ac_withdrawals (ah_state ?h) i), ar_token (ac_withdrawals (ah_state ?h) i),
          ar_amount (ac_withdrawals (ah_state ?h) i))]"
      using Cons.prems count False by (intro Cons.IH) (auto simp: h' dest: others)
    then show ?thesis by (simp add: h')
  qed
qed simp

text \<open>
  Over any calls: one payment per request, as requested, never after a reject, and approved by as
  many different signers as the quorum was when it was requested.
\<close>

lemma paid_with_quorum:
  assumes p: "lawful p" "good p signers" and quiet: "concat (map custody_events_of evs) = []"
    and clock: "\<forall>(ae, c) \<in> set calls. clocked ae"
    and h: "h = approval_run (ops p) calls (approval_init signers evs)"
  shows "distinct (map fst (ah_paid h)) \<and>
    (\<forall>i u t a. (i, u, t, a) \<in> set (ah_paid h) \<longrightarrow>
       (\<exists>n. CustodyEvent (WithdrawStarted i u t a n) \<in> set (ah_events h)) \<and>
       CustodyEvent (WithdrawFinalized i False) \<notin> set (ah_events h) \<and>
       0 < ar_requiredQuorum (ac_withdrawals (ah_state h) i) \<and> quorum_approved h i)"
proof -
  have init: "approval_inv (good p) (approval_init signers evs)"
    using p by (simp add: approval_inv_def approval_init_def no_approval_request_def)
  have inv: "approval_inv (good p) h"
    unfolding h by (rule run_keeps [OF p(1) init])
  obtain calls' where "simple_view h = custody_run calls' (simple_view (approval_init signers evs))"
    using run_is_simple [OF p(1) init clock] h by blast
  moreover have "simple_view (approval_init signers evs) = contract_init"
    using quiet by (simp add: simple_view_def approval_init_def contract_init_def no_approval_request_def
        simple_request_def no_request_def)
  ultimately have "custody_inv (simple_view h)"
    using custody_inv_run [OF custody_inv_init] by simp
  note simple = custody_inv_paid [OF this]
  have "0 < ar_requiredQuorum (ac_withdrawals (ah_state h) i) \<and> quorum_approved h i"
    if "(i, u, t, a) \<in> set (ah_paid h)" for i u t a
    using inv that by (auto simp: approval_inv_def)
  with simple show ?thesis
    by (simp add: simple_view_def custody_event_in del: set_concat)
qed

end

text \<open>A block for the witnesses.\<close>

definition sample_block :: "address \<Rightarrow> uint256 \<Rightarrow> approval_env" where
  "sample_block sender time =
     \<lparr>ae_sender = sender, ae_value = 0, ae_timestamp = time, ae_entered = False,
      ae_request_id = (\<lambda>user token amount nonce. ucast nonce), ae_balance = (\<lambda>_. 1000),
      ae_pull = (\<lambda>_ _. True), ae_pay = (\<lambda>_ _ _. True),
      ae_recover = (\<lambda>digest sig. if sig = ''by two'' then Some 2 else None),
      ae_add_digest = (\<lambda>_ _ nonce _. ucast nonce), ae_remove_digest = (\<lambda>_ _ nonce _. ucast nonce)\<rparr>"

end
