(* ===== verification/Quorum_Custody.thy ===== *)
theory Quorum_Custody
  imports Approval_Custody "HOL-Library.Multiset"
begin

text \<open>
  \<open>contracts/evm/src/QuorumCustody.sol\<close>: the contract keeps its signers in a list and a mapping, and
  changes them with a quorum of signatures. Its withdrawals are those of \<open>Approval_Custody\<close>, here
  with the signers of this contract: the interpretation of \<open>signer_set\<close>.
\<close>

section \<open>State and operations\<close>

record quorum_signers =
  qs_signers :: "address list"
  qs_isSigner :: "address \<Rightarrow> bool"
  qs_quorum :: u64
  qs_nonce :: uint256

type_synonym signers_result = "approval_error + (quorum_signers \<times> approval_event list)"

definition addSigner :: "address \<Rightarrow> u64 \<Rightarrow> quorum_signers \<Rightarrow> signers_result" where
  "addSigner a newQuorum s =
     (if a = 0 then Inl InvalidSigner
      else if qs_isSigner s a then Inl AlreadySigner
      else Inr (s\<lparr>qs_signers := qs_signers s @ [a], qs_isSigner := (qs_isSigner s)(a := True)\<rparr>,
                [SignerAdded a newQuorum]))"

fun addSigner_loop :: "address list \<Rightarrow> u64 \<Rightarrow> quorum_signers \<Rightarrow> signers_result" where
  "addSigner_loop [] newQuorum s = Inr (s, [])"
| "addSigner_loop (a # as) newQuorum s =
     (case addSigner a newQuorum s of
        Inl err \<Rightarrow> Inl err
      | Inr (s', evs) \<Rightarrow>
          (case addSigner_loop as newQuorum s' of
             Inl err \<Rightarrow> Inl err
           | Inr (s'', evs') \<Rightarrow> Inr (s'', evs @ evs')))"

definition quorum_constructor :: "address list \<Rightarrow> u64 \<Rightarrow> signers_result" where
  "quorum_constructor initialSigners q =
     (if initialSigners = [] then Inl EmptySignersArray
      else if \<not> (q \<noteq> 0 \<and> unat q \<le> length initialSigners) then Inl InvalidQuorum
      else
        (case addSigner_loop initialSigners q
                \<lparr>qs_signers = [], qs_isSigner = (\<lambda>_. False), qs_quorum = 0, qs_nonce = 0\<rparr> of
           Inl err \<Rightarrow> Inl err
         | Inr (s, evs) \<Rightarrow> Inr (s\<lparr>qs_quorum := q\<rparr>, evs)))"

text \<open>The loop over the signatures: the last signer, the number of valid approvals.\<close>

fun verify_loop ::
    "approval_env \<Rightarrow> quorum_signers \<Rightarrow> hash \<Rightarrow> string list \<Rightarrow> address \<Rightarrow> nat \<Rightarrow> approval_error + nat" where
  "verify_loop ae s digest [] lastSigner validApprovals = Inr validApprovals"
| "verify_loop ae s digest (sig # sigs) lastSigner validApprovals =
     (case ae_recover ae digest sig of
        None \<Rightarrow> Inl RecoverFailed
      | Some recovered \<Rightarrow>
          if \<not> recovered > lastSigner then Inl SignaturesNotSorted
          else if \<not> qs_isSigner s recovered then Inl InvalidSignature
          else if recovered = ae_sender ae then Inl SignerIsCaller
          else verify_loop ae s digest sigs recovered (validApprovals + 1))"

definition verifySignatures ::
    "approval_env \<Rightarrow> quorum_signers \<Rightarrow> hash \<Rightarrow> string list \<Rightarrow> approval_error + unit" where
  "verifySignatures ae s digest signatures =
     (case verify_loop ae s digest signatures 0 1 of
        Inl err \<Rightarrow> Inl err
      | Inr validApprovals \<Rightarrow>
          if validApprovals \<ge> unat (qs_quorum s) then Inr () else Inl InsufficientSignatures)"

definition set_quorum :: "u64 \<Rightarrow> quorum_signers \<Rightarrow> quorum_signers \<times> approval_event list" where
  "set_quorum newQuorum s =
     (if qs_quorum s \<noteq> newQuorum
      then (s\<lparr>qs_quorum := newQuorum\<rparr>, [QuorumChanged (qs_quorum s) newQuorum]) else (s, []))"

definition addSigners ::
    "approval_env \<Rightarrow> address list \<Rightarrow> u64 \<Rightarrow> uint256 \<Rightarrow> string list \<Rightarrow> quorum_signers \<Rightarrow>
     signers_result" where
  "addSigners ae newSigners newQuorum deadline signatures s =
     (if \<not> qs_isSigner s (ae_sender ae) then Inl NotSigner
      else if ae_timestamp ae > deadline then Inl DeadlineExpired
      else if newSigners = [] then Inl EmptySignersArray
      else if \<not> (newQuorum \<noteq> 0 \<and> newQuorum \<ge> qs_quorum s \<and>
                  unat newQuorum \<le> length (qs_signers s) + length newSigners) then Inl InvalidQuorum
      else
        (case verifySignatures ae s (ae_add_digest ae newSigners newQuorum (qs_nonce s) deadline)
                signatures of
           Inl err \<Rightarrow> Inl err
         | Inr _ \<Rightarrow>
             if qs_nonce s = - 1 then Inl (Base ArithmeticPanic)
             else
               (case addSigner_loop newSigners newQuorum (s\<lparr>qs_nonce := qs_nonce s + 1\<rparr>) of
                  Inl err \<Rightarrow> Inl err
                | Inr (s', evs) \<Rightarrow>
                    (case set_quorum newQuorum s' of (s'', evs') \<Rightarrow> Inr (s'', evs @ evs')))))"

text \<open>The inner loop of a removal, from index \<open>j\<close>: the last signer takes the place of \<open>a\<close>.\<close>

function removeSigner_from :: "nat \<Rightarrow> address \<Rightarrow> address list \<Rightarrow> address list" where
  "removeSigner_from j a xs =
     (if j < length xs then
        (if xs ! j = a then butlast (xs[j := xs ! (length xs - 1)]) else removeSigner_from (j + 1) a xs)
      else xs)"
  by pat_completeness auto

termination by (relation "measure (\<lambda>(j, a, xs). length xs - j)") auto

declare removeSigner_from.simps [simp del]

fun removeSigner_loop :: "address list \<Rightarrow> u64 \<Rightarrow> quorum_signers \<Rightarrow> signers_result" where
  "removeSigner_loop [] newQuorum s = Inr (s, [])"
| "removeSigner_loop (a # as) newQuorum s =
     (if \<not> qs_isSigner s a then Inl NotASigner
      else
        (case removeSigner_loop as newQuorum
                (s\<lparr>qs_isSigner := (qs_isSigner s)(a := False),
                   qs_signers := removeSigner_from 0 a (qs_signers s)\<rparr>) of
           Inl err \<Rightarrow> Inl err
         | Inr (s', evs) \<Rightarrow> Inr (s', SignerRemoved a newQuorum # evs)))"

definition removeSigners ::
    "approval_env \<Rightarrow> address list \<Rightarrow> u64 \<Rightarrow> uint256 \<Rightarrow> string list \<Rightarrow> quorum_signers \<Rightarrow>
     signers_result" where
  "removeSigners ae signersToRemove newQuorum deadline signatures s =
     (if \<not> qs_isSigner s (ae_sender ae) then Inl NotSigner
      else if ae_timestamp ae > deadline then Inl DeadlineExpired
      else if signersToRemove = [] then Inl EmptySignersArray
      else if \<not> length signersToRemove < length (qs_signers s) then Inl CannotRemoveLastSigner
      else
        (let remainingCount = length (qs_signers s) - length signersToRemove;
             minQuorum = (if unat (qs_quorum s) < remainingCount then qs_quorum s
                          else word_of_nat remainingCount) in
         if \<not> (newQuorum \<noteq> 0 \<and> newQuorum \<ge> minQuorum \<and> unat newQuorum \<le> remainingCount)
         then Inl InvalidQuorum
         else
           (case verifySignatures ae s
                   (ae_remove_digest ae signersToRemove newQuorum (qs_nonce s) deadline) signatures of
              Inl err \<Rightarrow> Inl err
            | Inr _ \<Rightarrow>
                if qs_nonce s = - 1 then Inl (Base ArithmeticPanic)
                else
                  (case removeSigner_loop signersToRemove newQuorum (s\<lparr>qs_nonce := qs_nonce s + 1\<rparr>) of
                     Inl err \<Rightarrow> Inl err
                   | Inr (s', evs) \<Rightarrow>
                       (case set_quorum newQuorum s' of (s'', evs') \<Rightarrow> Inr (s'', evs @ evs'))))))"

definition getSignerCount :: "quorum_signers \<Rightarrow> nat" where
  "getSignerCount s = length (qs_signers s)"

datatype signer_change =
    AddSigners "address list" u64 uint256 "string list"
  | RemoveSigners "address list" u64 uint256 "string list"

fun change_signers :: "approval_env \<Rightarrow> signer_change \<Rightarrow> quorum_signers \<Rightarrow> signers_result" where
  "change_signers ae (AddSigners as q deadline sigs) s = addSigners ae as q deadline sigs s"
| "change_signers ae (RemoveSigners as q deadline sigs) s = removeSigners ae as q deadline sigs s"

definition quorum_ops :: "(quorum_signers, signer_change) signer_ops" where
  "quorum_ops =
     \<lparr>so_isSigner = qs_isSigner, so_signers = qs_signers, so_quorum = qs_quorum,
      so_change = change_signers\<rparr>"

section \<open>The invariant of the signers\<close>

definition listed_ok :: "quorum_signers \<Rightarrow> bool" where
  "listed_ok s \<longleftrightarrow> distinct (qs_signers s) \<and> 0 \<notin> set (qs_signers s) \<and>
     qs_isSigner s = (\<lambda>a. a \<in> set (qs_signers s))"

definition signers_ok :: "quorum_signers \<Rightarrow> bool" where
  "signers_ok s \<longleftrightarrow> listed_ok s \<and> 0 < qs_quorum s \<and> unat (qs_quorum s) \<le> length (qs_signers s)"

lemma listed_ok_cong:
  "qs_signers s' = qs_signers s \<Longrightarrow> qs_isSigner s' = qs_isSigner s \<Longrightarrow> listed_ok s' = listed_ok s"
  by (simp add: listed_ok_def)

lemma addSigner_loop_ok:
  assumes "addSigner_loop as q s = Inr (s', evs)" "listed_ok s"
  shows "listed_ok s' \<and> qs_signers s' = qs_signers s @ as \<and> qs_quorum s' = qs_quorum s \<and>
    qs_nonce s' = qs_nonce s \<and> concat (map custody_events_of evs) = []"
  using assms
proof (induction as q s arbitrary: s' evs rule: addSigner_loop.induct)
  case (2 a as q s)
  from 2(2) obtain s1 evs1 evs2 where
    add: "addSigner a q s = Inr (s1, evs1)" and rest: "addSigner_loop as q s1 = Inr (s', evs2)" and
    evs: "evs = evs1 @ evs2"
    by (auto split: sum.splits)
  from add 2(3) have "listed_ok s1" "qs_signers s1 = qs_signers s @ [a]" "qs_quorum s1 = qs_quorum s"
      "qs_nonce s1 = qs_nonce s" "evs1 = [SignerAdded a q]"
    by (auto simp: addSigner_def listed_ok_def split: if_splits)
  with 2(1) [OF add refl rest] evs show ?case by simp
qed simp

lemma mset_swap_remove:
  assumes "j < length xs"
  shows "mset (butlast (xs[j := xs ! (length xs - 1)])) = mset xs - {#xs ! j#}"
proof -
  let ?ys = "xs[j := xs ! (length xs - 1)]"
  have ne: "xs \<noteq> []" "?ys \<noteq> []" using assms by auto
  have "last ?ys = xs ! (length xs - 1)"
    using ne assms by (simp add: last_conv_nth nth_list_update)
  moreover have "mset ?ys = add_mset (last ?ys) (mset (butlast ?ys))"
    using ne by (metis append_butlast_last_id mset_append mset_single_iff_right union_mset_add_mset_right
        add.right_neutral mset.simps)
  moreover have "mset ?ys = add_mset (xs ! (length xs - 1)) (mset xs - {#xs ! j#})"
    using assms by (simp add: mset_update)
  ultimately show ?thesis by simp
qed

lemma mset_removeSigner_from:
  "a \<notin> set (take j xs) \<Longrightarrow> mset (removeSigner_from j a xs) = mset xs - {#a#}"
proof (induction j a xs rule: removeSigner_from.induct)
  case (1 j a xs)
  show ?case
  proof (cases "j < length xs")
    case True
    then show ?thesis
      using 1 mset_swap_remove [OF True]
      by (subst removeSigner_from.simps) (auto simp: take_Suc_conv_app_nth)
  next
    case False
    with 1 show ?thesis by (subst removeSigner_from.simps) (simp add: diff_single_trivial)
  qed
qed

lemma removeSigner_from_ok:
  assumes "distinct xs" "a \<in> set xs"
  shows "distinct (removeSigner_from 0 a xs)" "set (removeSigner_from 0 a xs) = set xs - {a}"
    "length (removeSigner_from 0 a xs) = length xs - 1"
proof -
  have eq: "mset (removeSigner_from 0 a xs) = mset (remove1 a xs)"
    by (simp add: mset_removeSigner_from)
  show "distinct (removeSigner_from 0 a xs)" "set (removeSigner_from 0 a xs) = set xs - {a}"
    "length (removeSigner_from 0 a xs) = length xs - 1"
    using assms mset_eq_imp_distinct_iff [OF eq] mset_eq_setD [OF eq] mset_eq_length [OF eq]
    by (simp_all add: length_remove1)
qed

lemma removeSigner_loop_ok:
  assumes "removeSigner_loop as q s = Inr (s', evs)" "listed_ok s"
  shows "listed_ok s' \<and> length (qs_signers s) = length (qs_signers s') + length as \<and>
    set (qs_signers s') = set (qs_signers s) - set as \<and> qs_quorum s' = qs_quorum s \<and>
    qs_nonce s' = qs_nonce s \<and> concat (map custody_events_of evs) = []"
  using assms
proof (induction as q s arbitrary: s' evs rule: removeSigner_loop.induct)
  case (2 a as q s)
  let ?s = "s\<lparr>qs_isSigner := (qs_isSigner s)(a := False), qs_signers := removeSigner_from 0 a (qs_signers s)\<rparr>"
  from 2(2) obtain evs' where
    isS: "qs_isSigner s a" and rest: "removeSigner_loop as q ?s = Inr (s', evs')" and
    evs: "evs = SignerRemoved a q # evs'"
    by (auto split: sum.splits if_splits)
  have mem: "a \<in> set (qs_signers s)" and dist: "distinct (qs_signers s)"
    using isS 2(3) by (auto simp: listed_ok_def)
  note rm = removeSigner_from_ok [OF dist mem]
  have "listed_ok ?s" using rm 2(3) by (auto simp: listed_ok_def fun_eq_iff)
  moreover have "length (qs_signers s) = Suc (length (removeSigner_from 0 a (qs_signers s)))"
    using mem rm(3) by (cases "qs_signers s") auto
  ultimately show ?case using 2(1) [OF _ rest] isS rm(2) evs by auto
qed simp

lemma set_quorum_ok:
  "set_quorum q s = (s', evs) \<Longrightarrow>
    qs_signers s' = qs_signers s \<and> qs_isSigner s' = qs_isSigner s \<and> qs_quorum s' = q \<and>
    qs_nonce s' = qs_nonce s \<and> concat (map custody_events_of evs) = []"
  by (auto simp: set_quorum_def split: if_splits)


lemma addSigners_done:
  assumes "addSigners ae as q deadline sigs s = Inr (s', evs)"
  shows "qs_isSigner s (ae_sender ae)" "0 < q"
    "unat q \<le> length (qs_signers s) + length as"
    "verifySignatures ae s (ae_add_digest ae as q (qs_nonce s) deadline) sigs = Inr ()"
    "\<exists>s1 e1 e2. addSigner_loop as q (s\<lparr>qs_nonce := qs_nonce s + 1\<rparr>) = Inr (s1, e1) \<and>
       set_quorum q s1 = (s', e2) \<and> evs = e1 @ e2"
  using assms
  by (auto simp: addSigners_def word_neq_0_conv split: if_splits sum.splits prod.splits)

lemma removeSigners_done:
  assumes "removeSigners ae as q deadline sigs s = Inr (s', evs)"
  shows "qs_isSigner s (ae_sender ae)" "0 < q" "length as < length (qs_signers s)"
    "unat q \<le> length (qs_signers s) - length as"
    "verifySignatures ae s (ae_remove_digest ae as q (qs_nonce s) deadline) sigs = Inr ()"
    "\<exists>s1 e1 e2. removeSigner_loop as q (s\<lparr>qs_nonce := qs_nonce s + 1\<rparr>) = Inr (s1, e1) \<and>
       set_quorum q s1 = (s', e2) \<and> evs = e1 @ e2"
  using assms
  by (auto simp: removeSigners_def Let_def word_neq_0_conv simp del: of_nat_numeral split: if_splits sum.splits prod.splits)

lemma change_signers_ok:
  assumes "change_signers ae c s = Inr (s', evs)" "signers_ok s"
  shows "signers_ok s' \<and> qs_nonce s' = qs_nonce s + 1 \<and> concat (map custody_events_of evs) = []"
proof (cases c)
  case (AddSigners as q deadline sigs)
  with assms(1) have "addSigners ae as q deadline sigs s = Inr (s', evs)" by simp
  note d = addSigners_done [OF this]
  from d(5) obtain s1 e1 e2 where l: "addSigner_loop as q (s\<lparr>qs_nonce := qs_nonce s + 1\<rparr>) = Inr (s1, e1)"
    and q: "set_quorum q s1 = (s', e2)" "evs = e1 @ e2" by blast
  have "listed_ok (s\<lparr>qs_nonce := qs_nonce s + 1\<rparr>)" using assms(2) by (simp add: signers_ok_def listed_ok_def)
  from addSigner_loop_ok [OF l this] set_quorum_ok [OF q(1)] d(2,3) q(2) listed_ok_cong [of s' s1]
  show ?thesis by (auto simp: signers_ok_def)
next
  case (RemoveSigners as q deadline sigs)
  with assms(1) have "removeSigners ae as q deadline sigs s = Inr (s', evs)" by simp
  note d = removeSigners_done [OF this]
  from d(6) obtain s1 e1 e2 where l: "removeSigner_loop as q (s\<lparr>qs_nonce := qs_nonce s + 1\<rparr>) = Inr (s1, e1)"
    and q: "set_quorum q s1 = (s', e2)" "evs = e1 @ e2" by blast
  have "listed_ok (s\<lparr>qs_nonce := qs_nonce s + 1\<rparr>)" using assms(2) by (simp add: signers_ok_def listed_ok_def)
  from removeSigner_loop_ok [OF l this] set_quorum_ok [OF q(1)] d(2-4) q(2) listed_ok_cong [of s' s1]
  show ?thesis by (auto simp: signers_ok_def)
qed

lemma constructor_ok:
  assumes "quorum_constructor as q = Inr (s, evs)"
  shows "signers_ok s" "concat (map custody_events_of evs) = []"
proof -
  let ?s0 = "\<lparr>qs_signers = [], qs_isSigner = (\<lambda>_. False), qs_quorum = 0, qs_nonce = 0\<rparr>"
  from assms obtain s1 where q: "q \<noteq> 0" "unat q \<le> length as"
    and l: "addSigner_loop as q ?s0 = Inr (s1, evs)" and s: "s = s1\<lparr>qs_quorum := q\<rparr>"
    by (auto simp: quorum_constructor_def split: if_splits sum.splits)
  have "listed_ok ?s0" by (simp add: listed_ok_def)
  from addSigner_loop_ok [OF l this] q s listed_ok_cong [of s s1]
  show "signers_ok s" "concat (map custody_events_of evs) = []"
    by (auto simp: signers_ok_def word_neq_0_conv)
qed

section \<open>The signatures\<close>

lemma verify_loop_signers:
  assumes "verify_loop ae s digest sigs lastSigner n = Inr m"
  shows "\<exists>A. length A + n = m \<and> distinct A \<and> ae_sender ae \<notin> set A \<and>
    (\<forall>a\<in>set A. lastSigner < a \<and> qs_isSigner s a \<and> (\<exists>sig\<in>set sigs. ae_recover ae digest sig = Some a))"
  using assms
proof (induction ae s digest sigs lastSigner n rule: verify_loop.induct)
  case (1 ae s digest lastSigner n)
  then show ?case by (intro exI [of _ "[]"]) simp
next
  case (2 ae s digest sig sigs lastSigner n)
  then obtain a where a: "ae_recover ae digest sig = Some a" "lastSigner < a" "qs_isSigner s a"
      "a \<noteq> ae_sender ae" and rest: "verify_loop ae s digest sigs a (n + 1) = Inr m"
    by (auto split: option.splits if_splits)
  then obtain A where A: "length A + (n + 1) = m" "distinct A" "ae_sender ae \<notin> set A"
      "\<forall>b\<in>set A. a < b \<and> qs_isSigner s b \<and> (\<exists>sig\<in>set sigs. ae_recover ae digest sig = Some b)"
    using 2 by auto
  then show ?case using a by (intro exI [of _ "a # A"]) (auto intro: order.strict_trans)
qed

lemma verifySignatures_signers:
  assumes "verifySignatures ae s digest sigs = Inr ()" "listed_ok s" "qs_isSigner s (ae_sender ae)"
  shows "\<exists>A. distinct A \<and> unat (qs_quorum s) \<le> length A \<and> set A \<subseteq> set (qs_signers s) \<and>
    ae_sender ae \<in> set A \<and>
    (\<forall>a\<in>set A. a = ae_sender ae \<or> (\<exists>sig\<in>set sigs. ae_recover ae digest sig = Some a))"
proof -
  from assms(1) obtain m where "verify_loop ae s digest sigs 0 1 = Inr m" "unat (qs_quorum s) \<le> m"
    by (auto simp: verifySignatures_def split: sum.splits if_splits)
  from verify_loop_signers [OF this(1)] obtain A where "length A + 1 = m" "distinct A" "ae_sender ae \<notin> set A"
      "\<forall>a\<in>set A. qs_isSigner s a \<and> (\<exists>sig\<in>set sigs. ae_recover ae digest sig = Some a)"
    by auto
  then show ?thesis using assms(2,3) \<open>unat (qs_quorum s) \<le> m\<close>
    by (intro exI [of _ "ae_sender ae # A"]) (auto simp: listed_ok_def)
qed

section \<open>The contract as an instance\<close>

interpretation quorum: signer_set "\<lambda>_::unit. quorum_ops" "\<lambda>_. True" "\<lambda>_. signers_ok"
  by unfold_locales
    (auto simp: quorum_ops_def signers_ok_def listed_ok_def dest: change_signers_ok)


lemma quorum_ops_isSigner: "so_isSigner quorum_ops = qs_isSigner"
  by (simp add: quorum_ops_def)

lemmas quorum_paid = quorum.quorum_pays [OF TrueI, unfolded quorum_ops_isSigner]

lemma quorum_reachable_ok:
  assumes "quorum_constructor initialSigners q = Inr (signers, evs)"
    "h = approval_run quorum_ops calls (approval_init signers evs)"
  shows "signers_ok (ac_signers (ah_state h))"
proof -
  have "approval_inv signers_ok (approval_init signers evs)"
    using constructor_ok [OF assms(1)] by (simp add: approval_inv_def approval_init_def no_approval_request_def)
  from quorum.run_keeps [OF TrueI this] show ?thesis
    by (simp add: assms(2) approval_inv_def)
qed

section \<open>Who approves was made a signer\<close>

definition announced :: "approval_event list \<Rightarrow> address \<Rightarrow> bool" where
  "announced evs a \<longleftrightarrow> (\<exists>q. SignerAdded a q \<in> set evs)"

lemma announced_append [simp]: "announced (evs @ evs') a \<longleftrightarrow> announced evs a \<or> announced evs' a"
  by (auto simp: announced_def)

lemma addSigner_loop_announces:
  assumes "addSigner_loop as q s = Inr (s', evs)"
  shows "(qs_isSigner s' a \<longrightarrow> qs_isSigner s a \<or> announced evs a) \<and> \<not> approved_by evs i a"
  using assms
proof (induction as q s arbitrary: s' evs rule: addSigner_loop.induct)
  case (2 b as q s)
  from 2(2) obtain s1 evs1 evs2 where
    add: "addSigner b q s = Inr (s1, evs1)" and rest: "addSigner_loop as q s1 = Inr (s', evs2)" and
    evs: "evs = evs1 @ evs2"
    by (auto split: sum.splits)
  from add have "s1 = s\<lparr>qs_signers := qs_signers s @ [b], qs_isSigner := (qs_isSigner s)(b := True)\<rparr>"
      "evs1 = [SignerAdded b q]"
    by (auto simp: addSigner_def split: if_splits)
  with 2(1) [OF add refl rest] evs show ?case
    by (auto simp: announced_def approved_by_def split: if_splits)
qed (simp add: approved_by_def)

lemma removeSigner_loop_announces:
  assumes "removeSigner_loop as q s = Inr (s', evs)"
  shows "(qs_isSigner s' a \<longrightarrow> qs_isSigner s a) \<and> \<not> approved_by evs i a"
  using assms
proof (induction as q s arbitrary: s' evs rule: removeSigner_loop.induct)
  case (2 b as q s)
  from 2(2) obtain evs' where isS: "qs_isSigner s b" and
    rest: "removeSigner_loop as q (s\<lparr>qs_isSigner := (qs_isSigner s)(b := False),
      qs_signers := removeSigner_from 0 b (qs_signers s)\<rparr>) = Inr (s', evs')" and
    evs: "evs = SignerRemoved b q # evs'"
    by (auto split: sum.splits if_splits)
  have "\<not> \<not> qs_isSigner s b" using isS by simp
  from 2(1) [OF this rest] evs show ?case by (auto simp: approved_by_def split: if_splits)
qed (simp add: approved_by_def)

lemma set_quorum_announces:
  "set_quorum q s = (s', evs) \<Longrightarrow> qs_isSigner s' = qs_isSigner s \<and> \<not> approved_by evs i a"
  by (auto simp: set_quorum_def approved_by_def split: if_splits)

lemma change_announces:
  assumes "change_signers ae c s = Inr (s', evs)"
  shows "(qs_isSigner s' a \<longrightarrow> qs_isSigner s a \<or> announced evs a) \<and> \<not> approved_by evs i a"
proof (cases c)
  case (AddSigners as q deadline sigs)
  with assms have "addSigners ae as q deadline sigs s = Inr (s', evs)" by simp
  from addSigners_done(5) [OF this] obtain s1 e1 e2 where
    l: "addSigner_loop as q (s\<lparr>qs_nonce := qs_nonce s + 1\<rparr>) = Inr (s1, e1)"
    and q: "set_quorum q s1 = (s', e2)" "evs = e1 @ e2" by blast
  from addSigner_loop_announces [OF l, of a i] set_quorum_announces [OF q(1), of i a] q(2) show ?thesis by auto
next
  case (RemoveSigners as q deadline sigs)
  with assms have "removeSigners ae as q deadline sigs s = Inr (s', evs)" by simp
  from removeSigners_done(6) [OF this] obtain s1 e1 e2 where
    l: "removeSigner_loop as q (s\<lparr>qs_nonce := qs_nonce s + 1\<rparr>) = Inr (s1, e1)"
    and q: "set_quorum q s1 = (s', e2)" "evs = e1 @ e2" by blast
  from removeSigner_loop_announces [OF l, of a i] set_quorum_announces [OF q(1), of i a] q(2) show ?thesis by simp
qed

definition signers_announced :: "quorum_signers approval_chain \<Rightarrow> bool" where
  "signers_announced h \<longleftrightarrow>
     (\<forall>a. qs_isSigner (ac_signers (ah_state h)) a \<longrightarrow> announced (ah_events h) a) \<and>
     (\<forall>i a. approved_by (ah_events h) i a \<longrightarrow> announced (ah_events h) a)"

lemma apply_announces:
  assumes h: "signers_announced h"
  shows "signers_announced (approval_apply quorum_ops ae call h)"
proof (cases "approval_exec quorum_ops ae call (ah_state h)")
  case (Inl err)
  then show ?thesis using h by (simp add: approval_apply_def)
next
  case (Inr r)
  obtain s' evs pays where r: "r = (s', evs, pays)" by (cases r)
  have "(qs_isSigner (ac_signers s') a \<longrightarrow> qs_isSigner (ac_signers (ah_state h)) a \<or> announced evs a) \<and>
      (approved_by evs i a \<longrightarrow> qs_isSigner (ac_signers (ah_state h)) a)" for i a
  proof (cases call)
    case (ADeposit token amount)
    then show ?thesis
      using deposit_done [of ae token amount "ah_state h" s' evs pays] Inr r by (auto simp: approved_by_def)
  next
    case (AStart user token amount nonce)
    then show ?thesis
      using start_done [of quorum_ops ae user token amount nonce "ah_state h" s' evs pays] Inr r
      by (auto simp: approved_by_def)
  next
    case (AFinalize j)
    with Inr r have "approval_finalizeWithdraw quorum_ops ae j (ah_state h) = Inr (s', evs, pays)" by simp
    from finalize_done(3) [OF this] finalize_signer [OF this] show ?thesis
      by (auto simp: approved_by_def quorum_ops_isSigner)
  next
    case (AReject j)
    then show ?thesis
      using reject_done [of quorum_ops ae j "ah_state h" s' evs pays] Inr r by (auto simp: approved_by_def)
  next
    case (AChange c)
    then show ?thesis
      using Inr r change_announces [of ae c "ac_signers (ah_state h)" _ evs a i]
      by (auto simp: quorum_ops_def split: sum.splits)
  qed
  then show ?thesis
    using h by (auto simp: approval_apply_def Inr r signers_announced_def)
qed

lemma run_announces:
  "signers_announced h \<Longrightarrow> signers_announced (approval_run quorum_ops calls h)"
  by (induction quorum_ops calls h rule: approval_run.induct) (simp_all add: apply_announces)

lemma constructor_announces:
  assumes "quorum_constructor as q = Inr (s, evs)"
  shows "signers_announced (approval_init s evs)"
proof -
  let ?s0 = "\<lparr>qs_signers = [], qs_isSigner = (\<lambda>_. False), qs_quorum = 0, qs_nonce = 0\<rparr>"
  from assms obtain s1 where l: "addSigner_loop as q ?s0 = Inr (s1, evs)" and s: "s = s1\<lparr>qs_quorum := q\<rparr>"
    by (auto simp: quorum_constructor_def split: if_splits sum.splits)
  from addSigner_loop_announces [OF l] s show ?thesis
    by (auto simp: signers_announced_def approval_init_def)
qed

section \<open>Properties\<close>

text \<open>
  C8: over any calls by anyone after the constructor, \<open>QuorumCustody\<close> pays a request at most once, to
  the user and in the amount requested, never after a reject, and only when as many different
  addresses as the quorum was at the request have approved it, all of which were made signers.
\<close>

theorem quorum_custody_pays_with_quorum:
  assumes "quorum_constructor initialSigners q = Inr (signers, evs)"
    "\<forall>(ae, c) \<in> set calls. clocked ae"
    "h = approval_run quorum_ops calls (approval_init signers evs)"
  shows "distinct (map fst (ah_paid h)) \<and>
    (\<forall>i u t a. (i, u, t, a) \<in> set (ah_paid h) \<longrightarrow>
       (\<exists>n. CustodyEvent (WithdrawStarted i u t a n) \<in> set (ah_events h)) \<and>
       CustodyEvent (WithdrawFinalized i False) \<notin> set (ah_events h) \<and>
       0 < ar_requiredQuorum (ac_withdrawals (ah_state h) i) \<and> quorum_approved h i) \<and>
    (\<forall>i x. approved_by (ah_events h) i x \<longrightarrow> announced (ah_events h) x)"
proof -
  have "signers_announced h"
    unfolding assms(3) by (rule run_announces [OF constructor_announces [OF assms(1)]])
  then have "\<forall>i x. approved_by (ah_events h) i x \<longrightarrow> announced (ah_events h) x"
    by (simp add: signers_announced_def)
  with quorum.paid_with_quorum [OF TrueI constructor_ok [OF assms(1)] assms(2,3)] show ?thesis by blast
qed

definition sample_signers :: quorum_signers where
  "sample_signers =
     \<lparr>qs_signers = [1, 2, 3], qs_isSigner = (\<lambda>_. False)(1 := True, 2 := True, 3 := True), qs_quorum = 2,
      qs_nonce = 0\<rparr>"

definition sample_added :: "approval_event list" where
  "sample_added = [SignerAdded 1 2, SignerAdded 2 2, SignerAdded 3 2]"

lemma sample_constructor: "quorum_constructor [1, 2, 3] 2 = Inr (sample_signers, sample_added)"
  by (simp add: quorum_constructor_def addSigner_def sample_signers_def sample_added_def)

definition sample_request_calls :: "(approval_env \<times> signer_change approval_call) list" where
  "sample_request_calls = [(sample_block 1 100, AStart 7 5 120 4), (sample_block 9 101, AFinalize 4)]"

text \<open>The state then: the call of an address that is no signer has done nothing.\<close>

definition sample_requested :: "quorum_signers approval_chain" where
  "sample_requested =
     \<lparr>ah_state = \<lparr>ac_withdrawals = (\<lambda>_. no_approval_request)(4 :=
        \<lparr>ar_user = 7, ar_token = 5, ar_amount = 120, ar_finalized = False, ar_createdAt = 100,
         ar_requiredQuorum = 2\<rparr>), ac_approvals = (\<lambda>_ _. False), ac_signers = sample_signers\<rparr>,
      ah_events = sample_added @ [CustodyEvent (WithdrawStarted 4 7 5 120 4)], ah_paid = []\<rparr>"

lemma sample_requested_run:
  "sample_requested = approval_run quorum_ops sample_request_calls (approval_init sample_signers sample_added)"
  by (simp add: sample_request_calls_def sample_block_def sample_signers_def sample_requested_def
      approval_init_def no_approval_request_def approval_apply_def approval_startWithdraw_def
      approval_finalizeWithdraw_def quorum_ops_def)

lemma sample_requested_simps:
  "ac_withdrawals (ah_state sample_requested) 4 = \<lparr>ar_user = 7, ar_token = 5, ar_amount = 120,
     ar_finalized = False, ar_createdAt = 100, ar_requiredQuorum = 2\<rparr>"
  "ac_approvals (ah_state sample_requested) = (\<lambda>_ _. False)"
  "ac_signers (ah_state sample_requested) = sample_signers" "ah_paid sample_requested = []"
  by (simp_all add: sample_requested_def)

definition sample_approvers :: "approval_env list" where
  "sample_approvers = [sample_block 2 3000, sample_block 3 3700]"

lemma sample_can_pay:
  "is_open (ah_state sample_requested) 4" "distinct (map ae_sender sample_approvers)" "sample_approvers \<noteq> []"
  "\<forall>ae\<in>set sample_approvers. can_pay (ah_state sample_requested) 4 ae \<and>
     qs_isSigner (ac_signers (ah_state sample_requested)) (ae_sender ae) \<and>
     \<not> ac_approvals (ah_state sample_requested) 4 (ae_sender ae)"
  "countValidApprovals quorum_ops (ah_state sample_requested) 4 + length sample_approvers =
     unat (ar_requiredQuorum (ac_withdrawals (ah_state sample_requested) 4))"
  by (simp_all add: sample_requested_simps sample_approvers_def is_open_def can_pay_def countValidApprovals_def
      sample_block_def sample_signers_def OPERATION_EXPIRY_def word_le_nat_alt)

definition sample_quorum_calls :: "(approval_env \<times> signer_change approval_call) list" where
  "sample_quorum_calls = sample_request_calls @ map (\<lambda>ae. (ae, AFinalize 4)) sample_approvers"

lemma approval_run_append: "approval_run ops (calls @ calls') h = approval_run ops calls' (approval_run ops calls h)"
  by (induction ops calls h rule: approval_run.induct) simp_all

lemma quorum_custody_pays_with_quorum_witness:
  "\<exists>h. h = approval_run quorum_ops sample_quorum_calls (approval_init sample_signers sample_added) \<and>
    ah_paid h = [(4, 7, 5, 120)] \<and> quorum_approved h 4"
proof -
  let ?h = "approval_run quorum_ops sample_quorum_calls (approval_init sample_signers sample_added)"
  have "ah_paid (approval_run quorum_ops (map (\<lambda>ae. (ae, AFinalize 4)) sample_approvers) sample_requested) =
      [(4, 7, 5, 120)]"
    using quorum_paid [OF quorum_reachable_ok [OF sample_constructor sample_requested_run]
        sample_can_pay(1,2,4,3,5)]
    by (simp add: sample_requested_simps)
  then have paid: "ah_paid ?h = [(4, 7, 5, 120)]"
    unfolding sample_quorum_calls_def approval_run_append sample_requested_run .
  have "\<forall>(ae, c) \<in> set sample_quorum_calls. clocked ae"
    by (simp add: sample_quorum_calls_def sample_request_calls_def sample_approvers_def clocked_def
        sample_block_def)
  from quorum_custody_pays_with_quorum [OF sample_constructor this refl] paid show ?thesis by auto
qed

text \<open>
  C16: over any calls by anyone after the constructor, the signers of \<open>QuorumCustody\<close> are listed once
  each, exactly those its mapping says, the zero address is none of them, and the quorum is at least
  one and never more than there are signers: no change of signers can lock the contract.
\<close>

theorem quorum_signers_stay_sound:
  assumes "quorum_constructor initialSigners q = Inr (signers, evs)"
    "s = ac_signers (ah_state (approval_run quorum_ops calls (approval_init signers evs)))"
  shows "distinct (qs_signers s) \<and> 0 \<notin> set (qs_signers s) \<and>
    (\<forall>a. qs_isSigner s a = (a \<in> set (qs_signers s))) \<and>
    1 \<le> unat (qs_quorum s) \<and> unat (qs_quorum s) \<le> getSignerCount s"
  using quorum_reachable_ok [OF assms(1) refl, of calls] unfolding assms(2) [symmetric]
  by (auto simp: signers_ok_def listed_ok_def getSignerCount_def word_less_nat_alt)

lemma quorum_signers_stay_sound_witness:
  "\<exists>s. s = ac_signers (ah_state (approval_run quorum_ops
      [(sample_block 1 100, AChange (RemoveSigners [1] 2 200 [''by two'']))] (approval_init sample_signers sample_added))) \<and>
    qs_signers s = [3, 2] \<and> unat (qs_quorum s) \<le> getSignerCount s"
proof -
  let ?s = "ac_signers (ah_state (approval_run quorum_ops
      [(sample_block 1 100, AChange (RemoveSigners [1] 2 200 [''by two'']))] (approval_init sample_signers sample_added)))"
  have "qs_signers ?s = [3, 2]"
    by (simp add: approval_init_def approval_apply_def quorum_ops_def removeSigners_def sample_signers_def
        sample_block_def verifySignatures_def set_quorum_def removeSigner_from.simps)
  with quorum_signers_stay_sound [OF sample_constructor refl,
      of "[(sample_block 1 100, AChange (RemoveSigners [1] 2 200 [''by two'']))]"]
  show ?thesis by blast
qed

text \<open>The digest a change of signers is signed with, and the signatures it brings.\<close>

fun change_digest :: "approval_env \<Rightarrow> signer_change \<Rightarrow> quorum_signers \<Rightarrow> hash" where
  "change_digest ae (AddSigners as q deadline sigs) s = ae_add_digest ae as q (qs_nonce s) deadline"
| "change_digest ae (RemoveSigners as q deadline sigs) s = ae_remove_digest ae as q (qs_nonce s) deadline"

fun change_signatures :: "signer_change \<Rightarrow> string list" where
  "change_signatures (AddSigners as q deadline sigs) = sigs"
| "change_signatures (RemoveSigners as q deadline sigs) = sigs"

text \<open>
  C15: whenever a change of signers succeeds in \<open>QuorumCustody\<close>, as many different signers as the
  quorum stand behind it: the sender, and others whose signatures of this very change came with it.
  The nonce in what they signed is then used up, so that the signatures serve once.
\<close>

theorem signer_change_needs_quorum:
  assumes "quorum_constructor initialSigners q = Inr (signers, evs)"
    "s = ac_signers (ah_state (approval_run quorum_ops calls (approval_init signers evs)))"
    "change_signers ae c s = Inr (s', evs')"
  shows "(\<exists>A. distinct A \<and> unat (qs_quorum s) \<le> length A \<and> set A \<subseteq> set (qs_signers s) \<and>
      ae_sender ae \<in> set A \<and>
      (\<forall>a\<in>set A. a = ae_sender ae \<or>
         (\<exists>sig\<in>set (change_signatures c). ae_recover ae (change_digest ae c s) sig = Some a))) \<and>
    qs_nonce s' = qs_nonce s + 1"
proof -
  have ok: "signers_ok s" using quorum_reachable_ok [OF assms(1) refl, of calls] assms(2) by simp
  have "verifySignatures ae s (change_digest ae c s) (change_signatures c) = Inr () \<and>
      qs_isSigner s (ae_sender ae)"
    using assms(3) by (cases c) (auto dest: addSigners_done removeSigners_done)
  with verifySignatures_signers ok change_signers_ok [OF assms(3) ok] show ?thesis
    by (auto simp: signers_ok_def)
qed

lemma signer_change_needs_quorum_witness:
  "\<exists>A. distinct A \<and> 2 \<le> length A \<and> set A \<subseteq> {1, 2, 3::address} \<and> 1 \<in> set A"
proof -
  let ?c = "AddSigners [8] 3 200 [''by two'']"
  let ?s = "ac_signers (ah_state (approval_run quorum_ops [] (approval_init sample_signers sample_added)))"
  have s: "?s = sample_signers" by (simp add: approval_init_def)
  have "\<exists>s' evs'. change_signers (sample_block 1 100) ?c ?s = Inr (s', evs')"
    unfolding s by (simp add: addSigners_def sample_signers_def sample_block_def verifySignatures_def addSigner_def
        split: prod.split)
  then obtain s' evs' where "change_signers (sample_block 1 100) ?c ?s = Inr (s', evs')" by blast
  from signer_change_needs_quorum [OF sample_constructor refl this] show ?thesis
    unfolding s by (auto simp: sample_signers_def sample_block_def)
qed

text \<open>
  C17: the quorum is enough: in any state of \<open>QuorumCustody\<close> and for any open request with approvals
  missing, as many further signers as are missing finalize it by calling within the hour, one after
  the other; the last call pays it, if the contract has the amount and the receiver takes it.
\<close>

theorem quorum_of_signers_pays:
  assumes "quorum_constructor initialSigners q = Inr (signers, evs)"
    "h = approval_run quorum_ops calls (approval_init signers evs)"
    "is_open (ah_state h) i" "distinct (map ae_sender aes)" "aes \<noteq> []"
    "\<forall>ae\<in>set aes. can_pay (ah_state h) i ae \<and> qs_isSigner (ac_signers (ah_state h)) (ae_sender ae) \<and>
      \<not> ac_approvals (ah_state h) i (ae_sender ae)"
    "countValidApprovals quorum_ops (ah_state h) i + length aes =
      unat (ar_requiredQuorum (ac_withdrawals (ah_state h) i))"
  shows "ah_paid (approval_run quorum_ops (map (\<lambda>ae. (ae, AFinalize i)) aes) h) = ah_paid h @
    [(i, ar_user (ac_withdrawals (ah_state h) i), ar_token (ac_withdrawals (ah_state h) i),
      ar_amount (ac_withdrawals (ah_state h) i))]"
  by (rule quorum_paid [OF quorum_reachable_ok [OF assms(1,2)] assms(3,4,6,5,7)])

lemma quorum_of_signers_pays_witness:
  "ah_paid (approval_run quorum_ops (map (\<lambda>ae. (ae, AFinalize 4)) sample_approvers) sample_requested) =
   [(4, 7, 5, 120)]"
  using quorum_of_signers_pays [OF sample_constructor sample_requested_run sample_can_pay(1-3)
      sample_can_pay(4,5)]
  by (simp add: sample_requested_simps)

end
