(* ===== verification/Quorum_Service.thy ===== *)
theory Quorum_Service
  imports Quorum_Custody World
begin

text \<open>
  The service in front of \<open>QuorumCustody\<close>, which offers the functions and events the service is
  written for and for which the repository has deployment instructions. The service takes a
  transaction that was mined as the end of a withdrawal; for this contract it is one approval of
  several.
\<close>

fun approval_tx :: "sent_tx \<Rightarrow> signer_change approval_call" where
  "approval_tx (SentFinalize i tx) = AFinalize i"
| "approval_tx (SentReject i tx) = AReject i"

text \<open>The service handles an event and the contract executes what it sends.\<close>

definition serve_quorum ::
    "geth \<Rightarrow> db checker \<Rightarrow> step_env \<Rightarrow> withdraw_started_event \<Rightarrow> approval_env \<Rightarrow>
     svc_state \<times> quorum_signers approval_chain \<Rightarrow> svc_state \<times> quorum_signers approval_chain" where
  "serve_quorum G c env event ae w =
     (let st' = processWithdrawal G c env event (fst w)
      in (st', approval_run quorum_ops (map (\<lambda>tx. (ae, approval_tx tx)) (new_txs (fst w) st')) (snd w)))"

text \<open>Both transactions can be sent, are mined, and the receipt says whether the call succeeded.\<close>

definition quorum_receipts ::
    "step_env \<Rightarrow> withdraw_started_event \<Rightarrow> approval_env \<Rightarrow> quorum_signers approval_chain \<Rightarrow> bool" where
  "quorum_receipts env event ae h \<longleftrightarrow>
     (let i = ws_WithdrawalID event in
      \<exists>txf txr rcf rcr.
        FinalizeWithdraw (env_contract env) (env_auth env) i = Inr txf \<and> env_wait_mined env txf = Inr rcf \<and>
        RejectWithdraw (env_contract env) (env_auth env) i = Inr txr \<and> env_wait_mined env txr = Inr rcr \<and>
        (rc_Status rcf = 1 \<longleftrightarrow> \<not> isl (approval_finalizeWithdraw quorum_ops ae i (ah_state h))) \<and>
        (rc_Status rcr = 1 \<longleftrightarrow> \<not> isl (approval_rejectWithdraw quorum_ops ae i (ah_state h))))"

text \<open>
  C14: with a quorum of two or more, the service's books part from \<open>QuorumCustody\<close> at every event it
  handles in time: the contract pays nothing and the request stays open, for other signers to pay
  it, but the service has entered an allowed withdrawal into its ledger and recorded it as approved,
  and recorded a blocked one as rejected, although within the hour its reject reverts.
\<close>

theorem quorum_books_diverge:
  assumes "gorm_ok (env_gorm env)" "faultless (env_gorm env)" "fresh_id G event (st_db st)"
    and "i = ws_WithdrawalID event" "is_open (ah_state h) i" "can_pay (ah_state h) i ae"
    and "qs_isSigner (ac_signers (ah_state h)) (ae_sender ae)" "\<not> ac_approvals (ah_state h) i (ae_sender ae)"
    and "countValidApprovals quorum_ops (approve ae i (ah_state h)) i <
      unat (ar_requiredQuorum (ac_withdrawals (ah_state h) i))"
    and "quorum_receipts env event ae h"
    and "v = Check G (step_checker G c env) (now_global env) (now_user env)
      (ws_User event) (ws_Token event) (ws_Amount event) (st_db st)"
    and "(st', h') = serve_quorum G c env event ae (st, h)"
  shows "ah_paid h' = ah_paid h \<and> is_open (ah_state h') i \<and>
    (\<exists>ev. events (st_db st') = events (st_db st) @ [ev] \<and> we_WithdrawalID ev = hash_hex G i \<and>
       we_Decision ev = (if v = None then ''approved'' else ''rejected'')) \<and>
    (\<exists>tx rc. withdrawals (st_db st') = withdrawals (st_db st) @
       (if v = None then [to_model G (withdrawal_record env event tx rc)] else []))"
proof -
  from assms(10) obtain txf txr rcf rcr where
    sends: "FinalizeWithdraw (env_contract env) (env_auth env) i = Inr txf" "env_wait_mined env txf = Inr rcf"
      "RejectWithdraw (env_contract env) (env_auth env) i = Inr txr" "env_wait_mined env txr = Inr rcr" and
    status: "rc_Status rcf = 1 \<longleftrightarrow> \<not> isl (approval_finalizeWithdraw quorum_ops ae i (ah_state h))"
    by (auto simp: quorum_receipts_def Let_def assms(4))
  note approves = finalize_approves [where ops = quorum_ops, unfolded quorum_ops_isSigner, OF assms(7,5,6,8,9)]
  have reverts: "approval_rejectWithdraw quorum_ops ae i (ah_state h) = Inl WithdrawalNotExpired"
    using assms(5-7)
    by (simp add: approval_rejectWithdraw_def quorum_ops_isSigner is_open_def can_pay_def Let_def)
  have out: "outcome env event v = (if v = None
      then (''approved'', [SentFinalize i txf], Some (withdrawal_record env event txf rcf))
      else (''rejected'', [SentReject i txr], None))"
    using sends status approves by (auto simp: outcome_def Let_def assms(4) [symmetric] split: option.split)
  have st': "st' = processWithdrawal G c env event st"
    and h': "h' = approval_run quorum_ops (map (\<lambda>tx. (ae, approval_tx tx)) (new_txs st st')) h"
    using assms(12) by (simp_all add: serve_quorum_def Let_def)
  note booked = process_handled [OF assms(1-3), of c, folded assms(11) st', unfolded out]
  have "new_txs st st' = (if v = None then [SentFinalize i txf] else [SentReject i txr])"
    using booked by (auto simp: handled_def new_txs_def split: if_splits)
  then have "ah_paid h' = ah_paid h \<and> is_open (ah_state h') i"
    using approves reverts assms(5) by (auto simp: h' approval_apply_def)
  then show ?thesis
    using booked by (auto simp: handled_def ledger_rows_def assms(4) split: if_splits)
qed


definition quorum_env :: step_env where
  "quorum_env = (sample_env sql_engine 10)
     \<lparr>env_contract := sample_contract\<lparr>Transact :=
        (\<lambda>_ m _. Inr \<lparr>tx_Hash = (if m = ''finalizeWithdraw'' then 5 else 6)\<rparr>)\<rparr>,
      env_wait_mined :=
        (\<lambda>tx. Inr \<lparr>rc_Status = (if tx_Hash tx = 5 then 1 else 0), rc_BlockNumber = 22\<rparr>)\<rparr>"

lemma quorum_env_simps [simp]:
  "env_gorm quorum_env = sql_engine" "now_global quorum_env = 10" "now_user quorum_env = 10"
  "step_checker G c quorum_env = step_checker G c (sample_env sql_engine 10)"
  by (simp_all add: quorum_env_def step_checker_def)

lemma sample_first_approval:
  "countValidApprovals quorum_ops (approve (sample_block 2 3000) 4 (ah_state sample_requested)) 4 <
    unat (ar_requiredQuorum (ac_withdrawals (ah_state sample_requested) 4))"
  "can_pay (ah_state sample_requested) 4 (sample_block 2 3000)"
  "qs_isSigner (ac_signers (ah_state sample_requested)) (ae_sender (sample_block 2 3000))"
  "\<not> ac_approvals (ah_state sample_requested) 4 (ae_sender (sample_block 2 3000))"
  using sample_can_pay(4)
  by (simp_all add: sample_approvers_def countValidApprovals_def sample_requested_simps quorum_ops_def
      sample_signers_def sample_block_def)

lemma sample_receipts:
  "quorum_receipts quorum_env (sample_started 4 120) (sample_block 2 3000) sample_requested"
proof -
  have "approval_finalizeWithdraw quorum_ops (sample_block 2 3000) 4 (ah_state sample_requested) \<noteq> Inl err" for err
    using finalize_approves [where ops = quorum_ops, unfolded quorum_ops_isSigner,
        OF sample_first_approval(3) sample_can_pay(1) sample_first_approval(2,4,1)]
    by simp
  moreover have "approval_rejectWithdraw quorum_ops (sample_block 2 3000) 4 (ah_state sample_requested) =
      Inl WithdrawalNotExpired"
    using sample_first_approval(3)
    by (simp add: approval_rejectWithdraw_def quorum_ops_isSigner sample_requested_simps sample_block_def
        OPERATION_EXPIRY_def)
  ultimately show ?thesis
    by (auto simp: quorum_receipts_def quorum_env_def sample_started_def FinalizeWithdraw_def
        RejectWithdraw_def Let_def isl_def)
qed

lemma quorum_books_diverge_witness:
  "\<exists>st' h'. (st', h') = serve_quorum plain_geth sample_checker quorum_env (sample_started 4 120)
       (sample_block 2 3000) (new_state empty_db, sample_requested) \<and>
     ah_paid h' = [] \<and> length (withdrawals (st_db st')) = 1"
proof -
  obtain st' h' where run: "(st', h') = serve_quorum plain_geth sample_checker quorum_env (sample_started 4 120)
      (sample_block 2 3000) (new_state empty_db, sample_requested)"
    by (metis surj_pair)
  have fresh: "fresh_id plain_geth (sample_started 4 120) (st_db (new_state empty_db))"
    by (simp add: fresh_id_def empty_db_def)
  have i: "4 = ws_WithdrawalID (sample_started 4 120)" by (simp add: sample_started_def)
  have E: "gorm_ok (env_gorm quorum_env)" "faultless (env_gorm quorum_env)" by simp_all
  have passes: "Check plain_geth (step_checker plain_geth sample_checker quorum_env) (now_global quorum_env)
      (now_user quorum_env) (ws_User (sample_started 4 120)) (ws_Token (sample_started 4 120))
      (ws_Amount (sample_started 4 120)) (st_db (new_state empty_db)) = None"
    using sample_check_passes [of 10] by (simp add: sample_started_def)
  have "withdrawals (st_db (new_state empty_db)) = []" by (simp add: empty_db_def)
  then have "ah_paid h' = ah_paid sample_requested \<and> length (withdrawals (st_db st')) = 1"
    using quorum_books_diverge [OF E fresh i sample_can_pay(1) sample_first_approval(2,3,4,1) sample_receipts
        passes [symmetric] run]
    by auto
  with run show ?thesis by (auto simp: sample_requested_simps)
qed

end
