(* ===== verification/Threshold_Custody.thy ===== *)
theory Threshold_Custody
  imports Approval_Custody
begin

text \<open>
  \<open>contracts/evm/src/ThresholdCustody.sol\<close>: the withdrawals of \<open>Approval_Custody\<close> with the signers of
  OpenZeppelin's \<open>MultiSignerERC7913\<close>. That library is not under \<open>src/\<close>: the record \<open>multisigner\<close> is
  what the contract calls of it, and \<open>lawful_multisigner\<close> what the contract relies on.
\<close>

section \<open>Addresses as bytes\<close>

type_synonym bytes = "8 word list"

definition toBytes :: "address \<Rightarrow> bytes" where
  "toBytes a = map (\<lambda>k. word_of_nat (unat a div 256 ^ (19 - k))) [0..<20]"

definition toAddressBytesArray :: "address list \<Rightarrow> bytes list" where
  "toAddressBytesArray addrs = map toBytes addrs"

text \<open>\<open>bytes20\<close> takes the first 20 bytes and pads with zeros.\<close>

definition bytesToAddress :: "bytes \<Rightarrow> address" where
  "bytesToAddress b =
     word_of_nat (foldl (\<lambda>acc x. acc * 256 + unat x) 0 (take 20 (b @ replicate 20 0)))"

lemma digits_value:
  fixes x :: nat
  shows "foldl (\<lambda>acc d. acc * 256 + d) 0 (map (\<lambda>k. x div 256 ^ (n - 1 - k) mod 256) [0..<n]) = x mod 256 ^ n"
proof (induction n arbitrary: x)
  case (Suc n)
  have low: "map (\<lambda>k. x div 256 ^ (Suc n - 1 - k) mod 256) [0..<n] =
      map (\<lambda>k. x div 256 div 256 ^ (n - 1 - k) mod 256) [0..<n]"
  proof (rule map_cong [OF refl])
    fix k assume "k \<in> set [0..<n]"
    then have "Suc n - 1 - k = Suc (n - 1 - k)" by auto
    then show "x div 256 ^ (Suc n - 1 - k) mod 256 = x div 256 div 256 ^ (n - 1 - k) mod 256"
      by (simp add: div_mult2_eq)
  qed
  have "foldl (\<lambda>acc d. acc * 256 + d) 0 (map (\<lambda>k. x div 256 ^ (Suc n - 1 - k) mod 256) [0..<Suc n]) =
      foldl (\<lambda>acc d. acc * 256 + d) 0 (map (\<lambda>k. x div 256 ^ (Suc n - 1 - k) mod 256) [0..<n]) * 256 + x mod 256"
    by simp
  also have "\<dots> = (x div 256 mod 256 ^ n) * 256 + x mod 256"
    unfolding low Suc.IH ..
  also have "\<dots> = x mod 256 ^ Suc n"
    by (simp add: mod_mult2_eq mult.commute)
  finally show ?case .
qed simp

lemma foldl_unat:
  "foldl (\<lambda>acc x. acc * 256 + unat x) n (b :: bytes) = foldl (\<lambda>acc d. acc * 256 + d) n (map unat b)"
  by (induction b arbitrary: n) simp_all

lemma bytes_roundtrip [simp]: "bytesToAddress (toBytes a) = a"
proof -
  have "map unat (toBytes a) = map (\<lambda>k. unat a div 256 ^ (20 - 1 - k) mod 256) [0..<20]"
    by (simp add: toBytes_def unat_of_nat)
  moreover have "take 20 (toBytes a @ replicate 20 0) = toBytes a"
    by (simp add: toBytes_def)
  moreover have "unat a mod 256 ^ 20 = unat a"
    using unsigned_less [of a, where ?'a = nat] by simp
  ultimately show ?thesis
    by (simp only: bytesToAddress_def foldl_unat digits_value) simp
qed

section \<open>The library's part\<close>

text \<open>\<open>None\<close> reverts. \<open>ms_getSigners\<close> is \<open>getSigners(0, type(uint64).max)\<close>.\<close>

record 'm multisigner =
  ms_construct :: "bytes list \<Rightarrow> u64 \<Rightarrow> 'm option"
  ms_isSigner :: "'m \<Rightarrow> bytes \<Rightarrow> bool"
  ms_getSigners :: "'m \<Rightarrow> bytes list"
  ms_threshold :: "'m \<Rightarrow> u64"
  ms_addSigners :: "bytes list \<Rightarrow> 'm \<Rightarrow> 'm option"
  ms_removeSigners :: "bytes list \<Rightarrow> 'm \<Rightarrow> 'm option"
  ms_setThreshold :: "u64 \<Rightarrow> 'm \<Rightarrow> 'm option"
  ms_rawSignatureValidation :: "hash \<Rightarrow> string \<Rightarrow> 'm \<Rightarrow> bool"

text \<open>
  The signers are a set; a threshold is set only if it is positive and can be reached, also by the
  library's constructor; adding and removing change the set by what is given.
\<close>

definition reachable_threshold :: "'m multisigner \<Rightarrow> 'm \<Rightarrow> bool" where
  "reachable_threshold M m \<longleftrightarrow>
     0 < ms_threshold M m \<and> unat (ms_threshold M m) \<le> length (ms_getSigners M m)"

definition lawful_multisigner :: "'m multisigner \<Rightarrow> bool" where
  "lawful_multisigner M \<longleftrightarrow>
     (\<forall>m. distinct (ms_getSigners M m)) \<and>
     (\<forall>m b. ms_isSigner M m b \<longleftrightarrow> b \<in> set (ms_getSigners M m)) \<and>
     (\<forall>bs q m. ms_construct M bs q = Some m \<longrightarrow>
        set (ms_getSigners M m) = set bs \<and> reachable_threshold M m) \<and>
     (\<forall>bs m m'. ms_addSigners M bs m = Some m' \<longrightarrow>
        set (ms_getSigners M m') = set (ms_getSigners M m) \<union> set bs) \<and>
     (\<forall>bs m m'. ms_removeSigners M bs m = Some m' \<longrightarrow>
        set (ms_getSigners M m') = set (ms_getSigners M m) - set bs) \<and>
     (\<forall>q m m'. ms_setThreshold M q m = Some m' \<longrightarrow>
        set (ms_getSigners M m') = set (ms_getSigners M m) \<and> reachable_threshold M m')"

section \<open>State and operations\<close>

record 'm threshold_signers =
  th_set :: 'm
  th_nonce :: uint256

definition threshold_isSigner :: "'m multisigner \<Rightarrow> 'm threshold_signers \<Rightarrow> address \<Rightarrow> bool" where
  "threshold_isSigner M s signer = ms_isSigner M (th_set s) (toBytes signer)"

definition threshold_constructor ::
    "'m multisigner \<Rightarrow> address list \<Rightarrow> u64 \<Rightarrow> approval_error + 'm threshold_signers" where
  "threshold_constructor M initialSigners q =
     (case ms_construct M (toAddressBytesArray initialSigners) q of
        None \<Rightarrow> Inl SignerSetError
      | Some m \<Rightarrow>
          if initialSigners = [] then Inl EmptySignersArray
          else if \<not> (q \<noteq> 0 \<and> unat q \<le> length initialSigners) then Inl InvalidQuorum
          else Inr \<lparr>th_set = m, th_nonce = 0\<rparr>)"

text \<open>The common end of both changes: the nonce, the set, the threshold.\<close>

definition threshold_update ::
    "'m multisigner \<Rightarrow> ('m \<Rightarrow> 'm option) \<Rightarrow> u64 \<Rightarrow> 'm threshold_signers \<Rightarrow>
     approval_error + 'm threshold_signers" where
  "threshold_update M change newThreshold s =
     (if th_nonce s = - 1 then Inl (Base ArithmeticPanic)
      else
        (case change (th_set s) of
           None \<Rightarrow> Inl SignerSetError
         | Some m \<Rightarrow>
             (case ms_setThreshold M newThreshold m of
                None \<Rightarrow> Inl SignerSetError
              | Some m' \<Rightarrow> Inr \<lparr>th_set = m', th_nonce = th_nonce s + 1\<rparr>)))"

definition threshold_addSigners ::
    "'m multisigner \<Rightarrow> approval_env \<Rightarrow> address list \<Rightarrow> u64 \<Rightarrow> uint256 \<Rightarrow> string \<Rightarrow>
     'm threshold_signers \<Rightarrow> approval_error + 'm threshold_signers" where
  "threshold_addSigners M ae newSigners newThreshold deadline signatures s =
     (if \<not> threshold_isSigner M s (ae_sender ae) then Inl NotSigner
      else if ae_timestamp ae > deadline then Inl DeadlineExpired
      else if newSigners = [] then Inl EmptySignersArray
      else if \<not> ms_rawSignatureValidation M
                 (ae_add_digest ae newSigners newThreshold (th_nonce s) deadline) signatures (th_set s)
      then Inl InvalidSignature
      else threshold_update M (ms_addSigners M (toAddressBytesArray newSigners)) newThreshold s)"

definition threshold_removeSigners ::
    "'m multisigner \<Rightarrow> approval_env \<Rightarrow> address list \<Rightarrow> u64 \<Rightarrow> uint256 \<Rightarrow> string \<Rightarrow>
     'm threshold_signers \<Rightarrow> approval_error + 'm threshold_signers" where
  "threshold_removeSigners M ae signersToRemove newThreshold deadline signatures s =
     (if \<not> threshold_isSigner M s (ae_sender ae) then Inl NotSigner
      else if ae_timestamp ae > deadline then Inl DeadlineExpired
      else if signersToRemove = [] then Inl EmptySignersArray
      else if \<not> ms_rawSignatureValidation M
                 (ae_remove_digest ae signersToRemove newThreshold (th_nonce s) deadline) signatures (th_set s)
      then Inl InvalidSignature
      else threshold_update M (ms_removeSigners M (toAddressBytesArray signersToRemove)) newThreshold s)"

datatype threshold_change =
    ThresholdAdd "address list" u64 uint256 string
  | ThresholdRemove "address list" u64 uint256 string

text \<open>
  A change as a call of the contract. Its own code emits nothing; the events OpenZeppelin's library
  emits for it are not modelled.
\<close>

fun threshold_change_signers ::
    "'m multisigner \<Rightarrow> approval_env \<Rightarrow> threshold_change \<Rightarrow> 'm threshold_signers \<Rightarrow>
     approval_error + ('m threshold_signers \<times> approval_event list)" where
  "threshold_change_signers M ae (ThresholdAdd as q deadline sigs) s =
     (case threshold_addSigners M ae as q deadline sigs s of
        Inl err \<Rightarrow> Inl err | Inr s' \<Rightarrow> Inr (s', []))"
| "threshold_change_signers M ae (ThresholdRemove as q deadline sigs) s =
     (case threshold_removeSigners M ae as q deadline sigs s of
        Inl err \<Rightarrow> Inl err | Inr s' \<Rightarrow> Inr (s', []))"

definition threshold_ops :: "'m multisigner \<Rightarrow> ('m threshold_signers, threshold_change) signer_ops" where
  "threshold_ops M =
     \<lparr>so_isSigner = threshold_isSigner M,
      so_signers = (\<lambda>s. map bytesToAddress (ms_getSigners M (th_set s))),
      so_quorum = (\<lambda>s. ms_threshold M (th_set s)), so_change = threshold_change_signers M\<rparr>"

section \<open>The contract as an instance\<close>

text \<open>Only addresses get into the set, and the threshold can be reached after every change.\<close>

definition threshold_ok :: "'m multisigner \<Rightarrow> 'm threshold_signers \<Rightarrow> bool" where
  "threshold_ok M s \<longleftrightarrow>
     set (ms_getSigners M (th_set s)) \<subseteq> range toBytes \<and> reachable_threshold M (th_set s)"

lemma address_bytes_range: "set (toAddressBytesArray as) \<subseteq> range toBytes"
  by (auto simp: toAddressBytesArray_def)

lemma threshold_update_ok:
  assumes "lawful_multisigner M" "threshold_update M change q s = Inr s'"
    "\<And>m. change (th_set s) = Some m \<Longrightarrow> set (ms_getSigners M m) \<subseteq> range toBytes"
  shows "threshold_ok M s'"
proof -
  obtain m m' where "change (th_set s) = Some m" "ms_setThreshold M q m = Some m'" "th_set s' = m'"
    using assms(2) by (auto simp: threshold_update_def split: if_splits option.splits)
  then show ?thesis
    using assms(1,3) by (auto simp: threshold_ok_def lawful_multisigner_def)
qed

lemma threshold_change_ok:
  assumes M: "lawful_multisigner M" and ok: "threshold_ok M s"
    and change: "threshold_change_signers M ae c s = Inr (s', evs)"
  shows "threshold_ok M s' \<and> evs = []"
proof (cases c)
  case (ThresholdAdd as q deadline sigs)
  then have "threshold_update M (ms_addSigners M (toAddressBytesArray as)) q s = Inr s'" "evs = []"
    using change by (auto simp: threshold_addSigners_def split: if_splits sum.splits)
  moreover have "set (ms_getSigners M m) \<subseteq> range toBytes"
    if "ms_addSigners M (toAddressBytesArray as) (th_set s) = Some m" for m
    using M ok that address_bytes_range [of as] by (auto simp: lawful_multisigner_def threshold_ok_def)
  ultimately show ?thesis using threshold_update_ok [OF M] by blast
next
  case (ThresholdRemove as q deadline sigs)
  then have "threshold_update M (ms_removeSigners M (toAddressBytesArray as)) q s = Inr s'" "evs = []"
    using change by (auto simp: threshold_removeSigners_def split: if_splits sum.splits)
  moreover have "set (ms_getSigners M m) \<subseteq> range toBytes"
    if "ms_removeSigners M (toAddressBytesArray as) (th_set s) = Some m" for m
    using M ok that by (auto simp: lawful_multisigner_def threshold_ok_def)
  ultimately show ?thesis using threshold_update_ok [OF M] by blast
qed

lemma threshold_listed:
  assumes "lawful_multisigner M" "threshold_ok M s"
  shows "distinct (map bytesToAddress (ms_getSigners M (th_set s)))"
    "threshold_isSigner M s a \<longleftrightarrow> a \<in> bytesToAddress ` set (ms_getSigners M (th_set s))"
proof -
  have inj: "inj_on bytesToAddress (range toBytes)" by (auto intro!: inj_onI)
  show "distinct (map bytesToAddress (ms_getSigners M (th_set s)))"
    using assms inj by (auto simp: distinct_map lawful_multisigner_def threshold_ok_def intro: inj_on_subset)
  show "threshold_isSigner M s a \<longleftrightarrow> a \<in> bytesToAddress ` set (ms_getSigners M (th_set s))"
  proof
    show "a \<in> bytesToAddress ` set (ms_getSigners M (th_set s))" if "threshold_isSigner M s a"
      using that assms(1) image_eqI [of a bytesToAddress "toBytes a"]
      by (simp add: threshold_isSigner_def lawful_multisigner_def)
    assume "a \<in> bytesToAddress ` set (ms_getSigners M (th_set s))"
    then obtain b where "toBytes b \<in> set (ms_getSigners M (th_set s))" "a = b"
      using assms(2) by (auto simp: threshold_ok_def)
    then show "threshold_isSigner M s a"
      using assms(1) by (simp add: threshold_isSigner_def lawful_multisigner_def)
  qed
qed

lemma threshold_ops_simps:
  "so_isSigner (threshold_ops M) = threshold_isSigner M"
  "so_signers (threshold_ops M) s = map bytesToAddress (ms_getSigners M (th_set s))"
  "so_quorum (threshold_ops M) s = ms_threshold M (th_set s)"
  "so_change (threshold_ops M) = threshold_change_signers M"
  by (simp_all add: threshold_ops_def)

interpretation threshold: signer_set threshold_ops lawful_multisigner threshold_ok
proof (unfold_locales, unfold threshold_ops_simps, goal_cases)
  case 1 then show ?case by (rule threshold_listed)
next
  case 2 then show ?case by (simp add: threshold_listed)
next
  case 3 then show ?case by (simp add: threshold_ok_def reachable_threshold_def)
next
  case 4 then show ?case by (simp add: threshold_ok_def reachable_threshold_def)
next
  case 5 then show ?case by (blast dest: threshold_change_ok)
next
  case 6 then show ?case using threshold_change_ok by fastforce
qed

lemma threshold_constructor_ok:
  assumes "lawful_multisigner M" "threshold_constructor M as q = Inr s"
  shows "threshold_ok M s"
  using assms address_bytes_range [of as]
  by (auto simp: threshold_constructor_def threshold_ok_def lawful_multisigner_def split: option.splits if_splits)

lemma toBytes_eq [simp]: "toBytes a = toBytes b \<longleftrightarrow> a = b"
  by (metis bytes_roundtrip)

section \<open>Properties\<close>

text \<open>
  C18: over any calls by anyone after the constructor, \<open>ThresholdCustody\<close> pays a request at most once,
  to the user and in the amount requested, never after a reject, and only with the approvals of as
  many different addresses as the threshold was at the request, if the library keeps its signers as
  documented: a set, changed by what it is given, under a threshold that can be reached.
\<close>

theorem threshold_custody_pays_with_quorum:
  assumes "lawful_multisigner M" "threshold_constructor M initialSigners q = Inr signers"
    "\<forall>(ae, c) \<in> set calls. clocked ae"
    "h = approval_run (threshold_ops M) calls (approval_init signers [])"
  shows "distinct (map fst (ah_paid h)) \<and>
    (\<forall>i u t a. (i, u, t, a) \<in> set (ah_paid h) \<longrightarrow>
       (\<exists>n. CustodyEvent (WithdrawStarted i u t a n) \<in> set (ah_events h)) \<and>
       CustodyEvent (WithdrawFinalized i False) \<notin> set (ah_events h) \<and>
       0 < ar_requiredQuorum (ac_withdrawals (ah_state h) i) \<and> quorum_approved h i)"
  by (rule threshold.paid_with_quorum
      [OF assms(1) threshold_constructor_ok [OF assms(1,2)] _ assms(3,4)]) simp

text \<open>A library that keeps a list and the threshold.\<close>

definition list_multisigner :: "(bytes list \<times> u64) multisigner" where
  "list_multisigner =
     \<lparr>ms_construct = (\<lambda>bs q. if 0 < q \<and> unat q \<le> length (remdups bs) then Some (bs, q) else None),
      ms_isSigner = (\<lambda>m b. b \<in> set (fst m)), ms_getSigners = (\<lambda>m. remdups (fst m)), ms_threshold = snd,
      ms_addSigners = (\<lambda>bs m. Some (fst m @ bs, snd m)),
      ms_removeSigners = (\<lambda>bs m. Some (filter (\<lambda>b. b \<notin> set bs) (fst m), snd m)),
      ms_setThreshold = (\<lambda>q m. if 0 < q \<and> unat q \<le> length (remdups (fst m)) then Some (fst m, q) else None),
      ms_rawSignatureValidation = (\<lambda>digest sigs m. sigs \<noteq> [])\<rparr>"

lemma list_multisigner_lawful: "lawful_multisigner list_multisigner"
  by (auto simp: lawful_multisigner_def list_multisigner_def reachable_threshold_def)

definition sample_threshold_calls :: "(approval_env \<times> threshold_change approval_call) list" where
  "sample_threshold_calls =
     [(sample_block 1 100, AStart 7 5 120 4), (sample_block 9 101, AFinalize 4), (sample_block 2 102, AFinalize 4)]"

lemma threshold_custody_pays_with_quorum_witness:
  "\<exists>signers h. threshold_constructor list_multisigner [1, 2] 1 = Inr signers \<and>
    h = approval_run (threshold_ops list_multisigner) sample_threshold_calls (approval_init signers []) \<and>
    ah_paid h = [(4, 7, 5, 120)] \<and> quorum_approved h 4"
proof -
  let ?s = "\<lparr>th_set = (map toBytes [1, 2], 1), th_nonce = 0\<rparr>"
  let ?h = "approval_run (threshold_ops list_multisigner) sample_threshold_calls (approval_init ?s [])"
  have s: "threshold_constructor list_multisigner [1, 2] 1 = Inr ?s"
    by (simp add: threshold_constructor_def list_multisigner_def toAddressBytesArray_def)
  have paid: "ah_paid ?h = [(4, 7, 5, 120)]"
    by (simp add: sample_threshold_calls_def sample_block_def approval_init_def no_approval_request_def
        approval_apply_def approval_startWithdraw_def approval_finalizeWithdraw_def executeWithdrawal_def
        countValidApprovals_def threshold_ops_simps threshold_isSigner_def list_multisigner_def
        OPERATION_EXPIRY_def word_less_nat_alt)
  have "\<forall>(ae, c) \<in> set sample_threshold_calls. clocked ae"
    by (simp add: sample_threshold_calls_def clocked_def sample_block_def)
  from threshold_custody_pays_with_quorum [OF list_multisigner_lawful s this refl] s paid show ?thesis
    by auto
qed

end
