(* ===== verification/Spec2Isabelle.thy ===== *)
theory Spec2Isabelle
  imports Nitewatch_Correct Faults Tables Lifecycle Interfaces Quorum_Service Threshold_Custody
begin

text \<open>
  Nitewatch watches a custody contract on an EVM chain. For every \<open>WithdrawStarted\<close> event it checks
  the withdrawal against hourly and daily limits, per token and per user, and then sends the
  transaction that finalizes or rejects it. This library models the Go program: configuration,
  limits, ledger, listener, worker, entry point and contract bindings, together with the contract
  \<open>SimpleCustody\<close> it works for and the two others that offer the same interface.

  The parts and their theories, in the order they build on each other (paths under \<open>src/\<close>):

  \<^item> Prelude, Go_Num: Go errors as a datatype (sentinel, opaque, wrapped), times and their windows,
    the number texts of \<open>math/big\<close> and \<open>strconv\<close>, lemmas on lists and strings.
  \<^item> Custody_Types (\<open>custody/types.go\<close>): addresses, hashes, events, withdrawals; the interface
    \<open>WithdrawalStore\<close> as the locale \<open>withdrawal_store\<close>.
  \<^item> Config (\<open>config/config.go\<close>): validation, loading, \<open>os.ExpandEnv\<close>. Limits (\<open>parseLimitsConfig\<close>
    and \<open>parseUserOverrides\<close> of \<open>service/service.go\<close>): a Go map is the list of its entries in the
    order \<open>range\<close> visits them, and what is shown holds for every order.
  \<^item> Checker (\<open>internal/checker/checker.go\<close>): \<open>Check\<close> and \<open>Record\<close> over any store that keeps the
    locale's laws, with the clock as an argument.
  \<^item> Store (\<open>internal/store/adapter.go\<close>): the three tables and the adapter's methods, and the
    interpretation of \<open>withdrawal_store\<close> by them. Tables: the types of the rows.
  \<^item> Bindings (\<open>custody/iwithdraw.go\<close>, \<open>custody/ideposit.go\<close>) and Simple_Custody_Bindings
    (\<open>custody/simple_custody.go\<close>): views, transactors, parsers, filters with iterators, watchers. The
    locale \<open>event_struct\<close> states what the generator promises of an event's struct, and is interpreted
    for each of the six events. Binding_Sessions: the bindings' structs, sessions, raw access and
    deployment. Contract_ABI: the embedded ABIs and the agreement of the code with them. Interfaces:
    \<open>Custody\<close> and \<open>EventListener\<close> with their implementations.
  \<^item> Reconcile, Reconcile_Correct (\<open>reconcileBlockRange\<close>, \<open>extractAdvisedBlockRange\<close> and
    \<open>waitForBackOffTimeout\<close> of \<open>custody/listener.go\<close>): the goroutine that reads the history.
  \<^item> Listener (\<open>listenEvents\<close> and the Watch methods), Delivery (the listener against a growing chain,
    as a step relation), Positions (the order of logs), Reconnects (many connections).
  \<^item> Service (\<open>service/service.go\<close>, \<open>cmd/nitewatch/main.go\<close>): construction, \<open>processWithdrawal\<close>, the
    worker. Worker: what a run does on an answering database. Policy: the limits over any run.
  \<^item> Lifecycle (\<open>RunWorkerWithContext\<close>): the goroutines of the process and what they wait for (context,
    server, channel, each other), apart from what comes from outside; interrupt and exit status.
  \<^item> Custody_Contract (\<open>contracts/evm/src/SimpleCustody.sol\<close>) and World: contract and service together.
  \<^item> Chain_Logs (\<open>ParseWithdrawStarted\<close> and its siblings): the logs of the contract's events and what the
    Go code reads of them. Nitewatch_System: all of it as one step relation. Blocks execute calls of
    anybody and transactions of the service and put the events on the chain as logs; the listener
    connects, reads its channels and loses its subscription; the process may be started again from
    its cursor. Nitewatch_Sample runs it once, Nitewatch_Correct holds what it promises.
  \<^item> Faults: contract and service when the process may stop within \<open>processWithdrawal\<close>, the database
    refuses and the node does not answer.
  \<^item> Approval_Custody: the withdrawals of \<open>QuorumCustody.sol\<close> and \<open>ThresholdCustody.sol\<close>, which need the
    approval of several signers, over an interface for the signers, the locale \<open>signer_set\<close>.
    Quorum_Custody and Threshold_Custody: the signers of the two contracts and its interpretations.
    Quorum_Service: the service in front of \<open>QuorumCustody\<close>.

  Correspondence. A struct is a record, a Go error an optional or left value, so every early return is
  a branch. State that a method changes is passed and returned. What the code reads from outside
  (database, node, clock, scheduling of a \<open>select\<close>, order of a map) is an argument: a record of
  functions (\<open>gorm\<close>, \<open>geth\<close>, \<open>bound_contract\<close>, \<open>backends\<close>, \<open>errgroup\<close>) or one input per iteration of a
  loop. What is assumed of it is a named predicate (\<open>gorm_ok\<close>, \<open>faultless\<close>, \<open>geth_ok\<close>, \<open>sound_node\<close>,
  \<open>answering_node\<close>, \<open>errgroup_ok\<close>), which each holds of a concrete instance used by the witnesses.
  Block numbers are 64-bit words and wrap, log indices are cut to 32 bits where the code cuts them,
  \<open>big.Int\<close> is \<open>int\<close>, the contract's amounts are 256-bit words.

  Bounds and fuel. Loops that wait for the outside (history, listener, worker) run over the list of
  their inputs, one per iteration. That enough inputs finish the history is proved
  (\<open>reconcile_reaches_head\<close>): number of blocks div 10000 + 2 are enough; so is that the goroutines
  always end (\<open>shutdown_terminates\<close>, with a measure). Hypotheses of the form \<open>unat head + 10002 < 2 ^ 64\<close>
  keep the additions of the code from wrapping.

  What is shown, by group: the limits, over runs of the worker (Policy), for the payments of the
  contract (World), for the system as a whole, restarts included (Nitewatch_Correct), and up to one
  payment for each fault when the process stops within an event (Faults); every request
  decided once, from the chain to the ledger (Nitewatch_Correct, this theory, Worker, Reconnects); what the history delivers and when it ends (Reconcile_Correct); how the listener can
  lose logs (Listener, Delivery: a stale index, a race, unread history) and when it cannot (Reconnects);
  atomicity, sums and types of the tables (Store, Tables); agreement of validation and parsing (Limits);
  the bindings' iterators and watchers (Bindings), their agreement with the ABI (Contract_ABI) and what
  they read of the contract (Custody_Contract); that a contract with approvals is a \<open>SimpleCustody\<close> to a
  reader of withdrawals and pays only with its quorum (Approval_Custody), that its signers stay sound
  and change only by a quorum (Quorum_Custody), and that the service's books part from it
  (Quorum_Service).

  Not modelled: logging; the routes of the health endpoint, of which the code has none; the bytecode of
  the bindings, an argument of the deployment; the retry helper of the RPC client (\<open>debounce\<close>), whose
  outcome is an input; the deployment scripts. gorm, SQLite, go-ethereum, gin, YAML, \<open>errgroup\<close> and
  OpenZeppelin are not under \<open>src/\<close> and are parameters. A change of signers made from within a payment,
  which no guard prevents, touches no request and is the step after the payment. Memory shared between
  goroutines is the two channels and the ready flag only; a data race in the library code is out of
  reach of the model. In the system as a whole an event is handled in one step, so a restart falls between
  two events; a process that stops within an event is the subject of Faults, over the contract's
  events without the listener.
\<close>

section \<open>The whole service\<close>

lemma watched_ids:
  assumes "listener_WatchWithdrawStarted (Inr ids) L fromBlock fromLogIndex is = (evs, e)"
    and "ln_withdrawFilterer L = Some C"
    and "listenEvents (ln_contractAddr L) fromBlock fromLogIndex [[ids ''WithdrawStarted'']] is =
      (r, st, acts)"
    and "ev \<in> set evs"
  shows "\<exists>l raw. l \<in> set (handled_logs acts) \<and> ParseWithdrawStarted C l = Inr raw \<and>
    iws_WithdrawalId raw = ws_WithdrawalID ev"
proof -
  have "evs = parsed ParseWithdrawStarted withdraw_started_of C (handled_logs acts)"
    using assms(1-3) by (simp add: listener_WatchWithdrawStarted_def feed_parsed)
  with assms(4) obtain l raw where "l \<in> set (handled_logs acts)" "ParseWithdrawStarted C l = Inr raw"
    "ev = withdraw_started_of raw"
    by (auto simp: parsed_set)
  then show ?thesis by (auto simp: withdraw_started_of_def)
qed

text \<open>
  C22: the service acts only on the contract's events: every transaction a run sends, to finalize or to
  reject, is for the withdrawal id of a log that the listener received and that parses as
  \<open>WithdrawStarted\<close>, however the database, the node and the subscription behave.
\<close>

theorem transactions_follow_logs:
  assumes "run_abi R = Inr ids" "ln_withdrawFilterer (svc_listener svc) = Some C"
    and "listenEvents (ln_contractAddr (svc_listener svc))
      (fst (worker_start (run_gorm R) d)) (snd (worker_start (run_gorm R) d))
      [[ids ''WithdrawStarted'']] (run_listen R) = (r, ls, acts)"
    and "RunWorkerWithContext G svc R d = ((st, e), svc')"
    and "x \<in> set (st_sent st)"
  shows "\<exists>l raw. l \<in> set (handled_logs acts) \<and> ParseWithdrawStarted C l = Inr raw \<and>
    iws_WithdrawalId raw = sent_id x"
proof -
  obtain b k where start: "worker_start (run_gorm R) d = (b, k)" by (cases "worker_start (run_gorm R) d")
  obtain evs e' where watch:
    "listener_WatchWithdrawStarted (Inr ids) (svc_listener svc) b k (run_listen R) = (evs, e')"
    by (cases "listener_WatchWithdrawStarted (Inr ids) (svc_listener svc) b k (run_listen R)")
  have st: "st = worker_loop G (svc_checker svc) (zip (map (with_auth svc) (run_steps R)) evs) (new_state d)"
    using assms(1,4) start watch by (simp add: RunWorkerWithContext_def new_state_def)
  have "sent_id x \<in> (ws_WithdrawalID \<circ> snd) ` set (zip (map (with_auth svc) (run_steps R)) evs)"
    using worker_sent_ids [of G "svc_checker svc" "zip (map (with_auth svc) (run_steps R)) evs" "new_state d"] assms(5)
    by (auto simp: st)
  then obtain ev where "ev \<in> set evs" "ws_WithdrawalID ev = sent_id x"
    by (auto dest: set_zip_rightD)
  with watched_ids [OF watch assms(2)] assms(3) start show ?thesis by fastforce
qed

definition sample_run :: run_env where
  "sample_run =
     \<lparr>run_gorm = sql_engine, run_abi = Inr (\<lambda>_. 7),
      run_listen = [live_input 20 (Current (sample_log 21 4))],
      run_steps = [sample_env sql_engine 10]\<rparr>"

lemma transactions_follow_logs_witness:
  "\<exists>svc st e svc'. RunWorkerWithContext plain_geth svc sample_run empty_db = ((st, e), svc') \<and>
    (\<forall>x \<in> set (st_sent st). sent_id x = 4)"
proof -
  obtain svc where svc: "NewWithBackend plain_geth sample_backends sample_config () empty_db =
      (Inr svc, empty_db)"
    using sample_service by blast
  have contract: "ln_withdrawFilterer (svc_listener svc) = Some sample_contract"
    using svc
    by (auto simp: NewWithBackend_def sample_backends_def NewAdapter_def NewListener_def
        NewIWithdraw_def bindIWithdraw_def Let_def
        split: sum.splits prod.splits option.splits)
  have start: "worker_start sql_engine empty_db = (0, 0)"
    by (simp add: worker_start_def GetCursor_def sql_engine_def empty_db_def errors_is.simps)
  obtain ls acts where listen: "listenEvents (ln_contractAddr (svc_listener svc)) 0 0 [[7]]
      (run_listen sample_run) = (Listening, ls, acts)" and logs: "handled_logs acts = [sample_log 21 4]"
    by (simp add: sample_run_def listenEvents_def listen_init_def listen_defs live_input_def)
  obtain st e svc' where run: "RunWorkerWithContext plain_geth svc sample_run empty_db = ((st, e), svc')"
    by (cases "RunWorkerWithContext plain_geth svc sample_run empty_db") auto
  have "sent_id x = 4" if "x \<in> set (st_sent st)" for x
    using transactions_follow_logs [OF _ contract _ run that, of "\<lambda>_. 7" Listening ls acts] listen logs
    by (auto simp: sample_run_def start ParseWithdrawStarted_def unpack_event_def sample_contract_def
        mk_withdraw_started_def sample_log_def)
  with run show ?thesis by blast
qed

text \<open>
  C13: where a restart resumes, and what it leaves out. After an event was handled and the process starts
  again, the listener reads the cursor, starts the history at that event's block and, from a node
  that answers, the goroutine delivers exactly the logs after the event's position and before the
  head's block: those of the same block with a higher index, and those of the blocks between. The
  head's own logs are delivered too, except (\<open>skips_head\<close>) when the head is the cursor's block, whose
  later logs are then lost for this connection, or the first block of a new range.
\<close>

theorem restart_resumes_after_event:
  assumes "gorm_ok (env_gorm env)" "faultless (env_gorm env)" "fresh_id G event (st_db st)"
    and "gorm_ok E" "GetCursor E withdraw_started_stream (st_db (processWithdrawal G c env event st)) = Inr (b, k)"
    and "ws_BlockNumber event \<noteq> 0" "unat (ws_LogIndex event) < 2 ^ 32"
    and "listenEvents contract b k topics is = (r, ls, StartReconcile P # acts)"
    and "no_wrap P" "b \<le> rp_currentBlock P" "\<forall>i \<in> set js. answering_node P chain i"
    and "sorted (map log_BlockNumber chain)"
    and "(unat (rp_currentBlock P) - unat b) div 10000 + 2 < length js"
  shows "\<exists>st'. reconcileBlockRange P js = (Finished, st',
    filter (\<lambda>l. At (ws_BlockNumber event) (ws_LogIndex event) < log_position l \<and>
        log_BlockNumber l < (if skips_head P then rp_currentBlock P else rp_currentBlock P + 1)) chain)"
proof -
  have at: "cursor_at withdraw_started_stream (st_db (processWithdrawal G c env event st)) =
      {(ws_BlockNumber event, ws_LogIndex event)}"
    using process_handled [OF assms(1-3), of c] by (auto simp: handled_def)
  with GetCursor_at [OF assms(4,5)] have bk: "b = ws_BlockNumber event" "k = ucast (ws_LogIndex event)"
    by auto
  have idx: "ucast (ucast (ws_LogIndex event) :: u32) = ws_LogIndex event"
    using assms(7) by (simp add: word_unat_eq_iff unsigned_ucast_eq unsigned_take_bit_eq take_bit_nat_eq_self)
  have P: "rp_lastIndex P = k \<and> rp_lastBlock P = b"
    using first_start [OF assms(8) [unfolded listenEvents_def]] by (simp add: listen_init_def)
  from answering_delivers [OF assms(9) _ assms(11,12)] assms(10,13) P
  obtain st' where run: "reconcileBlockRange P js = (Finished, st', delivered P chain b
      (if skips_head P then rp_currentBlock P else rp_currentBlock P + 1))"
    by auto
  moreover have "delivered P chain b t = filter (\<lambda>l. At (ws_BlockNumber event) (ws_LogIndex event) <
      log_position l \<and> log_BlockNumber l < t) chain" for t
    using delivered_after_cursor [of P chain t] by (simp add: P bk idx cursor_position_def)
  ultimately show ?thesis by simp
qed

text \<open>The witness: log 1 of block 20 was handled; log 2 of the block and the next block come again.\<close>

lemma restart_resumes_after_event_witness:
  "\<exists>b k r ls P acts st'.
    GetCursor sql_engine withdraw_started_stream (st_db (processWithdrawal plain_geth sample_checker
      (sample_env sql_engine 10) (sample_started 1 120) (new_state empty_db))) = Inr (b, k) \<and>
    listenEvents 1 b k [[7]] [live_input 22 CtxDone] = (r, ls, StartReconcile P # acts) \<and>
    reconcileBlockRange P (replicate 3 (sample_input (\<lambda>q. Inr (answer
        [sample_log 20 1, sample_log 20 2, sample_log 21 0] q)))) =
      (Finished, st', [sample_log 20 2, sample_log 21 0])"
proof -
  let ?chain = "[sample_log 20 1, sample_log 20 2, sample_log 21 0]"
  let ?d = "st_db (processWithdrawal plain_geth sample_checker (sample_env sql_engine 10)
    (sample_started 1 120) (new_state empty_db))"
  have fresh: "fresh_id plain_geth (sample_started 1 120) (st_db (new_state empty_db))"
    by (simp add: fresh_id_def empty_db_def)
  obtain b k where cursor: "GetCursor sql_engine withdraw_started_stream ?d = Inr (b, k)"
    by (cases "filter (\<lambda>c. bc_StreamName c = withdraw_started_stream) (cursors ?d)")
      (auto simp: GetCursor_def sql_engine_def errors_is.simps)
  have "cursor_at withdraw_started_stream ?d = {(20, 1)}"
    using process_handled [of "sample_env sql_engine 10" plain_geth "sample_started 1 120"
        "new_state empty_db" sample_checker] fresh
    by (auto simp: handled_def sample_started_def)
  with GetCursor_at [OF sql_engine_ok cursor] have bk: "b = 20" "k = 1" by auto
  obtain r ls acts where listen: "listenEvents 1 b k [[7]] [live_input 22 CtxDone] =
      (r, ls, StartReconcile (first_params 1 [[7]] 22 20 1) # acts)"
    by (simp add: bk listenEvents_def listen_init_def listen_defs live_input_def first_params_def)
  have two: "\<not> (2 :: u64) \<le> 1" by (simp add: word_le_nat_alt)
  obtain st' where "reconcileBlockRange (first_params 1 [[7]] 22 20 1)
      (replicate 3 (sample_input (\<lambda>q. Inr (answer ?chain q)))) =
      (Finished, st', [sample_log 20 2, sample_log 21 0])"
    using restart_resumes_after_event [OF _ _ fresh sql_engine_ok, where env = "sample_env sql_engine 10"
        and c = sample_checker and b = b and k = k, OF _ _ cursor _ _ listen,
        of "replicate 3 (sample_input (\<lambda>q. Inr (answer ?chain q)))" ?chain]
    by (auto simp: bk first_params_def sample_started_def sample_log_def no_wrap_def skips_head_def
        log_position_def two)
  with cursor listen show ?thesis by blast
qed


section \<open>From the chain to the decision\<close>

lemma events_are_recorded:
  assumes "answering (zip envs evs)" "length evs \<le> length envs"
    and "st = worker_loop G c (zip envs evs) (new_state empty_db)" "ev \<in> set evs"
  shows "hash_hex G (ws_WithdrawalID ev) \<in> we_WithdrawalID ` set (events (st_db st))"
proof -
  obtain k where "k < length evs" "ev = evs ! k" using assms(4) by (metis in_set_conv_nth)
  then have "(envs ! k, ev) \<in> set (zip envs evs)"
    using assms(2) by (auto simp: in_set_zip intro!: exI [of _ k])
  with worker_records [OF assms(1) worker_inv_empty, of G c] show ?thesis
    by (force simp: assms(3))
qed

text \<open>
  No request is lost and none is decided twice. Take a listener that reconnects quietly any
  number of times, with both channels read empty, and a worker that handles what the listener handed
  on, on an answering database. Then every withdrawal request on the chain after the start position
  has exactly one recorded decision, and at most one transaction was sent for it, although
  reconnecting hands logs on more than once.
\<close>

theorem every_request_decided_once:
  assumes "geth_ok G" "quiet_reach contract topics topic (sys_start chain head fromBlock fromLogIndex) s"
    and "fromBlock < head" "\<forall>l \<in> set chain. log_BlockNumber l \<le> head"
    and "ls_subscribed (sy_listen s)" "unat (sy_head s) + 10002 < 2 ^ 64"
    and "sy_hist s = []" "sy_live s = []"
    and "evs = parsed ParseWithdrawStarted withdraw_started_of C (sy_handled s)"
    and "answering (zip envs evs)" "length evs \<le> length envs"
    and "st = worker_loop G c (zip envs evs) (new_state empty_db)"
    and "l \<in> set (sy_chain s)" "topic l" "cursor_position fromBlock fromLogIndex < log_position l"
    and "ParseWithdrawStarted C l = Inr raw"
  shows "length (filter (\<lambda>ev. we_WithdrawalID ev = hash_hex G (iws_WithdrawalId raw)) (events (st_db st))) = 1 \<and>
    length (filter (\<lambda>x. sent_id x = iws_WithdrawalId raw) (st_sent st)) \<le> 1"
proof -
  have "accounted topic fromBlock fromLogIndex s"
    using quiet_reach_accounted [OF assms(2) accounted_start [OF assms(3,4)] assms(6)] .
  then have "l \<in> set (sy_handled s)"
    using assms(5,7,8,13-15) by (auto simp: accounted_def asked_def)
  then have "withdraw_started_of raw \<in> set evs"
    using assms(16) by (auto simp: assms(9) parsed_set)
  from events_are_recorded [OF assms(10,11,12) this]
  have recorded: "hash_hex G (iws_WithdrawalId raw) \<in> we_WithdrawalID ` set (events (st_db st))"
    by (simp add: withdraw_started_of_def)
  have "distinct (map we_WithdrawalID (events (st_db st)))"
    using worker_db_ok [OF assms(1,10), of "new_state empty_db" c] unfolding assms(12) db_ok_def
    by (simp add: empty_db_ok [unfolded db_ok_def])
  moreover have "distinct (map sent_id (st_sent st))"
    using worker_inv_run [OF assms(10) worker_inv_empty, of G c] by (simp add: assms(12) worker_inv_def)
  ultimately show ?thesis using recorded by (simp add: filter_at_most_once)
qed

text \<open>What the sample contract reads from a log.\<close>

definition the_started :: "eth_log \<Rightarrow> i_withdraw_started" where
  "the_started l = \<lparr>iws_WithdrawalId = ucast (log_Index l), iws_User = 2, iws_Token = 3, iws_Amount = 100,
     iws_Nonce = 0, iws_Raw = l\<rparr>"

text \<open>The witness: the log of a request for id 0 is read from the history and handled.\<close>

lemma every_request_decided_once_witness:
  "\<exists>st. st = worker_loop plain_geth sample_checker
      [(sample_env sql_engine 10, withdraw_started_of (the_started (sample_log 11 0)))]
      (new_state empty_db) \<and>
    length (filter (\<lambda>ev. we_WithdrawalID ev = hash_hex plain_geth 0) (events (st_db st))) = 1"
proof -
  let ?s = "up_sample [sample_log 11 0] 12 [] [sample_log 11 0]"
  have s: "ls_subscribed (sy_listen ?s)" "sy_chain ?s = [sample_log 11 0]" "sy_head ?s = 12"
    "sy_hist ?s = []" "sy_live ?s = []" "sy_handled ?s = [sample_log 11 0]"
    by (simp_all add: up_sample_def)
  have parse: "ParseWithdrawStarted sample_contract (sample_log 11 0) = Inr (the_started (sample_log 11 0))"
    by (simp add: ParseWithdrawStarted_def unpack_event_def sample_contract_def mk_withdraw_started_def
        sample_log_def the_started_def)
  then have evs: "parsed ParseWithdrawStarted withdraw_started_of sample_contract (sy_handled ?s) =
      [withdraw_started_of (the_started (sample_log 11 0))]"
    by (simp add: s(6) parsed_def)
  let ?envs = "[sample_env sql_engine 10]"
  have ans: "answering (zip ?envs (parsed ParseWithdrawStarted withdraw_started_of sample_contract (sy_handled ?s)))"
    by (simp add: answering_def evs)
  have pos: "cursor_position 10 5 < log_position (sample_log 11 0)"
    by (simp add: after_cursor sample_log_def)
  have block: "\<forall>l \<in> set [sample_log 11 0]. log_BlockNumber l \<le> 12"
    by (simp add: sample_log_def)
  have "length (filter (\<lambda>ev. we_WithdrawalID ev = hash_hex plain_geth
      (iws_WithdrawalId (the_started (sample_log 11 0)))) (events (st_db (worker_loop plain_geth sample_checker
        (zip ?envs (parsed ParseWithdrawStarted withdraw_started_of sample_contract (sy_handled ?s)))
        (new_state empty_db))))) = 1"
    using every_request_decided_once [OF plain_geth_ok sample_quiet_run _ block s(1) _ s(4,5) refl ans _ refl _ _ pos parse,
        of sample_checker] s(2,3) evs
    by simp
  then show ?thesis
    by (simp add: evs) (simp add: the_started_def sample_log_def)
qed

end
